(* ===== verification/Relay_Prelude.thy ===== *)
theory Relay_Prelude
  imports Main "HOL-Library.Sublist" "HOL-Library.AList" "HOL-Library.Word"
begin

text \<open>
  Shared vocabulary of the development: the collections of rewrite rules, the Rust string
  operations the relay uses, and the lemmas about association lists that the components share.

  A Rust string is the list of its UTF-8 bytes (\<^typ>\<open>string\<close>, whose characters are bytes), so
  \<^verbatim>\<open>str::len\<close> is \<^const>\<open>length\<close>. A \<^verbatim>\<open>HashMap\<close> is an association list with distinct
  keys: its order stands for the iteration order of the table, which the program never relies on
  and no theorem mentions. Rust's \<^verbatim>\<open>Result<T, E>\<close> is the sum \<open>'e + 't\<close> with \<open>Inl\<close> the error.
\<close>

named_theorems str_simps \<open>rewrite rules for the string operations\<close>

type_synonym u32 = "32 word"
type_synonym u64 = "64 word"

section \<open>Strings\<close>

definition strip_prefix :: "'a list \<Rightarrow> 'a list \<Rightarrow> 'a list option" where
  "strip_prefix p s = (if prefix p s then Some (drop (length p) s) else None)"

definition strip_suffix :: "'a list \<Rightarrow> 'a list \<Rightarrow> 'a list option" where
  "strip_suffix p s = (if suffix p s then Some (take (length s - length p) s) else None)"

text \<open>\<^verbatim>\<open>str::split_once\<close> and \<^verbatim>\<open>str::rsplit_once\<close>: the parts before and after the first (last)
  separator.\<close>

fun split_once :: "'a \<Rightarrow> 'a list \<Rightarrow> ('a list \<times> 'a list) option" where
  "split_once c [] = None"
| "split_once c (x # xs) =
     (if x = c then Some ([], xs) else map_option (\<lambda>(a, b). (x # a, b)) (split_once c xs))"

definition rsplit_once :: "'a \<Rightarrow> 'a list \<Rightarrow> ('a list \<times> 'a list) option" where
  "rsplit_once c s = map_option (\<lambda>(a, b). (rev b, rev a)) (split_once c (rev s))"

text \<open>\<^verbatim>\<open>str::split\<close>: never empty, and the pieces contain no separator.\<close>

fun split_on :: "'a \<Rightarrow> 'a list \<Rightarrow> 'a list list" where
  "split_on c [] = [[]]"
| "split_on c (x # xs) =
     (if x = c then [] # split_on c xs
      else (case split_on c xs of [] \<Rightarrow> [[x]] | y # ys \<Rightarrow> (x # y) # ys))"

fun join :: "'a list \<Rightarrow> 'a list list \<Rightarrow> 'a list" where
  "join sep [] = []"
| "join sep [x] = x"
| "join sep (x # y # ys) = x @ sep @ join sep (y # ys)"

text \<open>
  \<^verbatim>\<open>str::trim\<close> removes the code points with Unicode's \<^verbatim>\<open>White_Space\<close> property at both ends; here
  they are listed by their UTF-8 encodings.
\<close>

definition bytes :: "nat list \<Rightarrow> string" where
  "bytes = map char_of"

definition whitespace :: "string list" where
  "whitespace = map bytes
     ([[9], [10], [11], [12], [13], [32], [0xC2, 0x85], [0xC2, 0xA0], [0xE1, 0x9A, 0x80]]
      @ map (\<lambda>b. [0xE2, 0x80, b]) [0x80, 0x81, 0x82, 0x83, 0x84, 0x85, 0x86, 0x87, 0x88, 0x89, 0x8A,
                                  0xA8, 0xA9, 0xAF]
      @ [[0xE2, 0x81, 0x9F], [0xE3, 0x80, 0x80]])"

function strip_all :: "'a list list \<Rightarrow> 'a list \<Rightarrow> 'a list" where
  "strip_all ws s =
     (case find (\<lambda>w. w \<noteq> [] \<and> prefix w s) ws of
        Some w \<Rightarrow> strip_all ws (drop (length w) s)
      | None \<Rightarrow> s)"
  by pat_completeness auto
termination
proof (relation "measure (\<lambda>(ws, s). length s)")
  show "wf (measure (\<lambda>(ws :: 'a list list, s :: 'a list). length s))" by simp
next
  fix ws :: "'a list list" and s w
  assume "find (\<lambda>w. w \<noteq> [] \<and> prefix w s) ws = Some w"
  then have "w \<noteq> [] \<and> prefix w s" by (auto simp: find_Some_iff)
  then show "((ws, drop (length w) s), ws, s) \<in> measure (\<lambda>(ws, s). length s)"
    by (auto simp: prefix_def)
qed

declare strip_all.simps [simp del]

definition trim_start :: "string \<Rightarrow> string" where
  "trim_start s = strip_all whitespace s"

definition trim_end :: "string \<Rightarrow> string" where
  "trim_end s = rev (strip_all (map rev whitespace) (rev s))"

definition trim :: "string \<Rightarrow> string" where
  "trim s = trim_end (trim_start s)"

definition trim_start_matches :: "'a \<Rightarrow> 'a list \<Rightarrow> 'a list" where
  "trim_start_matches c s = dropWhile (\<lambda>x. x = c) s"

definition trim_end_matches :: "'a \<Rightarrow> 'a list \<Rightarrow> 'a list" where
  "trim_end_matches c s = rev (dropWhile (\<lambda>x. x = c) (rev s))"

text \<open>The ASCII character classes and case mappings, byte by byte.\<close>

definition is_upper :: "char \<Rightarrow> bool" where
  "is_upper c \<longleftrightarrow> 65 \<le> (of_char c :: nat) \<and> (of_char c :: nat) \<le> 90"

definition is_lower :: "char \<Rightarrow> bool" where
  "is_lower c \<longleftrightarrow> 97 \<le> (of_char c :: nat) \<and> (of_char c :: nat) \<le> 122"

definition is_digit :: "char \<Rightarrow> bool" where
  "is_digit c \<longleftrightarrow> 48 \<le> (of_char c :: nat) \<and> (of_char c :: nat) \<le> 57"

definition is_ascii_alphanumeric :: "char \<Rightarrow> bool" where
  "is_ascii_alphanumeric c \<longleftrightarrow> is_upper c \<or> is_lower c \<or> is_digit c"

definition ascii_upper :: "char \<Rightarrow> char" where
  "ascii_upper c = (if is_lower c then char_of ((of_char c :: nat) - 32) else c)"

definition ascii_lower :: "char \<Rightarrow> char" where
  "ascii_lower c = (if is_upper c then char_of ((of_char c :: nat) + 32) else c)"

text \<open>
  \<^verbatim>\<open>str::to_lowercase\<close> on the strings where its result matters: ASCII letters fold, and so does the one
  other code point whose lower case is ASCII (U+212A, the Kelvin sign). Every other byte is kept; the
  callers compare the result with ASCII names only, so no other folding can make a difference.
\<close>

definition kelvin :: string where
  "kelvin = bytes [0xE2, 0x84, 0xAA]"

fun to_lowercase :: "string \<Rightarrow> string" where
  "to_lowercase (a # b # c # s) =
     (if [a, b, c] = kelvin then CHR ''k'' # to_lowercase s else ascii_lower a # to_lowercase (b # c # s))"
| "to_lowercase s = map ascii_lower s"

text \<open>The decimal rendering of an integer, as \<^verbatim>\<open>format!\<close> prints it.\<close>

fun decimal :: "nat \<Rightarrow> string" where
  "decimal n = (if n < 10 then [char_of (48 + n)] else decimal (n div 10) @ [char_of (48 + n mod 10)])"

declare decimal.simps [simp del]

text \<open>The visible ASCII characters, none of which is white space.\<close>

definition graphic :: "char \<Rightarrow> bool" where
  "graphic c \<longleftrightarrow> 33 \<le> (of_char c :: nat) \<and> (of_char c :: nat) \<le> 126"

definition eq_ignore_ascii_case :: "string \<Rightarrow> string \<Rightarrow> bool" where
  "eq_ignore_ascii_case a b \<longleftrightarrow> map ascii_lower a = map ascii_lower b"

text \<open>\<^verbatim>\<open>chars().count()\<close>: the bytes that do not continue a code point.\<close>

definition chars_count :: "string \<Rightarrow> nat" where
  "chars_count s = length (filter (\<lambda>c. \<not> (128 \<le> (of_char c :: nat) \<and> (of_char c :: nat) < 192)) s)"

subsection \<open>Prefixes, suffixes and splitting\<close>

lemma strip_prefix_append [simp]: "strip_prefix p (p @ s) = Some s"
  by (simp add: strip_prefix_def)

lemma strip_prefix_Some: "strip_prefix p s = Some r \<longleftrightarrow> s = p @ r"
  by (auto simp: strip_prefix_def prefix_def)

lemma strip_suffix_append [simp]: "strip_suffix p (s @ p) = Some s"
  by (simp add: strip_suffix_def suffix_def)

lemma strip_suffix_Some: "strip_suffix p s = Some r \<longleftrightarrow> s = r @ p"
  by (auto simp: strip_suffix_def suffix_def)

lemma split_once_None: "split_once c s = None \<longleftrightarrow> c \<notin> set s"
  by (induction s) auto

lemma split_once_Some: "split_once c s = Some (a, b) \<longleftrightarrow> s = a @ c # b \<and> c \<notin> set a"
proof (induction s arbitrary: a b)
  case Nil
  then show ?case by simp
next
  case (Cons x s)
  then show ?case by (cases a) auto
qed

lemma split_once_append [simp]: "c \<notin> set a \<Longrightarrow> split_once c (a @ c # b) = Some (a, b)"
  by (simp add: split_once_Some)

lemma rsplit_once_None: "rsplit_once c s = None \<longleftrightarrow> c \<notin> set s"
  by (simp add: rsplit_once_def split_once_None)

lemma rsplit_once_Some: "rsplit_once c s = Some (a, b) \<longleftrightarrow> s = a @ c # b \<and> c \<notin> set b"
proof -
  have "rsplit_once c s = Some (a, b) \<longleftrightarrow> split_once c (rev s) = Some (rev b, rev a)"
    by (auto simp: rsplit_once_def)
  also have "\<dots> \<longleftrightarrow> rev s = rev (a @ c # b) \<and> c \<notin> set b"
    by (simp add: split_once_Some)
  also have "\<dots> \<longleftrightarrow> s = a @ c # b \<and> c \<notin> set b"
    by (simp only: rev_is_rev_conv)
  finally show ?thesis .
qed

lemma split_on_not_Nil [simp]: "split_on c s \<noteq> []"
  by (induction s) (auto split: list.splits)

lemma split_on_no_sep [simp]: "c \<notin> set s \<Longrightarrow> split_on c s = [s]"
  by (induction s) auto

lemma split_on_append [simp]: "c \<notin> set a \<Longrightarrow> split_on c (a @ c # b) = a # split_on c b"
  by (induction a) (auto split: list.splits)

lemma split_on_pieces: "piece \<in> set (split_on c s) \<Longrightarrow> c \<notin> set piece \<and> set piece \<subseteq> set s"
proof (induction s arbitrary: piece)
  case Nil
  then show ?case by simp
next
  case (Cons x s)
  then show ?case
    by (cases "split_on c s") (fastforce split: if_splits)+
qed

lemma join_split_on [simp]: "join [c] (split_on c s) = s"
proof (induction s)
  case Nil
  then show ?case by simp
next
  case (Cons x s)
  then show ?case
    by (cases "split_on c s"; cases "tl (split_on c s)") (auto simp: neq_Nil_conv)
qed

lemma split_on_join:
  "ps \<noteq> [] \<Longrightarrow> \<forall>p \<in> set ps. c \<notin> set p \<Longrightarrow> split_on c (join [c] ps) = ps"
  by (induction ps rule: induct_list012) auto

subsection \<open>Trimming\<close>

lemma strip_all_suffix: "suffix (strip_all ws s) s"
proof (induction ws s rule: strip_all.induct)
  case (1 ws s)
  show ?case
  proof (cases "find (\<lambda>w. w \<noteq> [] \<and> prefix w s) ws")
    case None
    then show ?thesis by (simp add: strip_all.simps [of ws s])
  next
    case (Some w)
    with "1.IH" have "suffix (strip_all ws (drop (length w) s)) (drop (length w) s)" by simp
    with Some show ?thesis
      by (simp add: strip_all.simps [of ws s] suffix_order.trans [OF _ suffix_drop])
  qed
qed

lemma strip_all_no_prefix: "w \<in> set ws \<Longrightarrow> w \<noteq> [] \<Longrightarrow> \<not> prefix w (strip_all ws s)"
proof (induction ws s rule: strip_all.induct)
  case (1 ws s)
  show ?case
  proof (cases "find (\<lambda>w. w \<noteq> [] \<and> prefix w s) ws")
    case None
    with "1.prems" show ?thesis by (simp add: strip_all.simps [of ws s]) (auto simp: find_None_iff)
  next
    case (Some v)
    with "1.IH" "1.prems" show ?thesis by (simp add: strip_all.simps [of ws s])
  qed
qed

lemma strip_all_id: "\<forall>w \<in> set ws. w \<noteq> [] \<longrightarrow> \<not> prefix w s \<Longrightarrow> strip_all ws s = s"
  by (subst strip_all.simps) (auto simp: find_None_iff split: option.splits dest!: find_Some_iff [THEN iffD1])

lemma strip_all_idem [simp]: "strip_all ws (strip_all ws s) = strip_all ws s"
  by (rule strip_all_id) (simp add: strip_all_no_prefix)

lemma trim_sublist: "set (trim s) \<subseteq> set s"
proof -
  have "set (strip_all ws t) \<subseteq> set t" for ws :: "string list" and t
    using strip_all_suffix by (rule set_mono_suffix)
  from this [of "map rev whitespace" "rev (trim_start s)"] this [of whitespace s] show ?thesis
    by (simp add: trim_def trim_end_def trim_start_def)
qed

lemma whitespace_not_Nil: "w \<in> set whitespace \<Longrightarrow> w \<noteq> []"
  by (auto simp: whitespace_def bytes_def)

lemma whitespace_ends: "w \<in> set whitespace \<Longrightarrow> \<not> graphic (hd w) \<and> \<not> graphic (last w)"
  by (auto simp: whitespace_def bytes_def graphic_def)

lemma trim_graphic [str_simps]:
  assumes "s \<noteq> []" "graphic (hd s)" "graphic (last s)"
  shows "trim s = s"
proof -
  have "\<not> prefix w s" if "w \<in> set whitespace" for w
    using assms(1,2) whitespace_ends [OF that] whitespace_not_Nil [OF that]
    by (cases s; cases w) auto
  then have "strip_all whitespace s = s" by (intro strip_all_id) auto
  moreover have "\<not> prefix (rev w) (rev s)" if "w \<in> set whitespace" for w
    using assms(1,3) whitespace_ends [OF that] whitespace_not_Nil [OF that]
    by (cases s rule: rev_cases; cases w rule: rev_cases) auto
  then have "strip_all (map rev whitespace) (rev s) = rev s" by (intro strip_all_id) auto
  ultimately show ?thesis by (simp add: trim_def trim_start_def trim_end_def)
qed

subsection \<open>Case folding\<close>

lemma ascii_lower_idem [simp]: "ascii_lower (ascii_lower c) = ascii_lower c"
  by (auto simp: ascii_lower_def is_upper_def)

lemma ascii_lower_fixed: "\<not> is_upper c \<Longrightarrow> ascii_lower c = c"
  by (simp add: ascii_lower_def)

lemma ascii_lower_not_upper [simp]: "\<not> is_upper (ascii_lower c)"
  by (auto simp: ascii_lower_def is_upper_def)

lemma ascii_lower_graphic [simp]: "graphic (ascii_lower c) = graphic c"
  by (auto simp: ascii_lower_def is_upper_def graphic_def)

lemma to_lowercase_Cons: "graphic a \<Longrightarrow> to_lowercase (a # s) = ascii_lower a # to_lowercase s"
proof (cases s)
  case (Cons b r)
  assume "graphic a"
  then have "a \<noteq> char_of (0xE2 :: nat)" by (auto simp: graphic_def)
  with Cons show ?thesis by (cases r) (auto simp: kelvin_def bytes_def)
qed simp

lemma to_lowercase_graphic [str_simps]: "list_all graphic s \<Longrightarrow> to_lowercase s = map ascii_lower s"
  by (induction s) (simp_all add: to_lowercase_Cons)

section \<open>Association lists as hash maps\<close>

declare update_conv' [simp] delete_conv' [simp] distinct_update [simp] distinct_delete [simp]
declare map_of_eq_Some_iff [simp del] Some_eq_map_of_iff [simp del]

text \<open>\<^verbatim>\<open>HashMap::retain\<close> is \<^const>\<open>filter\<close>; on a table with distinct keys it filters the map.\<close>

lemma map_of_retain:
  "distinct (map fst m) \<Longrightarrow>
   map_of (filter P m) k = (case map_of m k of Some v \<Rightarrow> if P (k, v) then Some v else None | None \<Rightarrow> None)"
proof (induction m)
  case Nil
  then show ?case by simp
next
  case (Cons x m)
  then have "map_of m (fst x) = None" by (auto simp: map_of_eq_None_iff)
  with Cons show ?case by (cases x) (auto split: option.splits)
qed

lemma distinct_retain [simp]: "distinct (map fst m) \<Longrightarrow> distinct (map fst (filter P m))"
  by (simp add: distinct_map_filter)

lemma map_of_iff_set: "distinct (map fst m) \<Longrightarrow> map_of m k = Some v \<longleftrightarrow> (k, v) \<in> set m"
  by (metis map_of_SomeD map_of_is_SomeI)

section \<open>Counters\<close>

text \<open>\<^verbatim>\<open>AtomicU64::fetch_add\<close> wraps around; before the last value it counts up.\<close>

lemma word_less_add_one: "(x :: 'a::len word) \<noteq> - 1 \<Longrightarrow> x < x + 1"
  using inc_less_eq_triv_imp [of x] by (auto simp: not_le [symmetric])

section \<open>Options as lists\<close>

text \<open>\<^verbatim>\<open>Option::into_iter().collect()\<close>.\<close>

definition option_list :: "'a option \<Rightarrow> 'a list" where
  "option_list x = (case x of None \<Rightarrow> [] | Some y \<Rightarrow> [y])"

lemma option_list_simps [simp]: "option_list None = []" "option_list (Some x) = [x]"
  by (simp_all add: option_list_def)

lemma set_option_list [simp]: "set (option_list x) = set_option x"
  by (cases x) simp_all

end
