(* ===== verification/Relay_Frames.thy ===== *)
theory Relay_Frames
  imports Relay_Prelude
begin

text \<open>
  The data the relay exchanges over a tunnel. The types live in the crate
  \<^verbatim>\<open>termexo-relay-protocol\<close>; here they have exactly the constructors and fields that the relay's
  own code builds and matches on. Encoding and decoding belong to that crate: a frame of a kind
  the relay never names is \<open>OtherFrame\<close>.
\<close>

datatype device_kind = Desktop | Relay

record announced_device =
  ad_id :: string
  ad_name :: string
  ad_online :: bool
  ad_via :: "string list"

record relay_address =
  ra_relay_id :: string
  ra_relay_name :: string
  ra_url :: string
  ra_hops :: u32

text \<open>The version field of a preface is copied and never read, so its type is a parameter.\<close>

record 'v stream_preface =
  sp_v :: 'v
  sp_target :: string
  sp_hops :: "string list"

datatype control_frame =
    Hello u32 device_kind string string "string option"
      \<comment> \<open>protocol, kind, version, name, relay id\<close>
  | Welcome string string "relay_address list" "string list"
      \<comment> \<open>device id, relay id, addresses, chain\<close>
  | AuthFailed string
  | Revoked string
  | Ping
  | Pong
  | Announce "announced_device list"
  | DeviceOnline string string "string list"
  | DeviceOffline string
  | Addresses "relay_address list"
  | OtherFrame

text \<open>
  \<^verbatim>\<open>tunnel::TunnelHandle\<close>: the device id and the two channel ends. Cloning a handle shares the
  channels, so \<open>th_channel\<close> is the identity of the connection behind it.
\<close>

record tunnel_handle =
  th_device_id :: string
  th_channel :: nat

datatype outgoing = Control control_frame | Close nat string

end
