(* ===== verification/Registry.thy ===== *)
theory Registry
  imports Relay_Frames
begin

text \<open>
  The in-memory routing table (\<^verbatim>\<open>src/registry.rs\<close>): which devices are reachable and over which
  tunnel. One record per struct, one definition per method. Every method of the program takes the
  table's lock once, changes the table, releases the lock and then publishes what changed, so
  each method is a locked section followed by \<open>publish\<close>; sequence numbers come from an atomic
  64-bit counter outside the lock. \<^verbatim>\<open>MAX_HOPS\<close> is a constant of the protocol crate and hence a
  parameter (\<open>max_hops\<close>); the clock reading of a method is its argument \<open>now\<close>.
\<close>

section \<open>Data\<close>

datatype route_kind = Direct tunnel_handle | Via tunnel_handle "string list"

fun route_link :: "route_kind \<Rightarrow> tunnel_handle" where
  "route_link (Direct handle) = handle"
| "route_link (Via link hops) = link"

fun route_hops :: "route_kind \<Rightarrow> string list" where
  "route_hops (Direct handle) = []"
| "route_hops (Via link hops) = hops"

definition hop_count :: "route_kind \<Rightarrow> nat" where
  "hop_count r = length (route_hops r)"

fun is_direct :: "route_kind \<Rightarrow> bool" where
  "is_direct (Direct handle) = True"
| "is_direct (Via link hops) = False"

record direct_presence =
  dp_device_id :: string
  dp_name :: string
  dp_kind :: device_kind
  dp_relay_id :: "string option"
  dp_ip :: "string option"
  dp_version :: "string option"
  dp_handle :: tunnel_handle

record registration =
  reg_serial :: u64
  reg_displaced :: "tunnel_handle option"

record online_device =
  od_device_id :: string
  od_name :: string
  od_kind :: device_kind
  od_connected_since :: int
  od_ip :: "string option"
  od_version :: "string option"
  od_route :: route_kind

datatype origin = FromTunnel u64 | FromLink string

record entry =
  e_device :: online_device
  e_origin :: origin
  e_sequence :: u64

datatype registry_change = Online announced_device | Offline string

record known_device =
  kd_name :: string
  kd_last_seen_at :: int

record withdrawn_device =
  wd_link_device_id :: string
  wd_device :: known_device

record registry =
  r_relay_id :: string
  r_entries :: "(string \<times> entry) list"
  r_relay_links :: "(string \<times> string) list"
  r_withdrawn :: "(string \<times> withdrawn_device) list"
  r_sequence :: u64
  r_published :: "registry_change list"

record downstream_link =
  dl_device_id :: string
  dl_name :: string
  dl_device_count :: nat

section \<open>Operations\<close>

definition new_registry :: "string \<Rightarrow> registry" where
  "new_registry relay_id = \<lparr>r_relay_id = relay_id, r_entries = [], r_relay_links = [],
     r_withdrawn = [], r_sequence = 0, r_published = []\<rparr>"

definition announcement_of :: "string \<Rightarrow> entry \<Rightarrow> announced_device option" where
  "announcement_of relay_id e =
     (if od_kind (e_device e) = Relay \<and> is_direct (od_route (e_device e)) then None
      else Some \<lparr>ad_id = od_device_id (e_device e), ad_name = od_name (e_device e),
                 ad_online = True, ad_via = relay_id # route_hops (od_route (e_device e))\<rparr>)"

definition announcements :: "registry \<Rightarrow> announced_device list" where
  "announcements r =
     List.map_filter (\<lambda>(_, e). announcement_of (r_relay_id r) e) (r_entries r)"

definition transition ::
  "string \<Rightarrow> string \<Rightarrow> entry option \<Rightarrow> entry option \<Rightarrow> registry_change option" where
  "transition relay_id device_id previous current =
     (case Option.bind current (announcement_of relay_id) of
        Some a \<Rightarrow> Some (Online a)
      | None \<Rightarrow>
          (if Option.bind previous (announcement_of relay_id) \<noteq> None
           then Some (Offline device_id) else None))"

definition publish :: "registry_change list \<Rightarrow> registry \<Rightarrow> registry" where
  "publish changes r = r\<lparr>r_published := r_published r @ changes\<rparr>"

definition next_sequence :: "registry \<Rightarrow> u64 \<times> registry" where
  "next_sequence r = (r_sequence r, r\<lparr>r_sequence := r_sequence r + 1\<rparr>)"

text \<open>The locked section of \<^verbatim>\<open>Registry::connect\<close>, and the whole method.\<close>

definition connect_locked ::
  "u64 \<Rightarrow> direct_presence \<Rightarrow> int \<Rightarrow> registry \<Rightarrow> registration \<times> registry_change list \<times> registry" where
  "connect_locked serial p now r =
     (let device_id = dp_device_id p;
          links = (case (dp_relay_id p, dp_kind p) of
                     (Some relay_id, Relay) \<Rightarrow> AList.update relay_id device_id (r_relay_links r)
                   | _ \<Rightarrow> r_relay_links r);
          e = \<lparr>e_device = \<lparr>od_device_id = device_id, od_name = dp_name p, od_kind = dp_kind p,
                 od_connected_since = now, od_ip = dp_ip p, od_version = dp_version p,
                 od_route = Direct (dp_handle p)\<rparr>,
               e_origin = FromTunnel serial, e_sequence = serial\<rparr>;
          previous = map_of (r_entries r) device_id;
          entries = AList.update device_id e (r_entries r);
          change = transition (r_relay_id r) device_id previous (map_of entries device_id);
          displaced = (case previous of
                         Some old \<Rightarrow> (case e_origin old of
                             FromTunnel _ \<Rightarrow> Some (route_link (od_route (e_device old)))
                           | FromLink _ \<Rightarrow> None)
                       | None \<Rightarrow> None)
      in (\<lparr>reg_serial = serial, reg_displaced = displaced\<rparr>, option_list change,
          r\<lparr>r_relay_links := links, r_withdrawn := AList.delete device_id (r_withdrawn r),
            r_entries := entries\<rparr>))"

definition connect :: "direct_presence \<Rightarrow> int \<Rightarrow> registry \<Rightarrow> registration \<times> registry" where
  "connect p now r =
     (let (serial, r1) = next_sequence r;
          (registration, changes, r2) = connect_locked serial p now r1
      in (registration, publish changes r2))"

fun announced_by :: "string \<Rightarrow> entry \<Rightarrow> bool" where
  "announced_by link e = (e_origin e = FromLink link)"

definition announced_ids_of :: "(string \<times> entry) list \<Rightarrow> string \<Rightarrow> string list" where
  "announced_ids_of entries link = map fst (filter (\<lambda>(_, e). announced_by link e) entries)"

text \<open>The loop over \<open>gone\<close> in \<^verbatim>\<open>Registry::disconnect\<close>: remove, and note the change.\<close>

fun remove_entries ::
  "string \<Rightarrow> string list \<Rightarrow> (string \<times> entry) list \<Rightarrow> registry_change list \<times> (string \<times> entry) list" where
  "remove_entries relay_id [] entries = ([], entries)"
| "remove_entries relay_id (d # ds) entries =
     (case map_of entries d of
        None \<Rightarrow> remove_entries relay_id ds entries
      | Some e \<Rightarrow>
          (let (changes, rest) = remove_entries relay_id ds (AList.delete d entries)
           in (option_list (transition relay_id d (Some e) None) @ changes, rest)))"

definition disconnect_locked ::
  "string \<Rightarrow> u64 \<Rightarrow> registry \<Rightarrow> bool \<times> registry_change list \<times> registry" where
  "disconnect_locked device_id serial r =
     (if \<not> (case map_of (r_entries r) device_id of
              Some e \<Rightarrow> e_origin e = FromTunnel serial | None \<Rightarrow> False)
      then (False, [], r)
      else
        (let gone = device_id # announced_ids_of (r_entries r) device_id;
             (changes, entries) = remove_entries (r_relay_id r) gone (r_entries r)
         in (True, changes,
             r\<lparr>r_relay_links := filter (\<lambda>(_, link). link \<noteq> device_id) (r_relay_links r),
               r_withdrawn := filter (\<lambda>(_, w). wd_link_device_id w \<noteq> device_id) (r_withdrawn r),
               r_entries := entries\<rparr>)))"

definition disconnect :: "string \<Rightarrow> u64 \<Rightarrow> registry \<Rightarrow> bool \<times> registry" where
  "disconnect device_id serial r =
     (let (removed, changes, r1) = disconnect_locked device_id serial r
      in (removed, publish changes r1))"

definition route :: "registry \<Rightarrow> string \<Rightarrow> route_kind option" where
  "route r device_id = map_option (\<lambda>e. od_route (e_device e)) (map_of (r_entries r) device_id)"

definition is_online :: "registry \<Rightarrow> string \<Rightarrow> bool" where
  "is_online r device_id \<longleftrightarrow> map_of (r_entries r) device_id \<noteq> None"

definition last_known :: "registry \<Rightarrow> string \<Rightarrow> known_device option" where
  "last_known r device_id = map_option wd_device (map_of (r_withdrawn r) device_id)"

definition is_announcement_routable :: "nat \<Rightarrow> string \<Rightarrow> string list \<Rightarrow> bool" where
  "is_announcement_routable max_hops relay_id via \<longleftrightarrow> length via < max_hops \<and> relay_id \<notin> set via"

fun replaces :: "route_kind \<Rightarrow> u64 \<Rightarrow> route_kind \<Rightarrow> u64 \<Rightarrow> bool" where
  "replaces (Direct handle) existing_sequence candidate sequence = False"
| "replaces (Via link hops) existing_sequence candidate sequence =
     (hop_count candidate < hop_count (Via link hops)
      \<or> hop_count candidate = hop_count (Via link hops) \<and> existing_sequence < sequence)"

text \<open>The locked section of \<^verbatim>\<open>Registry::announce_device\<close>, and the whole method.\<close>

definition announce_locked ::
  "u64 \<Rightarrow> string \<Rightarrow> tunnel_handle \<Rightarrow> int \<Rightarrow> announced_device \<Rightarrow> registry
     \<Rightarrow> bool \<times> registry_change list \<times> registry" where
  "announce_locked sequence link_device_id link now d r =
     (let device_id = ad_id d;
          rt = Via link (ad_via d);
          previous = map_of (r_entries r) device_id
      in if (case previous of
               Some old \<Rightarrow> \<not> replaces (od_route (e_device old)) (e_sequence old) rt sequence
             | None \<Rightarrow> False)
         then (False, [], r)
         else
           (let e = \<lparr>e_device = \<lparr>od_device_id = device_id, od_name = ad_name d, od_kind = Desktop,
                      od_connected_since = now, od_ip = None, od_version = None, od_route = rt\<rparr>,
                     e_origin = FromLink link_device_id, e_sequence = sequence\<rparr>;
                entries = AList.update device_id e (r_entries r)
            in (True,
                option_list (transition (r_relay_id r) device_id previous (map_of entries device_id)),
                r\<lparr>r_withdrawn := AList.delete device_id (r_withdrawn r), r_entries := entries\<rparr>)))"

definition announce_device ::
  "nat \<Rightarrow> string \<Rightarrow> tunnel_handle \<Rightarrow> int \<Rightarrow> announced_device \<Rightarrow> registry \<Rightarrow> bool \<times> registry" where
  "announce_device max_hops link_device_id link now d r =
     (if \<not> is_announcement_routable max_hops (r_relay_id r) (ad_via d) then (False, r)
      else
        (let (sequence, r1) = next_sequence r;
             (accepted, changes, r2) = announce_locked sequence link_device_id link now d r1
         in (accepted, publish changes r2)))"

definition withdraw_locked ::
  "string \<Rightarrow> string \<Rightarrow> int \<Rightarrow> registry \<Rightarrow> registry_change list \<times> registry" where
  "withdraw_locked link_device_id device_id now r =
     (case map_of (r_entries r) device_id of
        None \<Rightarrow> ([], r)
      | Some e \<Rightarrow>
          if \<not> announced_by link_device_id e then ([], r)
          else
            (option_list (transition (r_relay_id r) device_id (Some e) None),
             r\<lparr>r_entries := AList.delete device_id (r_entries r),
               r_withdrawn := AList.update device_id
                 \<lparr>wd_link_device_id = link_device_id,
                  wd_device = \<lparr>kd_name = od_name (e_device e), kd_last_seen_at = now\<rparr>\<rparr>
                 (r_withdrawn r)\<rparr>))"

definition withdraw_device :: "string \<Rightarrow> string \<Rightarrow> int \<Rightarrow> registry \<Rightarrow> registry" where
  "withdraw_device link_device_id device_id now r =
     (let (changes, r1) = withdraw_locked link_device_id device_id now r in publish changes r1)"

text \<open>\<^verbatim>\<open>Registry::apply_announcement\<close>: install what the snapshot lists, then withdraw the rest.\<close>

fun install_devices ::
  "nat \<Rightarrow> string \<Rightarrow> tunnel_handle \<Rightarrow> int \<Rightarrow> announced_device list \<Rightarrow> string list \<Rightarrow> registry
     \<Rightarrow> string list \<times> registry" where
  "install_devices max_hops link_device_id link now [] installed r = (installed, r)"
| "install_devices max_hops link_device_id link now (d # ds) installed r =
     (if \<not> ad_online d then install_devices max_hops link_device_id link now ds installed r
      else
        (let (accepted, r1) = announce_device max_hops link_device_id link now d r
         in install_devices max_hops link_device_id link now ds
              (if accepted then ad_id d # installed else installed) r1))"

definition withdraw_all :: "string \<Rightarrow> int \<Rightarrow> string list \<Rightarrow> registry \<Rightarrow> registry" where
  "withdraw_all link_device_id now stale r = fold (\<lambda>d. withdraw_device link_device_id d now) stale r"

definition apply_announcement ::
  "nat \<Rightarrow> string \<Rightarrow> tunnel_handle \<Rightarrow> int \<Rightarrow> announced_device list \<Rightarrow> registry \<Rightarrow> registry" where
  "apply_announcement max_hops link_device_id link now devices r =
     (let previous = announced_ids_of (r_entries r) link_device_id;
          (installed, r1) = install_devices max_hops link_device_id link now devices [] r
      in withdraw_all link_device_id now (filter (\<lambda>d. d \<notin> set installed) previous) r1)"

definition snapshot :: "registry \<Rightarrow> online_device list" where
  "snapshot r = map (\<lambda>(_, e). e_device e) (r_entries r)"

definition hop_names :: "registry \<Rightarrow> string list \<Rightarrow> string list" where
  "hop_names r hops =
     map (\<lambda>relay_id.
        case Option.bind (map_of (r_relay_links r) relay_id) (map_of (r_entries r)) of
          Some e \<Rightarrow> od_name (e_device e)
        | None \<Rightarrow> relay_id) hops"

definition downstream_links :: "registry \<Rightarrow> downstream_link list" where
  "downstream_links r =
     map (\<lambda>(_, e).
        \<lparr>dl_device_id = od_device_id (e_device e), dl_name = od_name (e_device e),
         dl_device_count =
           length (filter (\<lambda>(_, a). announced_by (od_device_id (e_device e)) a) (r_entries r))\<rparr>)
       (filter (\<lambda>(_, e). od_kind (e_device e) = Relay) (r_entries r))"

section \<open>What an upstream is told\<close>

text \<open>
  The set of destinations a table offers, as a map from device id to announcement, and the effect
  of one published change on a copy of it.
\<close>

definition view_of :: "string \<Rightarrow> (string \<times> entry) list \<Rightarrow> string \<rightharpoonup> announced_device" where
  "view_of relay_id entries d = Option.bind (map_of entries d) (announcement_of relay_id)"

definition view :: "registry \<Rightarrow> string \<rightharpoonup> announced_device" where
  "view r = view_of (r_relay_id r) (r_entries r)"

fun apply_change :: "(string \<rightharpoonup> announced_device) \<Rightarrow> registry_change \<Rightarrow> (string \<rightharpoonup> announced_device)" where
  "apply_change v (Online a) = v(ad_id a \<mapsto> a)"
| "apply_change v (Offline d) = v(d := None)"

lemma announcement_of_id: "announcement_of relay_id e = Some a \<Longrightarrow> ad_id a = od_device_id (e_device e)"
  by (auto simp: announcement_of_def split: if_splits)

text \<open>A single table update is described exactly by its transition.\<close>

lemma transition_update:
  assumes "od_device_id (e_device e) = d"
  shows "foldl apply_change (view_of relay_id es)
           (option_list (transition relay_id d (map_of es d) (Some e)))
         = view_of relay_id (AList.update d e es)"
proof (cases "announcement_of relay_id e")
  case (Some a)
  with assms have "ad_id a = d" by (simp add: announcement_of_id)
  with Some show ?thesis by (auto simp: transition_def view_of_def fun_eq_iff)
next
  case None
  then show ?thesis by (auto simp: transition_def view_of_def fun_eq_iff)
qed

lemma transition_delete:
  "foldl apply_change (view_of relay_id es)
     (option_list (transition relay_id d (map_of es d) None))
   = view_of relay_id (AList.delete d es)"
  by (auto simp: transition_def view_of_def fun_eq_iff)

lemma remove_entries_feed:
  "remove_entries relay_id ds es = (cs, es') \<Longrightarrow>
   foldl apply_change (view_of relay_id es) cs = view_of relay_id es'"
proof (induction relay_id ds es arbitrary: cs es' rule: remove_entries.induct)
  case (1 relay_id es)
  then show ?case by simp
next
  case (2 relay_id d ds es)
  show ?case
  proof (cases "map_of es d")
    case None
    with 2 show ?thesis by simp
  next
    case (Some e)
    obtain cs1 es1 where rest: "remove_entries relay_id ds (AList.delete d es) = (cs1, es1)"
      by fastforce
    from Some "2.IH"(2) [OF Some rest] have
      "foldl apply_change (view_of relay_id (AList.delete d es)) cs1 = view_of relay_id es1" by simp
    with Some rest "2.prems" transition_delete [of relay_id es d] show ?thesis by auto
  qed
qed

lemma remove_entries_map:
  "map_of (snd (remove_entries relay_id ds es)) = (map_of es) |` (- set ds)"
proof (induction relay_id ds es rule: remove_entries.induct)
  case (2 relay_id d ds es)
  then show ?case
    by (cases "map_of es d") (auto simp: restrict_map_def fun_eq_iff split: prod.splits)
qed simp

lemma remove_entries_distinct:
  "distinct (map fst es) \<Longrightarrow> distinct (map fst (snd (remove_entries relay_id ds es)))"
  by (induction relay_id ds es rule: remove_entries.induct)
     (auto split: option.splits prod.splits)

declare remove_entries.simps [simp del]

lemma connect_locked_feed:
  "connect_locked serial p now r = (reg, cs, r') \<Longrightarrow> view r' = foldl apply_change (view r) cs"
  by (auto simp: connect_locked_def Let_def view_def transition_update)

lemma disconnect_locked_feed:
  assumes "disconnect_locked d serial r = (b, cs, r')"
  shows "view r' = foldl apply_change (view r) cs"
  using assms
  by (auto simp: disconnect_locked_def Let_def view_def remove_entries_feed
      split: if_splits prod.splits)

lemma announce_locked_feed:
  "announce_locked sequence l h now d r = (b, cs, r') \<Longrightarrow> view r' = foldl apply_change (view r) cs"
  by (auto simp: announce_locked_def Let_def view_def transition_update split: if_splits)

lemma withdraw_locked_feed:
  "withdraw_locked l d now r = (cs, r') \<Longrightarrow> view r' = foldl apply_change (view r) cs"
  using transition_delete [of "r_relay_id r" "r_entries r" d]
  by (auto simp: withdraw_locked_def view_def split: option.splits if_splits)

lemmas locked_feeds =
  connect_locked_feed disconnect_locked_feed announce_locked_feed withdraw_locked_feed

section \<open>The invariant of the table\<close>

text \<open>
  Every entry is filed under its own id and carries a sequence number that was drawn before; a
  direct origin goes with a direct route and its serial, an announced origin with a route that
  avoids this relay and leaves room in the hop budget. Only directly attached links are named in
  \<open>relay_links\<close>, and a device is never both reachable and remembered as withdrawn.
\<close>

fun origin_matches :: "nat \<Rightarrow> string \<Rightarrow> entry \<Rightarrow> bool" where
  "origin_matches max_hops relay_id e =
     (case (e_origin e, od_route (e_device e)) of
        (FromTunnel serial, Direct h) \<Rightarrow> serial = e_sequence e
      | (FromLink l, Via h hops) \<Rightarrow>
          is_announcement_routable max_hops relay_id hops \<and> od_kind (e_device e) = Desktop
      | _ \<Rightarrow> False)"

definition entries_ok :: "nat \<Rightarrow> string \<Rightarrow> u64 \<Rightarrow> (string \<times> entry) list \<Rightarrow> bool" where
  "entries_ok max_hops relay_id bound es \<longleftrightarrow>
     distinct (map fst es) \<and>
     (\<forall>d e. map_of es d = Some e \<longrightarrow>
        od_device_id (e_device e) = d \<and> e_sequence e < bound \<and> origin_matches max_hops relay_id e)"

definition attached :: "(string \<times> entry) list \<Rightarrow> string \<Rightarrow> bool" where
  "attached es d \<longleftrightarrow> (\<exists>e. map_of es d = Some e \<and> is_direct (od_route (e_device e)))"

definition links_ok :: "(string \<times> entry) list \<Rightarrow> (string \<times> string) list \<Rightarrow> bool" where
  "links_ok es ls \<longleftrightarrow> distinct (map fst ls) \<and> (\<forall>k d. map_of ls k = Some d \<longrightarrow> attached es d)"

definition withdrawn_ok ::
  "(string \<times> entry) list \<Rightarrow> (string \<times> withdrawn_device) list \<Rightarrow> bool" where
  "withdrawn_ok es ws \<longleftrightarrow> distinct (map fst ws) \<and> dom (map_of ws) \<inter> dom (map_of es) = {}"

definition registry_inv :: "nat \<Rightarrow> registry \<Rightarrow> bool" where
  "registry_inv max_hops r \<longleftrightarrow>
     entries_ok max_hops (r_relay_id r) (r_sequence r) (r_entries r) \<and>
     links_ok (r_entries r) (r_relay_links r) \<and>
     withdrawn_ok (r_entries r) (r_withdrawn r)"

lemma registry_inv_new: "registry_inv max_hops (new_registry relay_id)"
  by (simp add: registry_inv_def new_registry_def entries_ok_def links_ok_def withdrawn_ok_def)

lemma registry_inv_publish [simp]: "registry_inv max_hops (publish cs r) = registry_inv max_hops r"
  by (simp add: registry_inv_def publish_def)

lemma registry_inv_draw:
  assumes "registry_inv max_hops r" "r_sequence r \<noteq> - 1"
  shows "registry_inv max_hops (snd (next_sequence r))"
  using assms(1) word_less_add_one [OF assms(2)]
  by (auto simp: registry_inv_def next_sequence_def entries_ok_def
      simp del: origin_matches.simps intro: order.strict_trans)

lemma entries_ok_update:
  assumes "entries_ok max_hops relay_id bound es"
    and "od_device_id (e_device e) = d" "e_sequence e < bound" "origin_matches max_hops relay_id e"
  shows "entries_ok max_hops relay_id bound (AList.update d e es)"
  using assms by (auto simp: entries_ok_def simp del: origin_matches.simps)

lemma entries_ok_delete:
  "entries_ok max_hops relay_id bound es \<Longrightarrow> entries_ok max_hops relay_id bound (AList.delete d es)"
  by (auto simp: entries_ok_def simp del: origin_matches.simps split: if_splits)

lemma entries_ok_remove:
  "entries_ok max_hops relay_id bound es \<Longrightarrow>
   entries_ok max_hops relay_id bound (snd (remove_entries relay_id' ds es))"
  by (auto simp: entries_ok_def remove_entries_map remove_entries_distinct restrict_map_def
      simp del: origin_matches.simps split: if_splits)

lemma links_ok_update_direct:
  "links_ok es ls \<Longrightarrow> is_direct (od_route (e_device e)) \<Longrightarrow> links_ok (AList.update d e es) ls"
  by (auto simp: links_ok_def attached_def)

lemma links_ok_update_detached: "links_ok es ls \<Longrightarrow> \<not> attached es d \<Longrightarrow> links_ok (AList.update d e es) ls"
  by (fastforce simp: links_ok_def attached_def)

lemma links_ok_insert: "links_ok es ls \<Longrightarrow> attached es d \<Longrightarrow> links_ok es (AList.update k d ls)"
  by (simp add: links_ok_def)

lemma links_ok_delete: "links_ok es ls \<Longrightarrow> \<not> attached es d \<Longrightarrow> links_ok (AList.delete d es) ls"
  by (fastforce simp: links_ok_def attached_def)

lemma withdrawn_ok_update: "withdrawn_ok es ws \<Longrightarrow> withdrawn_ok (AList.update d e es) (AList.delete d ws)"
  by (auto simp: withdrawn_ok_def)

lemma withdrawn_ok_move: "withdrawn_ok es ws \<Longrightarrow> withdrawn_ok (AList.delete d es) (AList.update d w ws)"
  by (auto simp: withdrawn_ok_def)

lemmas inv_updates =
  entries_ok_update entries_ok_delete links_ok_update_direct links_ok_update_detached
  links_ok_insert links_ok_delete withdrawn_ok_update withdrawn_ok_move

lemma announced_not_attached:
  assumes "entries_ok max_hops relay_id bound es" "map_of es d = Some e" "e_origin e = FromLink l"
  shows "\<not> attached es d"
proof -
  from assms have "origin_matches max_hops relay_id e" by (simp add: entries_ok_def del: origin_matches.simps)
  with assms(2,3) show ?thesis by (cases "od_route (e_device e)") (auto simp: attached_def)
qed

lemma registry_inv_connect_locked:
  assumes inv: "registry_inv max_hops r" and "serial < r_sequence r"
    and "connect_locked serial p now r = (reg, cs, r')"
  shows "registry_inv max_hops r'"
proof -
  let ?e = "\<lparr>e_device = \<lparr>od_device_id = dp_device_id p, od_name = dp_name p, od_kind = dp_kind p,
                 od_connected_since = now, od_ip = dp_ip p, od_version = dp_version p,
                 od_route = Direct (dp_handle p)\<rparr>,
               e_origin = FromTunnel serial, e_sequence = serial\<rparr>"
  let ?es = "AList.update (dp_device_id p) ?e (r_entries r)"
  have "links_ok ?es (r_relay_links r)" and "attached ?es (dp_device_id p)"
    using inv by (simp_all add: registry_inv_def links_ok_update_direct attached_def)
  with assms show ?thesis
    by (auto simp: registry_inv_def connect_locked_def Let_def inv_updates
        split: option.splits device_kind.splits)
qed

lemma replaces_not_direct: "replaces rt s rt' s' \<Longrightarrow> \<not> is_direct rt"
  by (cases rt) simp_all

lemma registry_inv_announce_locked:
  assumes inv: "registry_inv max_hops r" and "sequence < r_sequence r"
    and "is_announcement_routable max_hops (r_relay_id r) (ad_via d)"
    and "announce_locked sequence l h now d r = (b, cs, r')"
  shows "registry_inv max_hops r'"
proof (cases b)
  case False
  with assms show ?thesis by (auto simp: announce_locked_def Let_def split: if_splits)
next
  case True
  with assms(4) have "\<not> attached (r_entries r) (ad_id d)"
    by (auto simp: announce_locked_def Let_def attached_def dest: replaces_not_direct split: if_splits)
  with assms True show ?thesis
    by (auto simp: registry_inv_def announce_locked_def Let_def inv_updates split: if_splits)
qed

lemma registry_inv_withdraw_locked:
  assumes "registry_inv max_hops r" "withdraw_locked l d now r = (cs, r')"
  shows "registry_inv max_hops r'"
  using assms
  by (auto simp: registry_inv_def withdraw_locked_def inv_updates announced_not_attached
      split: option.splits if_splits)

lemma set_announced_ids:
  "distinct (map fst es) \<Longrightarrow>
   d \<in> set (announced_ids_of es l) \<longleftrightarrow> (\<exists>e. map_of es d = Some e \<and> announced_by l e)"
  by (force simp: announced_ids_of_def map_of_iff_set image_iff)

lemma registry_inv_disconnect_locked:
  assumes inv: "registry_inv max_hops r" and "disconnect_locked d serial r = (b, cs, r')"
  shows "registry_inv max_hops r'"
proof (cases b)
  case False
  with assms show ?thesis
    by (auto simp: disconnect_locked_def Let_def split: if_splits prod.splits)
next
  case True
  let ?es = "r_entries r"
  let ?gone = "d # announced_ids_of ?es d"
  let ?es' = "snd (remove_entries (r_relay_id r) ?gone ?es)"
  have ok: "entries_ok max_hops (r_relay_id r) (r_sequence r) ?es"
    and l: "links_ok ?es (r_relay_links r)" and w: "withdrawn_ok ?es (r_withdrawn r)"
    using inv by (simp_all add: registry_inv_def)
  have r': "r' = r\<lparr>r_relay_links := filter (\<lambda>(_, link). link \<noteq> d) (r_relay_links r),
       r_withdrawn := filter (\<lambda>(_, w). wd_link_device_id w \<noteq> d) (r_withdrawn r),
       r_entries := ?es'\<rparr>"
    using True assms(2) by (auto simp: disconnect_locked_def Let_def split: if_splits prod.splits)
  have "attached ?es' d'" if "attached ?es d'" "d' \<noteq> d" for d'
    using that ok announced_not_attached [OF ok]
    by (auto simp: attached_def remove_entries_map restrict_map_def set_announced_ids entries_ok_def)
  then have "links_ok ?es' (filter (\<lambda>(_, link). link \<noteq> d) (r_relay_links r))"
    using l by (auto simp: links_ok_def map_of_retain split: option.splits if_splits)
  moreover have "withdrawn_ok ?es' (filter (\<lambda>(_, w). wd_link_device_id w \<noteq> d) (r_withdrawn r))"
    using w by (auto simp: withdrawn_ok_def remove_entries_map map_of_retain restrict_map_def dom_def
        disjoint_iff split: option.splits if_splits)
  ultimately show ?thesis
    using ok by (simp add: registry_inv_def r' entries_ok_remove)
qed

end
