(* ===== verification/Registry_Laws.thy ===== *)
theory Registry_Laws
  imports Registry
begin

text \<open>
  What the routing table promises: the invariant under every interleaving of the tunnels' tasks, the
  change feed an upstream link follows (an interface, \<open>change_feed\<close>, interpreted on the table's own
  methods), the exact effect of each method, and the properties of the component.
\<close>

section \<open>Interleaved runs\<close>

text \<open>
  The table is shared by every tunnel's task. A state of the whole is the table together with the
  batches of changes whose locked section is over and which are not published yet. A step is one
  atomic action of one task: drawing a sequence number, a locked section with a number drawn
  earlier, or publishing one finished batch; any task may go next. The counter is assumed not to
  be at its last 64-bit value when a number is drawn.
\<close>

type_synonym table_state = "registry \<times> registry_change list list"

inductive table_step :: "nat \<Rightarrow> table_state \<Rightarrow> table_state \<Rightarrow> bool" for max_hops :: nat where
  draw: "r_sequence r \<noteq> - 1 \<Longrightarrow> table_step max_hops (r, todo) (snd (next_sequence r), todo)"
| connect: "serial < r_sequence r \<Longrightarrow> connect_locked serial p now r = (reg, cs, r') \<Longrightarrow>
    table_step max_hops (r, todo) (r', todo @ [cs])"
| disconnect: "disconnect_locked d serial r = (b, cs, r') \<Longrightarrow>
    table_step max_hops (r, todo) (r', todo @ [cs])"
| announce: "is_announcement_routable max_hops (r_relay_id r) (ad_via d) \<Longrightarrow> sequence < r_sequence r \<Longrightarrow>
    announce_locked sequence l h now d r = (b, cs, r') \<Longrightarrow>
    table_step max_hops (r, todo) (r', todo @ [cs])"
| withdraw: "withdraw_locked l d now r = (cs, r') \<Longrightarrow>
    table_step max_hops (r, todo) (r', todo @ [cs])"
| publish: "table_step max_hops (r, before @ cs # after) (publish cs r, before @ after)"

inductive table_reachable :: "nat \<Rightarrow> string \<Rightarrow> table_state \<Rightarrow> bool"
  for max_hops :: nat and relay_id :: string where
  start: "table_reachable max_hops relay_id (new_registry relay_id, [])"
| step: "table_reachable max_hops relay_id s \<Longrightarrow> table_step max_hops s t \<Longrightarrow>
    table_reachable max_hops relay_id t"

inductive_cases table_step_elim: "table_step max_hops (r, todo) (r', todo')"

lemma table_step_inv:
  "table_step max_hops s t \<Longrightarrow> registry_inv max_hops (fst s) \<Longrightarrow> registry_inv max_hops (fst t)"
proof (induction rule: table_step.induct)
  case (connect serial r p now reg cs r' todo)
  then show ?case by (auto intro: registry_inv_connect_locked)
next
  case (disconnect d serial r b cs r' todo)
  then show ?case by (auto intro: registry_inv_disconnect_locked)
next
  case (announce r d sequence l h now b cs r' todo)
  then show ?case by (auto intro: registry_inv_announce_locked)
next
  case (withdraw l d now r cs r' todo)
  then show ?case by (auto intro: registry_inv_withdraw_locked)
qed (simp_all add: registry_inv_draw)

lemma table_reachable_inv: "table_reachable max_hops relay_id s \<Longrightarrow> registry_inv max_hops (fst s)"
  by (induction rule: table_reachable.induct) (simp_all add: registry_inv_new table_step_inv)

section \<open>The change feed as an interface\<close>

text \<open>
  A component that publishes its changes: running an operation appends some changes to its log, and
  replaying exactly those changes on the old view gives the new view. A client that keeps a copy of
  the view needs nothing else.
\<close>

locale change_feed =
  fixes exec :: "'op \<Rightarrow> 's \<Rightarrow> 's"
    and view :: "'s \<Rightarrow> 'v"
    and log :: "'s \<Rightarrow> 'c list"
    and replay :: "'v \<Rightarrow> 'c \<Rightarrow> 'v"
  assumes feed: "\<exists>cs. log (exec op s) = log s @ cs \<and> view (exec op s) = foldl replay (view s) cs"
begin

lemma run_feed:
  "\<exists>cs. log (fold exec ops s) = log s @ cs \<and> view (fold exec ops s) = foldl replay (view s) cs"
proof (induction ops arbitrary: s)
  case Nil
  then show ?case by simp
next
  case (Cons op ops)
  from feed obtain cs where
    cs: "log (exec op s) = log s @ cs" "view (exec op s) = foldl replay (view s) cs" by blast
  from Cons obtain ds where
    "log (fold exec ops (exec op s)) = log (exec op s) @ ds"
    "view (fold exec ops (exec op s)) = foldl replay (view (exec op s)) ds" by blast
  with cs show ?case by (intro exI [of _ "cs @ ds"]) simp
qed

text \<open>A copy taken at some point and fed with everything published afterwards stays exact.\<close>

lemma follow:
  "view (fold exec ops s) = foldl replay (view s) (drop (length (log s)) (log (fold exec ops s)))"
  using run_feed [of ops s] by auto

lemma log_grows: "\<exists>cs. log (fold exec ops s) = log s @ cs"
  using run_feed by blast

end

text \<open>
  When replaying a list of changes twice is the same as once, a client may subscribe first and take
  its copy later: the changes it sees again do no harm.
\<close>

locale idempotent_feed = change_feed +
  assumes replay_again: "foldl replay (foldl replay v cs) cs = foldl replay v cs"
begin

lemma late_copy:
  "foldl replay (view (fold exec ops1 s))
     (drop (length (log s)) (log (fold exec (ops1 @ ops2) s)))
   = view (fold exec (ops1 @ ops2) s)"
proof -
  obtain cs where cs: "log (fold exec ops1 s) = log s @ cs"
    "view (fold exec ops1 s) = foldl replay (view s) cs" using run_feed by blast
  obtain ds where "log (fold exec ops2 (fold exec ops1 s)) = log (fold exec ops1 s) @ ds"
    "view (fold exec ops2 (fold exec ops1 s)) = foldl replay (view (fold exec ops1 s)) ds"
    using run_feed by blast
  with cs replay_again [of "view s" cs] show ?thesis by simp
qed

end

text \<open>The methods of the table that change it, run one after another.\<close>

datatype registry_op =
    OpConnect direct_presence int
  | OpDisconnect string u64
  | OpAnnounce string tunnel_handle int announced_device
  | OpWithdraw string string int
  | OpSnapshot string tunnel_handle int "announced_device list"

fun exec_op :: "nat \<Rightarrow> registry_op \<Rightarrow> registry \<Rightarrow> registry" where
  "exec_op max_hops (OpConnect p now) r = snd (connect p now r)"
| "exec_op max_hops (OpDisconnect d serial) r = snd (disconnect d serial r)"
| "exec_op max_hops (OpAnnounce l h now d) r = snd (announce_device max_hops l h now d r)"
| "exec_op max_hops (OpWithdraw l d now) r = withdraw_device l d now r"
| "exec_op max_hops (OpSnapshot l h now ds) r = apply_announcement max_hops l h now ds r"

definition fed :: "registry \<Rightarrow> registry \<Rightarrow> bool" where
  "fed r r' \<longleftrightarrow> (\<exists>cs. r_published r' = r_published r @ cs \<and> view r' = foldl apply_change (view r) cs)"

lemma fed_refl [simp]: "fed r r"
  by (simp add: fed_def)

lemma fed_trans: "fed r1 r2 \<Longrightarrow> fed r2 r3 \<Longrightarrow> fed r1 r3"
  unfolding fed_def by (elim exE, rule_tac x = "cs @ csa" in exI) simp

lemma view_publish [simp]: "view (publish cs r) = view r"
  by (simp add: view_def publish_def)

lemma view_next_sequence [simp]: "view (snd (next_sequence r)) = view r"
  by (simp add: view_def next_sequence_def)

lemma locked_published:
  "connect_locked serial p now r = (reg, cs, r') \<Longrightarrow> r_published r' = r_published r"
  "disconnect_locked d serial r = (b, cs, r') \<Longrightarrow> r_published r' = r_published r"
  "announce_locked serial l h now a r = (b, cs, r') \<Longrightarrow> r_published r' = r_published r"
  "withdraw_locked l d now r = (cs, r') \<Longrightarrow> r_published r' = r_published r"
  by (auto simp: connect_locked_def disconnect_locked_def announce_locked_def withdraw_locked_def
      Let_def split: if_splits prod.splits option.splits)

lemma r_published_publish [simp]: "r_published (publish cs r) = r_published r @ cs"
  by (simp add: publish_def)

lemma next_sequence_fst [simp]: "fst (next_sequence r) = r_sequence r"
  by (simp add: next_sequence_def)

lemma next_sequence_published [simp]: "r_published (snd (next_sequence r)) = r_published r"
  by (simp add: next_sequence_def)

lemma fed_publish:
  "r_published r1 = r_published r \<Longrightarrow> view r1 = foldl apply_change (view r) cs \<Longrightarrow> fed r (publish cs r1)"
  by (auto simp: fed_def)

lemma fed_connect: "fed r (snd (connect p now r))"
proof -
  obtain serial r1 where r1: "next_sequence r = (serial, r1)" by fastforce
  obtain reg cs r2 where r2: "connect_locked serial p now r1 = (reg, cs, r2)"
    by (cases "connect_locked serial p now r1")
  from r1 have "view r1 = view r" "r_published r1 = r_published r"
    using view_next_sequence [of r] next_sequence_published [of r] by simp_all
  with locked_published(1) [OF r2] connect_locked_feed [OF r2] show ?thesis
    by (simp add: connect_def r1 r2 fed_publish)
qed

lemma fed_disconnect: "fed r (snd (disconnect d serial r))"
proof -
  obtain b cs r1 where r1: "disconnect_locked d serial r = (b, cs, r1)"
    by (cases "disconnect_locked d serial r")
  from locked_published(2) [OF r1] disconnect_locked_feed [OF r1] show ?thesis
    by (simp add: disconnect_def r1 fed_publish)
qed

lemma fed_announce: "fed r (snd (announce_device max_hops l h now d r))"
proof -
  obtain sequence r1 where r1: "next_sequence r = (sequence, r1)" by fastforce
  obtain b cs r2 where r2: "announce_locked sequence l h now d r1 = (b, cs, r2)"
    by (cases "announce_locked sequence l h now d r1")
  from r1 have "view r1 = view r" "r_published r1 = r_published r"
    using view_next_sequence [of r] next_sequence_published [of r] by simp_all
  with locked_published(3) [OF r2] announce_locked_feed [OF r2] show ?thesis
    by (simp add: announce_device_def r1 r2 fed_publish)
qed

lemma fed_withdraw: "fed r (withdraw_device l d now r)"
proof -
  obtain cs r1 where r1: "withdraw_locked l d now r = (cs, r1)" by fastforce
  from locked_published(4) [OF r1] withdraw_locked_feed [OF r1] show ?thesis
    by (simp add: withdraw_device_def r1 fed_publish)
qed

lemma fed_install: "fed r (snd (install_devices max_hops l h now ds inst r))"
proof (induction ds arbitrary: inst r)
  case Nil
  then show ?case by simp
next
  case (Cons d ds)
  have "fed r (snd (announce_device max_hops l h now d r))" by (rule fed_announce)
  with Cons fed_trans show ?case by (fastforce split: prod.splits)
qed

lemma fed_withdraw_all: "fed r (withdraw_all l now stale r)"
  by (induction stale arbitrary: r) (auto simp: withdraw_all_def intro: fed_trans fed_withdraw)

lemma fed_snapshot: "fed r (apply_announcement max_hops l h now ds r)"
  using fed_install [of r max_hops l h now ds "[]"] fed_withdraw_all fed_trans
  by (fastforce simp: apply_announcement_def Let_def split: prod.splits)

lemma fed_exec: "fed r (exec_op max_hops op r)"
  by (cases op) (simp_all add: fed_connect fed_disconnect fed_announce fed_withdraw fed_snapshot)

text \<open>The last change of an id decides what a replay leaves for it.\<close>

fun change_id :: "registry_change \<Rightarrow> string" where
  "change_id (Online a) = ad_id a"
| "change_id (Offline d) = d"

lemma replay_lookup:
  "foldl apply_change v cs d =
     (case find (\<lambda>c. change_id c = d) (rev cs) of
        None \<Rightarrow> v d | Some (Online a) \<Rightarrow> Some a | Some (Offline _) \<Rightarrow> None)"
proof (induction cs rule: rev_induct)
  case Nil
  then show ?case by simp
next
  case (snoc c cs)
  then show ?case by (cases c) auto
qed

lemma replay_twice: "foldl apply_change (foldl apply_change v cs) cs = foldl apply_change v cs"
  by (rule ext) (simp add: replay_lookup split: option.splits)

interpretation table_feed: idempotent_feed "exec_op max_hops" view r_published apply_change
  for max_hops
proof
  show "\<exists>cs. r_published (exec_op max_hops op s) = r_published s @ cs \<and>
      view (exec_op max_hops op s) = foldl apply_change (view s) cs" for op s
    using fed_exec by (simp add: fed_def)
qed (rule replay_twice)

section \<open>What each method does\<close>

text \<open>The ordered choice between routes, as a condition on the table alone: with a fresh sequence
  number an announcement of equal length wins.\<close>

definition admits :: "nat \<Rightarrow> registry \<Rightarrow> announced_device \<Rightarrow> bool" where
  "admits max_hops r d \<longleftrightarrow>
     is_announcement_routable max_hops (r_relay_id r) (ad_via d) \<and>
     (case route r (ad_id d) of
        None \<Rightarrow> True
      | Some (Direct h) \<Rightarrow> False
      | Some (Via h hops) \<Rightarrow> length (ad_via d) \<le> length hops)"

definition announced_entry ::
  "u64 \<Rightarrow> string \<Rightarrow> tunnel_handle \<Rightarrow> int \<Rightarrow> announced_device \<Rightarrow> entry" where
  "announced_entry sequence l h now d =
     \<lparr>e_device = \<lparr>od_device_id = ad_id d, od_name = ad_name d, od_kind = Desktop,
        od_connected_since = now, od_ip = None, od_version = None, od_route = Via h (ad_via d)\<rparr>,
      e_origin = FromLink l, e_sequence = sequence\<rparr>"

lemma registry_inv_sequence:
  "registry_inv max_hops r \<Longrightarrow> map_of (r_entries r) d = Some e \<Longrightarrow> e_sequence e < r_sequence r"
  by (auto simp: registry_inv_def entries_ok_def simp del: origin_matches.simps)

lemma admits_iff:
  assumes "registry_inv max_hops r"
  shows "admits max_hops r d \<longleftrightarrow>
     is_announcement_routable max_hops (r_relay_id r) (ad_via d) \<and>
     (case map_of (r_entries r) (ad_id d) of
        None \<Rightarrow> True
      | Some old \<Rightarrow> replaces (od_route (e_device old)) (e_sequence old) (Via h (ad_via d)) (r_sequence r))"
proof (cases "map_of (r_entries r) (ad_id d)")
  case (Some old)
  with registry_inv_sequence [OF assms Some] show ?thesis
    by (cases "od_route (e_device old)") (auto simp: admits_def route_def hop_count_def)
qed (simp add: admits_def route_def)

lemma announce_device_rejects:
  assumes "registry_inv max_hops r" "\<not> admits max_hops r d"
  shows "fst (announce_device max_hops l h now d r) = False"
    and "r_entries (snd (announce_device max_hops l h now d r)) = r_entries r"
    and "r_withdrawn (snd (announce_device max_hops l h now d r)) = r_withdrawn r"
    and "r_published (snd (announce_device max_hops l h now d r)) = r_published r"
  using assms(2)
  by (auto simp: admits_iff [OF assms(1), of _ h] announce_device_def announce_locked_def
      next_sequence_def publish_def Let_def split: option.splits)

lemma announce_device_accepts:
  assumes "registry_inv max_hops r" "admits max_hops r d"
  shows "fst (announce_device max_hops l h now d r)"
    and "r_entries (snd (announce_device max_hops l h now d r))
         = AList.update (ad_id d) (announced_entry (r_sequence r) l h now d) (r_entries r)"
    and "r_withdrawn (snd (announce_device max_hops l h now d r)) = AList.delete (ad_id d) (r_withdrawn r)"
    and "r_published (snd (announce_device max_hops l h now d r)) = r_published r @
          [Online \<lparr>ad_id = ad_id d, ad_name = ad_name d, ad_online = True,
                   ad_via = r_relay_id r # ad_via d\<rparr>]"
  using assms(2)
  by (auto simp: admits_iff [OF assms(1), of _ h] announce_device_def announce_locked_def
      next_sequence_def publish_def announced_entry_def transition_def announcement_of_def
      Let_def split: option.splits)

lemma announce_device_frame [simp]:
  "r_relay_id (snd (announce_device max_hops l h now d r)) = r_relay_id r"
  "r_relay_links (snd (announce_device max_hops l h now d r)) = r_relay_links r"
  by (auto simp: announce_device_def announce_locked_def next_sequence_def publish_def Let_def
      split: prod.splits if_splits option.splits)

lemma announce_device_sequence:
  "r_sequence (snd (announce_device max_hops l h now d r)) =
     (if is_announcement_routable max_hops (r_relay_id r) (ad_via d) then r_sequence r + 1
      else r_sequence r)"
  by (auto simp: announce_device_def announce_locked_def next_sequence_def publish_def Let_def
      split: prod.splits if_splits option.splits)

lemma next_sequence_fields [simp]:
  "r_sequence (snd (next_sequence r)) = r_sequence r + 1"
  "r_entries (snd (next_sequence r)) = r_entries r"
  "r_relay_id (snd (next_sequence r)) = r_relay_id r"
  by (simp_all add: next_sequence_def)

lemma registry_inv_announce_device:
  assumes "registry_inv max_hops r" "r_sequence r \<noteq> - 1"
  shows "registry_inv max_hops (snd (announce_device max_hops l h now d r))"
proof (cases "is_announcement_routable max_hops (r_relay_id r) (ad_via d)")
  case True
  let ?r = "snd (next_sequence r)"
  obtain b cs r' where r': "announce_locked (r_sequence r) l h now d ?r = (b, cs, r')"
    by (cases "announce_locked (r_sequence r) l h now d ?r")
  have "registry_inv max_hops r'"
    by (rule registry_inv_announce_locked [OF registry_inv_draw [OF assms] _ _ r'])
       (simp_all add: True word_less_add_one assms(2))
  with r' True show ?thesis by (simp add: announce_device_def split_beta Let_def)
qed (simp add: announce_device_def assms)

lemma withdraw_device_frame [simp]:
  "r_relay_id (withdraw_device l d now r) = r_relay_id r"
  "r_relay_links (withdraw_device l d now r) = r_relay_links r"
  "r_sequence (withdraw_device l d now r) = r_sequence r"
  by (auto simp: withdraw_device_def withdraw_locked_def publish_def Let_def
      split: prod.splits if_splits option.splits)

lemma withdraw_device_entries:
  "map_of (r_entries (withdraw_device l d now r)) x =
     (if x = d \<and> (\<exists>e. map_of (r_entries r) d = Some e \<and> announced_by l e) then None
      else map_of (r_entries r) x)"
  by (auto simp: withdraw_device_def withdraw_locked_def publish_def Let_def
      split: prod.splits if_splits option.splits)

lemma registry_inv_withdraw_device:
  "registry_inv max_hops r \<Longrightarrow> registry_inv max_hops (withdraw_device l d now r)"
  by (auto simp: withdraw_device_def Let_def dest: registry_inv_withdraw_locked split: prod.splits)

lemma withdraw_device_published:
  "\<exists>cs. r_published (withdraw_device l d now r) = r_published r @ cs \<and> set cs \<subseteq> {Offline d}"
  by (auto simp: withdraw_device_def withdraw_locked_def transition_def Let_def publish_def
      split: prod.splits if_splits option.splits)

lemma registry_inv_connect:
  assumes "registry_inv max_hops r" "r_sequence r \<noteq> - 1"
  shows "registry_inv max_hops (snd (connect p now r))"
proof -
  let ?r = "snd (next_sequence r)"
  obtain b cs r' where r': "connect_locked (r_sequence r) p now ?r = (b, cs, r')"
    by (cases "connect_locked (r_sequence r) p now ?r")
  have "registry_inv max_hops r'"
    by (rule registry_inv_connect_locked [OF registry_inv_draw [OF assms] _ r'])
       (simp add: word_less_add_one assms(2))
  with r' show ?thesis by (simp add: connect_def split_beta Let_def)
qed

lemma registry_inv_disconnect:
  "registry_inv max_hops r \<Longrightarrow> registry_inv max_hops (snd (disconnect d serial r))"
  by (auto simp: disconnect_def Let_def dest: registry_inv_disconnect_locked split: prod.splits)

lemma connect_serial: "reg_serial (fst (connect p now r)) = r_sequence r"
  by (simp add: connect_def connect_locked_def next_sequence_def Let_def)

lemma connect_entry:
  "map_of (r_entries (snd (connect p now r))) x =
     (if x = dp_device_id p then
        Some \<lparr>e_device = \<lparr>od_device_id = dp_device_id p, od_name = dp_name p, od_kind = dp_kind p,
               od_connected_since = now, od_ip = dp_ip p, od_version = dp_version p,
               od_route = Direct (dp_handle p)\<rparr>,
             e_origin = FromTunnel (r_sequence r), e_sequence = r_sequence r\<rparr>
      else map_of (r_entries r) x)"
  by (simp add: connect_def connect_locked_def next_sequence_def publish_def Let_def)

lemma connect_sequence [simp]: "r_sequence (snd (connect p now r)) = r_sequence r + 1"
  by (simp add: connect_def connect_locked_def next_sequence_def publish_def Let_def)

definition holds_tunnel :: "registry \<Rightarrow> string \<Rightarrow> u64 \<Rightarrow> bool" where
  "holds_tunnel r d serial \<longleftrightarrow> (\<exists>e. map_of (r_entries r) d = Some e \<and> e_origin e = FromTunnel serial)"

lemma disconnect_stale: "\<not> holds_tunnel r d serial \<Longrightarrow> disconnect d serial r = (False, r)"
  by (auto simp: disconnect_def disconnect_locked_def holds_tunnel_def publish_def
      split: option.splits if_splits)

lemma disconnect_current:
  assumes "registry_inv max_hops r" "holds_tunnel r d serial"
  shows "fst (disconnect d serial r)"
    and "map_of (r_entries (snd (disconnect d serial r))) x =
      (case map_of (r_entries r) x of
         Some e \<Rightarrow> if x = d \<or> announced_by d e then None else Some e | None \<Rightarrow> None)"
    and "last_known (snd (disconnect d serial r)) x =
      (case map_of (r_withdrawn r) x of
         Some w \<Rightarrow> if wd_link_device_id w = d then None else Some (wd_device w) | None \<Rightarrow> None)"
proof -
  from assms have d: "distinct (map fst (r_entries r))" "distinct (map fst (r_withdrawn r))"
    by (simp_all add: registry_inv_def entries_ok_def withdrawn_ok_def)
  let ?gone = "d # announced_ids_of (r_entries r) d"
  obtain cs es where rem: "remove_entries (r_relay_id r) ?gone (r_entries r) = (cs, es)" by fastforce
  have es: "map_of es = (map_of (r_entries r)) |` (- set ?gone)"
    using remove_entries_map [of "r_relay_id r" ?gone "r_entries r"] rem by simp
  have *: "disconnect d serial r = (True, publish cs
      (r\<lparr>r_relay_links := filter (\<lambda>(_, link). link \<noteq> d) (r_relay_links r),
         r_withdrawn := filter (\<lambda>(_, w). wd_link_device_id w \<noteq> d) (r_withdrawn r), r_entries := es\<rparr>))"
    using assms(2) rem by (auto simp: disconnect_def disconnect_locked_def holds_tunnel_def)
  show "fst (disconnect d serial r)" by (simp add: *)
  show "map_of (r_entries (snd (disconnect d serial r))) x =
      (case map_of (r_entries r) x of
         Some e \<Rightarrow> if x = d \<or> announced_by d e then None else Some e | None \<Rightarrow> None)"
    by (auto simp: * es publish_def restrict_map_def set_announced_ids d split: option.splits)
  show "last_known (snd (disconnect d serial r)) x =
      (case map_of (r_withdrawn r) x of
         Some w \<Rightarrow> if wd_link_device_id w = d then None else Some (wd_device w) | None \<Rightarrow> None)"
    by (auto simp: * publish_def last_known_def map_of_retain d split: option.splits)
qed

subsection \<open>The clean-up in one pass\<close>

text \<open>
  What \<^verbatim>\<open>disconnect\<close> is meant to leave: the table without the device and without what its link announced, nothing
  remembered of the link, and one \<open>Offline\<close> for each device that had been visible, in the order of the table.
\<close>

definition tear_down :: "string \<Rightarrow> registry \<Rightarrow> registry" where
  "tear_down d r =
     r\<lparr>r_entries := filter (\<lambda>(x, e). x \<noteq> d \<and> \<not> announced_by d e) (r_entries r),
       r_relay_links := filter (\<lambda>(_, link). link \<noteq> d) (r_relay_links r),
       r_withdrawn := filter (\<lambda>(_, w). wd_link_device_id w \<noteq> d) (r_withdrawn r),
       r_published := r_published r @
         map Offline (filter (\<lambda>x. view r x \<noteq> None) (d # announced_ids_of (r_entries r) d))\<rparr>"

lemma remove_entries_filter:
  "snd (remove_entries relay_id ds es) = filter (\<lambda>(x, _). x \<notin> set ds) es"
proof (induction relay_id ds es rule: remove_entries.induct)
  case (1 relay_id es)
  show ?case by (simp add: remove_entries.simps)
next
  case (2 relay_id d ds es)
  show ?case
  proof (cases "map_of es d")
    case None
    then have "\<forall>y \<in> set es. fst y \<noteq> d" by (auto simp: map_of_eq_None_iff)
    with 2(1) None show ?thesis by (auto simp: remove_entries.simps intro!: filter_cong)
  next
    case (Some e)
    obtain cs rest where r: "remove_entries relay_id ds (AList.delete d es) = (cs, rest)" by fastforce
    with 2(2) [OF Some] have "rest = filter (\<lambda>(x, _). x \<notin> set ds) (AList.delete d es)" by (metis snd_conv)
    with Some r show ?thesis by (auto simp: remove_entries.simps AList.delete_eq intro!: filter_cong)
  qed
qed

lemma remove_entries_changes:
  "distinct ds \<Longrightarrow> fst (remove_entries relay_id ds es) = map Offline (filter (\<lambda>x. view_of relay_id es x \<noteq> None) ds)"
proof (induction relay_id ds es rule: remove_entries.induct)
  case (1 relay_id es)
  show ?case by (simp add: remove_entries.simps)
next
  case (2 relay_id d ds es)
  show ?case
  proof (cases "map_of es d")
    case None
    with 2 show ?thesis by (simp add: remove_entries.simps view_of_def)
  next
    case (Some e)
    obtain cs rest where r: "remove_entries relay_id ds (AList.delete d es) = (cs, rest)" by fastforce
    with 2(2) [OF Some] 2(3) have "cs = map Offline (filter (\<lambda>x. view_of relay_id (AList.delete d es) x \<noteq> None) ds)"
      by (metis distinct.simps(2) fst_conv)
    moreover have "filter (\<lambda>x. view_of relay_id (AList.delete d es) x \<noteq> None) ds = filter (\<lambda>x. view_of relay_id es x \<noteq> None) ds"
      using 2(3) by (auto simp: view_of_def intro!: filter_cong)
    ultimately show ?thesis
      using Some r by (simp add: remove_entries.simps transition_def view_of_def)
  qed
qed

section \<open>Snapshots\<close>

definition owned_by :: "registry \<Rightarrow> string \<Rightarrow> string \<Rightarrow> bool" where
  "owned_by r l x \<longleftrightarrow> (\<exists>e. map_of (r_entries r) x = Some e \<and> announced_by l e)"

lemma admits_cong:
  "r_relay_id r' = r_relay_id r \<Longrightarrow> map_of (r_entries r') (ad_id d) = map_of (r_entries r) (ad_id d) \<Longrightarrow>
   admits max_hops r' d = admits max_hops r d"
  by (simp add: admits_def route_def)

lemma announce_device_other:
  assumes "registry_inv max_hops r" "x \<noteq> ad_id d"
  shows "map_of (r_entries (snd (announce_device max_hops l h now d r))) x = map_of (r_entries r) x"
  using assms
  by (cases "admits max_hops r d") (simp_all add: announce_device_accepts announce_device_rejects)

lemma unat_inc: "unat (s :: u64) + Suc n < 2 ^ 64 \<Longrightarrow> s \<noteq> - 1 \<and> unat (s + 1) = unat s + 1"
proof -
  assume *: "unat s + Suc n < 2 ^ 64"
  have "unat (- 1 :: u64) = 2 ^ 64 - 1" by (simp add: unsigned_minus_1_eq_mask mask_eq_exp_minus_1)
  with * have "s \<noteq> - 1" by auto
  with * show ?thesis by (simp add: unat_word_ariths)
qed

text \<open>
  Installing a list with one entry per device: each is decided by the table as it was before, the
  other devices keep their entry, and only \<open>Online\<close> is published.
\<close>

definition offered :: "nat \<Rightarrow> registry \<Rightarrow> announced_device list \<Rightarrow> string set" where
  "offered max_hops r ds = ad_id ` {d \<in> set ds. ad_online d \<and> admits max_hops r d}"

lemma install_devices_spec:
  assumes "registry_inv max_hops r" "unat (r_sequence r) + length ds < 2 ^ 64"
    and "distinct (map ad_id ds)"
    and "install_devices max_hops l h now ds inst r = (inst', r')"
  shows "registry_inv max_hops r' \<and> r_relay_id r' = r_relay_id r \<and>
    set inst' = set inst \<union> offered max_hops r ds \<and>
    (\<forall>x. x \<notin> offered max_hops r ds \<longrightarrow> map_of (r_entries r') x = map_of (r_entries r) x) \<and>
    (\<forall>d \<in> set ds. ad_online d \<and> admits max_hops r d \<longrightarrow>
       route r' (ad_id d) = Some (Via h (ad_via d)) \<and> owned_by r' l (ad_id d)) \<and>
    (\<exists>cs. r_published r' = r_published r @ cs \<and> (\<forall>x. Offline x \<notin> set cs))"
  using assms
proof (induction ds arbitrary: inst r)
  case Nil
  then show ?case by (simp add: offered_def)
next
  case (Cons d ds)
  show ?case
  proof (cases "ad_online d")
    case False
    with Cons have "offered max_hops r (d # ds) = offered max_hops r ds" by (auto simp: offered_def)
    with False Cons show ?thesis by auto
  next
    case True
    let ?r = "snd (announce_device max_hops l h now d r)"
    let ?acc = "admits max_hops r d"
    have inv: "registry_inv max_hops ?r" and head: "unat (r_sequence ?r) + length ds < 2 ^ 64"
      using Cons.prems(1,2) unat_inc [of "r_sequence r" "length ds"]
      by (simp_all add: registry_inv_announce_device announce_device_sequence)
    have acc: "fst (announce_device max_hops l h now d r) = ?acc"
      using Cons.prems(1) by (cases ?acc) (simp_all add: announce_device_accepts announce_device_rejects)
    have same: "map_of (r_entries ?r) x = map_of (r_entries r) x" if "x \<noteq> ad_id d" for x
      using announce_device_other [OF Cons.prems(1) that] .
    have adm: "admits max_hops ?r d' = admits max_hops r d'" if "d' \<in> set ds" for d'
    proof -
      from Cons.prems(3) have "ad_id d \<notin> ad_id ` set ds" by simp
      with that have "ad_id d' \<noteq> ad_id d" by (metis imageI)
      then show ?thesis by (intro admits_cong) (simp_all add: same)
    qed
    then have off: "offered max_hops ?r ds = offered max_hops r ds" by (auto simp: offered_def)
    have off': "offered max_hops r (d # ds) = (if ?acc then {ad_id d} else {}) \<union> offered max_hops r ds"
      using True by (auto simp: offered_def)
    have notin: "ad_id d \<notin> offered max_hops r ds" using Cons.prems(3) by (auto simp: offered_def)
    have rec: "install_devices max_hops l h now ds (if ?acc then ad_id d # inst else inst) ?r = (inst', r')"
      using Cons.prems(4) True by (simp add: acc split_beta Let_def)
    note IH = Cons.IH [OF inv head _ rec]
    have own: "route r' (ad_id d) = Some (Via h (ad_via d)) \<and> owned_by r' l (ad_id d)" if ?acc
      using IH Cons.prems(1,3) notin that
      by (simp add: off route_def owned_by_def announce_device_accepts announced_entry_def)
    have pub: "\<exists>cs. r_published ?r = r_published r @ cs \<and> (\<forall>x. Offline x \<notin> set cs)"
      using Cons.prems(1) by (cases ?acc) (simp_all add: announce_device_accepts announce_device_rejects)
    have fresh: "ad_id d \<notin> offered max_hops r (d # ds)" if "\<not> ?acc"
      using notin that by (simp add: off')
    have keep: "map_of (r_entries r') x = map_of (r_entries r) x" if "x \<notin> offered max_hops r (d # ds)" for x
    proof (cases "x = ad_id d")
      case True
      with that have "\<not> ?acc" by (auto simp: off')
      with Cons.prems(1) that IH Cons.prems(3) True show ?thesis
        by (simp add: off off' announce_device_rejects)
    next
      case False
      with that IH Cons.prems(3) show ?thesis by (simp add: off off' same split: if_splits)
    qed
    from IH Cons.prems(3) own pub keep show ?thesis
      by (auto simp: off off' adm)
  qed
qed

lemma withdraw_all_entries:
  "map_of (r_entries (withdraw_all l now stale r)) x =
     (if x \<in> set stale \<and> owned_by r l x then None else map_of (r_entries r) x)"
proof (induction stale arbitrary: r)
  case Nil
  then show ?case by (simp add: withdraw_all_def)
next
  case (Cons d stale)
  have "withdraw_all l now (d # stale) r = withdraw_all l now stale (withdraw_device l d now r)"
    by (simp add: withdraw_all_def)
  with Cons show ?case by (auto simp: withdraw_device_entries owned_by_def)
qed

lemma withdraw_all_frame [simp]: "r_relay_id (withdraw_all l now stale r) = r_relay_id r"
  by (induction stale arbitrary: r) (simp_all add: withdraw_all_def)

lemma registry_inv_withdraw_all:
  "registry_inv max_hops r \<Longrightarrow> registry_inv max_hops (withdraw_all l now stale r)"
  by (induction stale arbitrary: r) (simp_all add: withdraw_all_def registry_inv_withdraw_device)

lemma withdraw_all_published:
  "\<exists>cs. r_published (withdraw_all l now stale r) = r_published r @ cs \<and> set cs \<subseteq> Offline ` set stale"
proof (induction stale arbitrary: r)
  case Nil
  then show ?case by (simp add: withdraw_all_def)
next
  case (Cons d stale)
  obtain cs where "r_published (withdraw_device l d now r) = r_published r @ cs" "set cs \<subseteq> {Offline d}"
    using withdraw_device_published by blast
  moreover obtain ds where
    "r_published (withdraw_all l now stale (withdraw_device l d now r)) =
     r_published (withdraw_device l d now r) @ ds" "set ds \<subseteq> Offline ` set stale"
    using Cons by blast
  ultimately show ?case
    by (intro exI [of _ "cs @ ds"]) (auto simp: withdraw_all_def)
qed

lemma apply_announcement_spec:
  assumes inv: "registry_inv max_hops r" and head: "unat (r_sequence r) + length ds < 2 ^ 64"
    and dist: "distinct (map ad_id ds)" and r'_def: "r' = apply_announcement max_hops l h now ds r"
  shows "registry_inv max_hops r'"
    and "owned_by r' l x \<longleftrightarrow> x \<in> offered max_hops r ds"
    and "x \<notin> offered max_hops r ds \<Longrightarrow>
      map_of (r_entries r') x = (if owned_by r l x then None else map_of (r_entries r) x)"
    and "d \<in> set ds \<Longrightarrow> ad_online d \<Longrightarrow> admits max_hops r d \<Longrightarrow>
      route r' (ad_id d) = Some (Via h (ad_via d))"
    and "\<exists>cs. r_published r' = r_published r @ cs \<and> (x \<in> offered max_hops r ds \<longrightarrow> Offline x \<notin> set cs)"
proof -
  obtain inst r1 where r1: "install_devices max_hops l h now ds [] r = (inst, r1)" by fastforce
  note spec = install_devices_spec [OF inv head dist r1]
  let ?prev = "announced_ids_of (r_entries r) l"
  let ?stale = "filter (\<lambda>d. d \<notin> set inst) ?prev"
  have r': "r' = withdraw_all l now ?stale r1"
    by (simp add: r'_def apply_announcement_def r1 Let_def)
  have inst: "set inst = offered max_hops r ds" using spec by simp
  have prev: "y \<in> set ?prev \<longleftrightarrow> owned_by r l y" for y
    using inv by (simp add: owned_by_def registry_inv_def entries_ok_def set_announced_ids)
  show "registry_inv max_hops r'" using spec by (simp add: r' registry_inv_withdraw_all)
  have keep: "map_of (r_entries r1) y = map_of (r_entries r) y" if "y \<notin> offered max_hops r ds" for y
    using spec that by blast
  have off: "owned_by r1 l y" if "y \<in> offered max_hops r ds" for y
    using spec that by (auto simp: offered_def)
  have entries: "map_of (r_entries r') y = (if y \<in> offered max_hops r ds then map_of (r_entries r1) y
      else if owned_by r l y then None else map_of (r_entries r) y)" for y
    using keep [of y] by (auto simp: r' withdraw_all_entries inst prev owned_by_def)
  show "owned_by r' l x \<longleftrightarrow> x \<in> offered max_hops r ds"
    using off [of x] by (auto simp: owned_by_def entries)
  show "map_of (r_entries r') x = (if owned_by r l x then None else map_of (r_entries r) x)"
    if "x \<notin> offered max_hops r ds" using that by (simp add: entries)
  show "route r' (ad_id d) = Some (Via h (ad_via d))"
    if "d \<in> set ds" "ad_online d" "admits max_hops r d"
    using that spec by (auto simp: route_def entries offered_def)
  obtain cs where cs: "r_published r1 = r_published r @ cs" "\<forall>x. Offline x \<notin> set cs" using spec by blast
  obtain ds' where "r_published r' = r_published r1 @ ds'" "set ds' \<subseteq> Offline ` set ?stale"
    using withdraw_all_published r' by blast
  with cs inst show "\<exists>cs. r_published r' = r_published r @ cs \<and>
      (x \<in> offered max_hops r ds \<longrightarrow> Offline x \<notin> set cs)"
    by (intro exI [of _ "cs @ ds'"]) auto
qed

section \<open>Properties\<close>

subsection \<open>Concrete tables for the witnesses\<close>

definition sample_link :: direct_presence where
  "sample_link = \<lparr>dp_device_id = ''link'', dp_name = ''Branch'', dp_kind = Relay,
     dp_relay_id = Some ''B'', dp_ip = None, dp_version = None,
     dp_handle = \<lparr>th_device_id = ''link'', th_channel = 1\<rparr>\<rparr>"

definition sample_desktop :: direct_presence where
  "sample_desktop = \<lparr>dp_device_id = ''desk'', dp_name = ''Study'', dp_kind = Desktop,
     dp_relay_id = None, dp_ip = None, dp_version = None,
     dp_handle = \<lparr>th_device_id = ''desk'', th_channel = 2\<rparr>\<rparr>"

definition sample_device :: announced_device where
  "sample_device = \<lparr>ad_id = ''far'', ad_name = ''Office'', ad_online = True, ad_via = [''B'']\<rparr>"

definition sample_table :: registry where
  "sample_table = snd (connect sample_link 10 (new_registry ''A''))"

definition sample_routed :: registry where
  "sample_routed = snd (announce_device 8 ''link'' (dp_handle sample_link) 20 sample_device sample_table)"

lemmas sample_defs = sample_link_def sample_desktop_def sample_device_def new_registry_def
  connect_def connect_locked_def next_sequence_def publish_def

lemma sample_table_inv: "registry_inv 8 sample_table"
  unfolding sample_table_def
  by (rule registry_inv_connect [OF registry_inv_new]) (simp add: new_registry_def)

lemma sample_table_sequence: "r_sequence sample_table = 1"
  by (simp add: sample_table_def new_registry_def)

lemma sample_admits: "admits 8 sample_table sample_device"
  by (simp add: admits_def sample_table_def sample_defs is_announcement_routable_def route_def
      Let_def transition_def)

lemma sample_routed_inv: "registry_inv 8 sample_routed"
  by (simp add: sample_routed_def registry_inv_announce_device sample_table_inv sample_table_sequence)

lemma sample_routed_entries:
  "r_entries sample_routed = AList.update ''far''
     (announced_entry 1 ''link'' (dp_handle sample_link) 20 sample_device) (r_entries sample_table)"
  using announce_device_accepts(2) [OF sample_table_inv sample_admits]
  by (simp add: sample_routed_def sample_table_sequence sample_device_def)

lemma sample_routed_sequence: "r_sequence sample_routed = 2"
  by (simp add: sample_routed_def announce_device_sequence sample_table_sequence sample_device_def
      is_announcement_routable_def sample_table_def connect_def connect_locked_def new_registry_def
      next_sequence_def publish_def Let_def)

lemma sample_routed_relay: "r_relay_id sample_routed = ''A''"
  by (simp add: sample_routed_def sample_table_def sample_defs Let_def)

subsection \<open>The invariant\<close>

text \<open>C6: in every state that the tunnels' tasks can reach by interleaving their atomic actions, the
  routing table is well formed: entries are filed under their own id, direct origins go with direct
  routes and announced ones with chains that avoid this relay and stay inside the hop budget, only
  attached links are named as relays, and no device is both reachable and withdrawn.\<close>

theorem table_invariant:
  assumes "table_reachable max_hops relay_id s"
  shows "registry_inv max_hops (fst s)"
  using assms by (rule table_reachable_inv)

theorem table_invariant_witness:
  "registry_inv 8 (fst (snd (next_sequence (new_registry ''A'')), [] :: registry_change list list))"
proof (rule table_invariant)
  show "table_reachable 8 ''A'' (snd (next_sequence (new_registry ''A'')), [])"
    by (rule table_reachable.step [OF table_reachable.start], rule table_step.draw)
       (simp add: new_registry_def)
qed

text \<open>C31: whatever is announced to an upstream starts with this relay, names it only once and fits
  the hop budget of a stream.\<close>

theorem announcements_well_formed:
  assumes "registry_inv max_hops r" "0 < max_hops" "a \<in> set (announcements r)"
  shows "ad_online a \<and> (\<exists>hops. ad_via a = r_relay_id r # hops \<and> r_relay_id r \<notin> set hops)
    \<and> length (ad_via a) \<le> max_hops \<and> view r (ad_id a) = Some a"
proof -
  from assms(3) obtain d e where mem: "(d, e) \<in> set (r_entries r)"
    and a: "announcement_of (r_relay_id r) e = Some a"
    by (auto simp: announcements_def map_filter_def split: if_splits)
  from assms(1) have "distinct (map fst (r_entries r))" by (simp add: registry_inv_def entries_ok_def)
  with mem have e: "map_of (r_entries r) d = Some e" by (simp add: map_of_iff_set)
  with assms(1) have "od_device_id (e_device e) = d" "origin_matches max_hops (r_relay_id r) e"
    by (auto simp: registry_inv_def entries_ok_def simp del: origin_matches.simps)
  then show ?thesis using a e assms(2)
    by (cases "od_route (e_device e)")
       (auto simp: announcement_of_def view_def view_of_def is_announcement_routable_def
         split: if_splits origin.splits)
qed

theorem announcements_well_formed_witness:
  "let a = \<lparr>ad_id = ''far'', ad_name = ''Office'', ad_online = True, ad_via = [''A'', ''B'']\<rparr>
   in a \<in> set (announcements sample_routed) \<and> view sample_routed (ad_id a) = Some a"
proof -
  let ?a = "\<lparr>ad_id = ''far'', ad_name = ''Office'', ad_online = True, ad_via = [''A'', ''B'']\<rparr>"
  have mem: "?a \<in> set (announcements sample_routed)"
    by (simp add: announcements_def sample_routed_entries sample_routed_relay sample_table_def sample_defs
        announced_entry_def announcement_of_def map_filter_def Let_def)
  then show ?thesis
    using announcements_well_formed [OF sample_routed_inv _ mem] by simp
qed

subsection \<open>The change feed\<close>

text \<open>A link that subscribes first, copies the announcements some operations later and then
  replays everything published since it subscribed has, after any further operations, exactly the
  devices the table can reach.\<close>

lemma upstream_copy_exact:
  "foldl apply_change (view (fold (exec_op max_hops) before r))
     (drop (length (r_published r)) (r_published (fold (exec_op max_hops) (before @ after) r)))
   = view (fold (exec_op max_hops) (before @ after) r)"
  by (rule table_feed.late_copy)

text \<open>One desktop's tunnel ends while its next one comes up: the states of that run.\<close>

definition desk_entry :: "u64 \<Rightarrow> entry" where
  "desk_entry serial =
     \<lparr>e_device = \<lparr>od_device_id = ''desk'', od_name = ''Study'', od_kind = Desktop,
        od_connected_since = 10, od_ip = None, od_version = None,
        od_route = Direct (dp_handle sample_desktop)\<rparr>,
      e_origin = FromTunnel serial, e_sequence = serial\<rparr>"

definition desk_online :: registry_change where
  "desk_online = Online \<lparr>ad_id = ''desk'', ad_name = ''Study'', ad_online = True, ad_via = [''A'']\<rparr>"

definition desk_table :: "u64 \<Rightarrow> (string \<times> entry) list \<Rightarrow> registry_change list \<Rightarrow> registry" where
  "desk_table sequence entries published = \<lparr>r_relay_id = ''A'', r_entries = entries, r_relay_links = [],
     r_withdrawn = [], r_sequence = sequence, r_published = published\<rparr>"

lemmas desk_defs = desk_table_def desk_entry_def desk_online_def sample_desktop_def

lemma desk_draw: "snd (next_sequence (desk_table n es cs)) = desk_table (n + 1) es cs"
  by (simp add: desk_table_def next_sequence_def)

lemma desk_connect:
  "connect_locked serial sample_desktop 10 (desk_table n [] cs) =
     (\<lparr>reg_serial = serial, reg_displaced = None\<rparr>, [desk_online],
      desk_table n [(''desk'', desk_entry serial)] cs)"
  by (simp add: desk_defs connect_locked_def transition_def announcement_of_def Let_def)

lemma desk_disconnect:
  "disconnect_locked ''desk'' serial (desk_table n [(''desk'', desk_entry serial)] cs) =
     (True, [Offline ''desk''], desk_table n [] cs)"
  by (simp add: desk_defs disconnect_locked_def announced_ids_of_def remove_entries.simps transition_def
      announcement_of_def)

lemma desk_publish: "publish bs (desk_table n es cs) = desk_table n es (cs @ bs)"
  by (simp add: desk_table_def publish_def)

lemma desk_race:
  "table_reachable 8 ''A'' (desk_table 2 [(''desk'', desk_entry 1)] [desk_online, desk_online, Offline ''desk''], [])"
proof -
  let ?R = "table_reachable 8 ''A''"
  let ?up = "\<lambda>serial. [(''desk'', desk_entry serial)]"
  have draw: "?R (desk_table n es cs, todo) \<Longrightarrow> n \<noteq> - 1 \<Longrightarrow> ?R (desk_table (n + 1) es cs, todo)"
    for n es cs todo
    using table_reachable.step [OF _ table_step.draw [of "desk_table n es cs"]]
    by (simp add: desk_draw) (simp add: desk_table_def)
  have up: "?R (desk_table n [] cs, todo) \<Longrightarrow> s < n \<Longrightarrow>
      ?R (desk_table n (?up s) cs, todo @ [[desk_online]])" for n cs todo s
    using table_reachable.step [OF _ table_step.connect [OF _ desk_connect]]
    by (simp add: desk_table_def)
  have down: "?R (desk_table n (?up s) cs, todo) \<Longrightarrow>
      ?R (desk_table n [] cs, todo @ [[Offline ''desk'']])" for n cs todo s
    by (rule table_reachable.step [OF _ table_step.disconnect [OF desk_disconnect]])
  have pub: "?R (desk_table n es cs, before @ bs # after) \<Longrightarrow>
      ?R (desk_table n es (cs @ bs), before @ after)" for n es cs before bs after
    by (subst desk_publish [symmetric]) (rule table_reachable.step [OF _ table_step.publish])
  have "?R (desk_table 0 [] [], [])"
    using table_reachable.start [of 8 "''A''"] by (simp add: new_registry_def desk_table_def)
  from draw [OF this] have "?R (desk_table 1 [] [], [])" by simp
  from up [OF this, of 0] have "?R (desk_table 1 (?up 0) [], [[desk_online]])" by simp
  from pub [of _ _ _ "[]" _ "[]", simplified, OF this]
  have "?R (desk_table 1 (?up 0) [desk_online], [])" by simp
  from down [OF this] have "?R (desk_table 1 [] [desk_online], [[Offline ''desk'']])" by simp
  from draw [OF this] have "?R (desk_table 2 [] [desk_online], [[Offline ''desk'']])" by simp
  from up [OF this, of 1] have
    "?R (desk_table 2 (?up 1) [desk_online], [Offline ''desk''] # [desk_online] # [])" by simp
  from pub [of _ _ _ "[[Offline ''desk'']]" _ "[]", simplified, OF this]
  have "?R (desk_table 2 (?up 1) [desk_online, desk_online], [[Offline ''desk'']])" by simp
  from pub [of _ _ _ "[]" _ "[]", simplified, OF this] show ?thesis by simp
qed

text \<open>That exactness needs the operations to publish in the order of their locked sections.
  The code publishes after releasing the lock, and there is an interleaving in which a device is
  reachable, nothing is left to publish, and the published changes say it is offline.\<close>

lemma publish_order_race:
  "\<exists>r. table_reachable 8 ''A'' (r, []) \<and> is_online r ''desk'' \<and> view r ''desk'' \<noteq> None \<and>
       foldl apply_change Map.empty (r_published r) ''desk'' = None"
  by (rule exI [of _ "desk_table 2 [(''desk'', desk_entry 1)] [desk_online, desk_online, Offline ''desk'']"])
     (intro conjI desk_race; simp add: desk_table_def is_online_def view_def view_of_def desk_entry_def
       announcement_of_def)

subsection \<open>Routes\<close>

text \<open>An announcement is accepted exactly when its chain fits and the device is unreachable or
  reachable over a chain that is not shorter, never against a direct tunnel; an accepted one is the
  new route, a refused one changes no route, and no other device's route moves.\<close>

lemma announce_takes_shorter_route:
  assumes "registry_inv max_hops r" "announce_device max_hops l h now d r = (accepted, r')"
  shows "(accepted \<longleftrightarrow> length (ad_via d) < max_hops \<and> r_relay_id r \<notin> set (ad_via d) \<and>
       (case route r (ad_id d) of
          None \<Rightarrow> True
        | Some (Direct _) \<Rightarrow> False
        | Some (Via _ hops) \<Rightarrow> length (ad_via d) \<le> length hops))
    \<and> route r' = (if accepted then (route r)(ad_id d \<mapsto> Via h (ad_via d)) else route r)"
proof -
  have acc: "accepted = admits max_hops r d"
    using assms announce_device_accepts(1) [OF assms(1), of d l h now]
      announce_device_rejects(1) [OF assms(1), of d l h now] by (cases "admits max_hops r d") auto
  have "r' = snd (announce_device max_hops l h now d r)" using assms(2) by simp
  with acc assms(1) show ?thesis
    by (cases "admits max_hops r d")
       (auto simp: admits_def is_announcement_routable_def route_def announced_entry_def
         announce_device_accepts announce_device_rejects fun_eq_iff)
qed

theorem announce_takes_shorter_route_witness:
  "announce_device 8 ''link'' (dp_handle sample_link) 20 sample_device sample_table = (True, sample_routed)
   \<and> route sample_routed ''far'' = Some (Via (dp_handle sample_link) [''B''])"
proof -
  have "announce_device 8 ''link'' (dp_handle sample_link) 20 sample_device sample_table = (True, sample_routed)"
    using announce_device_accepts(1) [OF sample_table_inv sample_admits]
    by (simp add: sample_routed_def prod_eq_iff)
  then show ?thesis
    using announce_takes_shorter_route [OF sample_table_inv] by (simp add: sample_device_def)
qed

text \<open>A tunnel's clean-up removes that device and exactly what it announced if the tunnel is still
  the registered one, forgets what it had withdrawn, and otherwise leaves the table untouched.\<close>

lemma disconnect_scope:
  assumes "registry_inv max_hops r" "disconnect d serial r = (removed, r')"
  shows "(removed \<longleftrightarrow> holds_tunnel r d serial) \<and> (\<not> removed \<longrightarrow> r' = r) \<and>
    (removed \<longrightarrow> (\<forall>x. is_online r' x \<longleftrightarrow> is_online r x \<and> x \<noteq> d \<and> \<not> owned_by r d x) \<and>
       (\<forall>x k. last_known r' x = Some k \<longrightarrow>
          (\<exists>w. map_of (r_withdrawn r) x = Some w \<and> wd_link_device_id w \<noteq> d \<and> wd_device w = k)))"
proof (cases "holds_tunnel r d serial")
  case True
  note cur = disconnect_current [OF assms(1) True]
  have "removed" "r' = snd (disconnect d serial r)" using cur(1) assms(2) by simp_all
  with True show ?thesis
    by (auto simp: is_online_def owned_by_def cur(2) cur(3) split: option.splits if_splits)
next
  case False
  with assms(2) show ?thesis by (simp add: disconnect_stale)
qed

theorem disconnect_scope_witness:
  "is_online sample_routed ''far'' \<and> \<not> is_online (snd (disconnect ''link'' 0 sample_routed)) ''far''"
proof -
  obtain b r' where dis: "disconnect ''link'' 0 sample_routed = (b, r')" by fastforce
  have "holds_tunnel sample_routed ''link'' 0"
    by (simp add: holds_tunnel_def sample_routed_entries sample_table_def sample_defs Let_def)
  moreover have "owned_by sample_routed ''link'' ''far''"
    by (simp add: owned_by_def sample_routed_entries announced_entry_def)
  ultimately have "\<not> is_online r' ''far''"
    using disconnect_scope [OF sample_routed_inv dis] by blast
  then show ?thesis by (simp add: dis is_online_def sample_routed_entries)
qed

text \<open>C36: the loop that cleans up after a tunnel is equivalent to one pass over the table: nothing happens unless the serial is
  that of the registered tunnel, and otherwise exactly the device and everything its link announced are gone, what
  was remembered of the link is forgotten, and each device that had been visible upstream is reported offline once.\<close>

theorem disconnect_in_one_pass:
  assumes "registry_inv max_hops r"
  shows "disconnect d serial r = (if holds_tunnel r d serial then (True, tear_down d r) else (False, r))"
proof (cases "holds_tunnel r d serial")
  case False
  then show ?thesis by (simp add: disconnect_stale)
next
  case True
  have keys: "distinct (map fst (r_entries r))" using assms by (simp add: registry_inv_def entries_ok_def)
  let ?gone = "d # announced_ids_of (r_entries r) d"
  obtain e where e: "map_of (r_entries r) d = Some e" "e_origin e = FromTunnel serial"
    using True by (auto simp: holds_tunnel_def)
  then have "\<not> announced_by d e" by simp
  then have fresh: "d \<notin> set (announced_ids_of (r_entries r) d)"
    using e(1) keys by (auto simp: set_announced_ids)
  have "distinct (announced_ids_of (r_entries r) d)"
    using keys by (simp add: announced_ids_of_def distinct_map_filter)
  with fresh have dist: "distinct ?gone" by simp
  have gone: "(x \<notin> set ?gone) = (x \<noteq> d \<and> \<not> announced_by d a)" if "(x, a) \<in> set (r_entries r)" for x a
    using that keys by (auto simp: set_announced_ids)
  have "filter (\<lambda>(x, _). x \<notin> set ?gone) (r_entries r) = filter (\<lambda>(x, a). x \<noteq> d \<and> \<not> announced_by d a) (r_entries r)"
    by (rule filter_cong [OF refl]) (use gone in auto)
  then have "remove_entries (r_relay_id r) ?gone (r_entries r) =
      (map Offline (filter (\<lambda>x. view r x \<noteq> None) ?gone), filter (\<lambda>(x, a). x \<noteq> d \<and> \<not> announced_by d a) (r_entries r))"
    using remove_entries_changes [OF dist, of "r_relay_id r" "r_entries r"] remove_entries_filter [of "r_relay_id r" ?gone "r_entries r"]
    by (simp add: prod_eq_iff view_def)
  then show ?thesis
    using True e by (simp add: disconnect_def disconnect_locked_def tear_down_def publish_def)
qed

theorem disconnect_in_one_pass_witness:
  "disconnect ''link'' 0 sample_routed = (True, tear_down ''link'' sample_routed) \<and>
   disconnect ''link'' 7 sample_routed = (False, sample_routed)"
proof -
  have "holds_tunnel sample_routed ''link'' 0" "\<not> holds_tunnel sample_routed ''link'' 7"
    by (simp_all add: holds_tunnel_def sample_routed_entries sample_table_def sample_defs Let_def)
  then show ?thesis by (simp add: disconnect_in_one_pass [OF sample_routed_inv])
qed

text \<open>When a device reconnects before its previous tunnel is torn down, the clean-up of the
  previous tunnel is refused and the new tunnel stays routed.\<close>

lemma stale_cleanup_is_refused:
  assumes "dp_device_id p2 = dp_device_id p1"
  shows "disconnect (dp_device_id p1) (reg_serial (fst (connect p1 t1 r)))
           (snd (connect p2 t2 (snd (connect p1 t1 r))))
         = (False, snd (connect p2 t2 (snd (connect p1 t1 r))))
    \<and> route (snd (connect p2 t2 (snd (connect p1 t1 r)))) (dp_device_id p1) = Some (Direct (dp_handle p2))"
  using assms
  by (simp add: disconnect_stale holds_tunnel_def connect_entry connect_serial route_def)

theorem stale_cleanup_is_refused_witness:
  "fst (disconnect ''desk'' (reg_serial (fst (connect sample_desktop 1 sample_table)))
      (snd (connect sample_desktop 2 (snd (connect sample_desktop 1 sample_table))))) = False"
  using stale_cleanup_is_refused [OF refl, of sample_desktop 1 sample_table 2]
  by (simp add: sample_desktop_def)

subsection \<open>Snapshots and withdrawals\<close>

text \<open>C32: after a snapshot that lists each device once, the link owns exactly the listed online devices
  the table admitted, each routed over the listed chain; what it owned before and did not win again
  is unreachable, and every other device keeps its entry.\<close>

theorem snapshot_exact:
  assumes "registry_inv max_hops r" "unat (r_sequence r) + length ds < 2 ^ 64" "distinct (map ad_id ds)"
    and "r' = apply_announcement max_hops l h now ds r"
  shows "{x. owned_by r' l x} = offered max_hops r ds \<and>
    (\<forall>d \<in> set ds. ad_online d \<and> admits max_hops r d \<longrightarrow> route r' (ad_id d) = Some (Via h (ad_via d))) \<and>
    (\<forall>x. x \<notin> offered max_hops r ds \<longrightarrow>
       map_of (r_entries r') x = (if owned_by r l x then None else map_of (r_entries r) x))"
  using apply_announcement_spec(2,3,4) [OF assms] by blast

theorem snapshot_exact_witness:
  "{x. owned_by (apply_announcement 8 ''link'' (dp_handle sample_link) 30 [] sample_routed) ''link'' x} = {}"
  using snapshot_exact [OF sample_routed_inv _ _ refl, of "[]"]
  by (simp add: sample_routed_sequence offered_def)

text \<open>A snapshot publishes no withdrawal for a device the link still offers, so a device in two
  consecutive snapshots does not flicker for the relays further up.\<close>

lemma snapshot_no_flicker:
  assumes "registry_inv max_hops r" "unat (r_sequence r) + length ds < 2 ^ 64" "distinct (map ad_id ds)"
    and "r' = apply_announcement max_hops l h now ds r" "owned_by r' l x"
  shows "Offline x \<notin> set (drop (length (r_published r)) (r_published r'))"
  using apply_announcement_spec(5) [OF assms(1-4), of x] apply_announcement_spec(2) [OF assms(1-4), of x]
    assms(5) by auto

theorem snapshot_no_flicker_witness:
  "Offline ''far'' \<notin> set (drop (length (r_published sample_routed))
     (r_published (apply_announcement 8 ''link'' (dp_handle sample_link) 30 [sample_device] sample_routed)))"
proof (rule snapshot_no_flicker [OF sample_routed_inv _ _ refl])
  have "admits 8 sample_routed sample_device"
    by (simp add: admits_def sample_routed_relay route_def sample_routed_entries
        sample_device_def announced_entry_def is_announcement_routable_def)
  then have "''far'' \<in> offered 8 sample_routed [sample_device]"
    unfolding offered_def by (intro image_eqI [of _ _ sample_device]) (simp_all add: sample_device_def)
  then show "owned_by (apply_announcement 8 ''link'' (dp_handle sample_link) 30 [sample_device] sample_routed)
      ''link'' ''far''"
    using apply_announcement_spec(2) [OF sample_routed_inv _ _ refl, of "[sample_device]"]
    by (simp add: sample_routed_sequence)
qed (simp_all add: sample_routed_sequence)

text \<open>But a device that stays in the snapshot with a chain that grew longer is not updated: the
  snapshot itself takes it offline.\<close>

lemma snapshot_drops_longer_chain:
  assumes "registry_inv max_hops r" "unat (r_sequence r) + length ds < 2 ^ 64" "distinct (map ad_id ds)"
    and "owned_by r l (ad_id d)" "d \<in> set ds"
    and "route r (ad_id d) = Some (Via h0 hops)" "length hops < length (ad_via d)"
  shows "\<not> is_online (apply_announcement max_hops l h now ds r) (ad_id d)"
proof -
  have "\<not> admits max_hops r d" using assms(6,7) by (simp add: admits_def)
  then have "ad_id d \<notin> offered max_hops r ds"
    using assms(3,5) by (auto simp: offered_def dest: inj_onD [OF distinct_map [THEN iffD1, THEN conjunct2]])
  from apply_announcement_spec(3) [OF assms(1-3) refl this] assms(4) show ?thesis
    by (simp add: is_online_def)
qed

theorem snapshot_drops_longer_chain_witness:
  "is_online sample_routed ''far'' \<and>
   \<not> is_online (apply_announcement 8 ''link'' (dp_handle sample_link) 30
        [sample_device\<lparr>ad_via := [''B'', ''C'']\<rparr>] sample_routed) ''far''"
  using snapshot_drops_longer_chain [OF sample_routed_inv, of "[sample_device\<lparr>ad_via := [''B'', ''C'']\<rparr>]"
      "''link''" "sample_device\<lparr>ad_via := [''B'', ''C'']\<rparr>" "dp_handle sample_link" "[''B'']"
      "dp_handle sample_link" 30]
  by (simp add: sample_routed_sequence owned_by_def route_def sample_routed_entries
      announced_entry_def sample_device_def is_online_def)

text \<open>A device withdrawn by the link that owns it is unreachable but remembered with its name; a
  withdrawal by anyone else changes nothing.\<close>

lemma withdrawal_remembers:
  assumes "r' = withdraw_device l d now r"
  shows "(owned_by r l d \<longrightarrow> \<not> is_online r' d \<and>
      (\<exists>e. map_of (r_entries r) d = Some e \<and>
        last_known r' d = Some \<lparr>kd_name = od_name (e_device e), kd_last_seen_at = now\<rparr>)) \<and>
    (\<not> owned_by r l d \<longrightarrow> r' = r) \<and> (\<forall>x. x \<noteq> d \<longrightarrow> route r' x = route r x \<and> last_known r' x = last_known r x)"
  unfolding assms
  by (auto simp: withdraw_device_def withdraw_locked_def owned_by_def is_online_def last_known_def
      route_def publish_def Let_def split: option.splits if_splits)

theorem withdrawal_remembers_witness:
  "last_known (withdraw_device ''link'' ''far'' 40 sample_routed) ''far''
     = Some \<lparr>kd_name = ''Office'', kd_last_seen_at = 40\<rparr>"
  using withdrawal_remembers [OF refl, of sample_routed "''link''" "''far''" 40]
  by (simp add: owned_by_def sample_routed_entries announced_entry_def sample_device_def)

text \<open>The table does not ask whether the announcing link is still attached: an announcement that a
  displaced tunnel of a link delivers after the link is gone is routed, and no clean-up of that link
  will ever remove it.\<close>

lemma orphaned_announcement_survives:
  assumes "registry_inv max_hops r" "\<not> is_online r l" "admits max_hops r d" "ad_id d \<noteq> l"
  shows "let r' = snd (announce_device max_hops l h now d r)
    in route r' (ad_id d) = Some (Via h (ad_via d)) \<and> (\<forall>serial. disconnect l serial r' = (False, r'))"
proof -
  have "\<not> holds_tunnel (snd (announce_device max_hops l h now d r)) l serial" for serial
    using assms by (simp add: holds_tunnel_def announce_device_accepts is_online_def)
  then show ?thesis
    using assms by (simp add: Let_def disconnect_stale route_def announce_device_accepts
        announced_entry_def)
qed

theorem orphaned_announcement_survives_witness:
  "route (snd (announce_device 8 ''gone'' (dp_handle sample_link) 20 sample_device sample_table)) ''far''
     = Some (Via (dp_handle sample_link) [''B''])"
proof -
  have "\<not> is_online sample_table ''gone''"
    by (simp add: is_online_def sample_table_def sample_defs Let_def)
  from orphaned_announcement_survives [OF sample_table_inv this sample_admits] show ?thesis
    by (simp add: Let_def sample_device_def)
qed

end
