(* ===== verification/Database.thy ===== *)
theory Database
  imports Relay_Prelude Relay_Frames
begin

text \<open>
  The SQLite store (\<^verbatim>\<open>src/db/*.rs\<close>, schema \<^verbatim>\<open>migrations/0001_initial.sql\<close>). A table is the list of its
  rows in insertion order, with the columns as stored: enumerations are text and are parsed when a row
  is read. A statement runs under the connection's mutex and is atomic; it may fail, in which case it
  changes nothing. Which statements fail, what the clock says and which random identifiers are drawn is
  the environment's choice: \<open>d_fail\<close>, \<open>d_clock\<close> and \<open>d_random\<close> give the outcome of the n-th statement,
  clock reading and draw, and the theorems quantify over them. A method of \<^verbatim>\<open>Database\<close> is a function on
  the database that returns the Rust \<^verbatim>\<open>Result\<close> and the database afterwards. Unique columns and the
  foreign key from devices to users are enforced as SQLite does; equal sort keys keep insertion order.
  Timestamps are milliseconds as \<^typ>\<open>int\<close>; no sum of them approaches the 64-bit limit.
\<close>

section \<open>Errors and rows\<close>

datatype sqlite_failure = ConstraintViolation | OtherFailure

datatype database_error =
    Sqlite sqlite_failure
  | RandomError string
  | UnknownValue string string
  | UsernameTaken

datatype user_role = Admin | User

fun role_str :: "user_role \<Rightarrow> string" where
  "role_str Admin = ''admin''"
| "role_str User = ''user''"

fun is_admin :: "user_role \<Rightarrow> bool" where
  "is_admin Admin = True"
| "is_admin User = False"

definition parse_role :: "string \<Rightarrow> database_error + user_role" where
  "parse_role value =
     (if value = ''admin'' then Inr Admin
      else if value = ''user'' then Inr User
      else Inl (UnknownValue ''users.role'' value))"

record user_record =
  u_id :: string
  u_username :: string
  u_password_hash :: string
  u_role :: user_role
  u_disabled :: bool
  u_created_at :: int
  u_last_login_at :: "int option"

record user_row =
  uw_id :: string
  uw_username :: string
  uw_password_hash :: string
  uw_role :: string
  uw_disabled :: int
  uw_created_at :: int
  uw_last_login_at :: "int option"

record user_update =
  uu_disabled :: "bool option"
  uu_role :: "user_role option"
  uu_password_hash :: "string option"

definition user_update_is_empty :: "user_update \<Rightarrow> bool" where
  "user_update_is_empty u \<longleftrightarrow> uu_disabled u = None \<and> uu_role u = None \<and> uu_password_hash u = None"

definition no_user_update :: user_update where
  "no_user_update = \<lparr>uu_disabled = None, uu_role = None, uu_password_hash = None\<rparr>"

text \<open>\<^verbatim>\<open>optional_text\<close>: a blank text reads as absent.\<close>

definition optional_text :: "string option \<Rightarrow> string option" where
  "optional_text v = (case v of Some t \<Rightarrow> if trim t = [] then None else Some t | None \<Rightarrow> None)"

fun device_kind_label :: "device_kind \<Rightarrow> string" where
  "device_kind_label Desktop = ''desktop''"
| "device_kind_label Relay = ''relay''"

definition parse_device_kind :: "string \<Rightarrow> database_error + device_kind" where
  "parse_device_kind value =
     (if value = ''desktop'' then Inr Desktop
      else if value = ''relay'' then Inr Relay
      else Inl (UnknownValue ''devices.kind'' value))"

datatype device_access = Public | RelayLogin

fun access_str :: "device_access \<Rightarrow> string" where
  "access_str Public = ''public''"
| "access_str RelayLogin = ''relay-login''"

fun requires_console_session :: "device_access \<Rightarrow> bool" where
  "requires_console_session RelayLogin = True"
| "requires_console_session Public = False"

definition device_access_from_str :: "string \<Rightarrow> device_access option" where
  "device_access_from_str value =
     (if trim value = ''public'' then Some Public
      else if trim value = ''relay-login'' then Some RelayLogin
      else None)"

record device_record =
  d_id :: string
  d_kind :: device_kind
  d_name :: string
  d_owner_user_id :: "string option"
  d_secret_hash :: string
  d_note :: "string option"
  d_created_at :: int
  d_revoked_at :: "int option"
  d_last_seen_at :: "int option"
  d_last_ip :: "string option"
  d_last_version :: "string option"
  d_access :: device_access

definition is_revoked :: "device_record \<Rightarrow> bool" where
  "is_revoked d \<longleftrightarrow> d_revoked_at d \<noteq> None"

definition is_reachable_by :: "device_record \<Rightarrow> string \<Rightarrow> bool \<Rightarrow> bool" where
  "is_reachable_by d user_id admin \<longleftrightarrow> admin \<or> d_owner_user_id d = Some user_id"

record device_row =
  dw_id :: string
  dw_kind :: string
  dw_name :: string
  dw_owner_user_id :: "string option"
  dw_secret_hash :: string
  dw_note :: "string option"
  dw_created_at :: int
  dw_revoked_at :: "int option"
  dw_last_seen_at :: "int option"
  dw_last_ip :: "string option"
  dw_last_version :: "string option"
  dw_access :: string

record device_update =
  du_name :: "string option"
  du_note :: "string option"
  du_access :: "device_access option"

definition device_update_is_empty :: "device_update \<Rightarrow> bool" where
  "device_update_is_empty u \<longleftrightarrow> du_name u = None \<and> du_note u = None \<and> du_access u = None"

record new_device =
  nd_id :: string
  nd_kind :: device_kind
  nd_name :: string
  nd_owner_user_id :: "string option"
  nd_secret_hash :: string
  nd_note :: "string option"

datatype enrollment_status = Pending | Used | Expired | Cancelled

record enrollment_record =
  en_id :: string
  en_code_hash :: string
  en_kind :: device_kind
  en_owner_user_id :: "string option"
  en_created_by :: string
  en_note :: "string option"
  en_created_at :: int
  en_expires_at :: int
  en_used_at :: "int option"
  en_used_by_device_id :: "string option"
  en_cancelled_at :: "int option"

definition enrollment_status :: "enrollment_record \<Rightarrow> int \<Rightarrow> enrollment_status" where
  "enrollment_status e now =
     (if en_used_at e \<noteq> None then Used
      else if en_cancelled_at e \<noteq> None then Cancelled
      else if now \<ge> en_expires_at e then Expired
      else Pending)"

definition is_redeemable :: "enrollment_record \<Rightarrow> int \<Rightarrow> bool" where
  "is_redeemable e now \<longleftrightarrow> enrollment_status e now = Pending"

record enrollment_row =
  ew_id :: string
  ew_code_hash :: string
  ew_kind :: string
  ew_owner_user_id :: "string option"
  ew_created_by :: string
  ew_note :: "string option"
  ew_created_at :: int
  ew_expires_at :: int
  ew_used_at :: "int option"
  ew_used_by_device_id :: "string option"
  ew_cancelled_at :: "int option"

record new_enrollment =
  ne_code_hash :: string
  ne_kind :: device_kind
  ne_owner_user_id :: "string option"
  ne_created_by :: string
  ne_note :: "string option"
  ne_expires_at :: int

record session_record =
  s_id_hash :: string
  s_user_id :: string
  s_created_at :: int
  s_expires_at :: int
  s_ip :: "string option"

definition session_is_expired :: "session_record \<Rightarrow> int \<Rightarrow> bool" where
  "session_is_expired s now \<longleftrightarrow> now \<ge> s_expires_at s"

record audit_record =
  au_id :: int
  au_at :: int
  au_actor_kind :: string
  au_actor_id :: "string option"
  au_action :: string
  au_target_kind :: "string option"
  au_target_id :: "string option"
  au_ip :: "string option"
  au_detail :: "string option"

record audit_query =
  aq_limit :: u32
  aq_before_id :: "int option"
  aq_target_id :: "string option"

section \<open>The database and its statements\<close>

record database =
  d_settings :: "(string \<times> string \<times> int) list"
  d_users :: "user_row list"
  d_devices :: "device_row list"
  d_enrollments :: "enrollment_row list"
  d_sessions :: "session_record list"
  d_audit :: "audit_record list"
  d_audit_next :: int
  d_fail :: "nat \<Rightarrow> bool"
  d_stmts :: nat
  d_clock :: "nat \<Rightarrow> int"
  d_ticks :: nat
  d_random :: "nat \<Rightarrow> nat \<Rightarrow> string + string"
  d_draws :: nat

text \<open>The \<^verbatim>\<open>?\<close> operator: stop at an error, keeping what was changed so far.\<close>

definition bindE :: "('s \<Rightarrow> ('e + 'a) \<times> 's) \<Rightarrow> ('a \<Rightarrow> 's \<Rightarrow> ('e + 'b) \<times> 's) \<Rightarrow> 's \<Rightarrow> ('e + 'b) \<times> 's" where
  "bindE m f s = (case m s of (Inl e, s') \<Rightarrow> (Inl e, s') | (Inr x, s') \<Rightarrow> f x s')"

definition okE :: "'a \<Rightarrow> 's \<Rightarrow> ('e + 'a) \<times> 's" where
  "okE x s = (Inr x, s)"

definition errE :: "'e \<Rightarrow> 's \<Rightarrow> ('e + 'a) \<times> 's" where
  "errE e s = (Inl e, s)"

definition statement ::
  "(database \<Rightarrow> sqlite_failure + 'a \<times> database) \<Rightarrow> database \<Rightarrow> (database_error + 'a) \<times> database" where
  "statement f db =
     (let db1 = db\<lparr>d_stmts := d_stmts db + 1\<rparr>
      in if d_fail db (d_stmts db) then (Inl (Sqlite OtherFailure), db1)
         else (case f db1 of
                 Inl e \<Rightarrow> (Inl (Sqlite e), db1)
               | Inr (x, db2) \<Rightarrow> (Inr x, db2)))"

definition query :: "(database \<Rightarrow> 'a) \<Rightarrow> database \<Rightarrow> (database_error + 'a) \<times> database" where
  "query f = statement (\<lambda>db. Inr (f db, db))"

definition now_millis :: "database \<Rightarrow> int \<times> database" where
  "now_millis db = (d_clock db (d_ticks db), db\<lparr>d_ticks := d_ticks db + 1\<rparr>)"

definition random_base64url :: "nat \<Rightarrow> database \<Rightarrow> (string + string) \<times> database" where
  "random_base64url count db = (d_random db (d_draws db) count, db\<lparr>d_draws := d_draws db + 1\<rparr>)"

definition identifier_bytes :: nat where
  "identifier_bytes = 16"

definition new_identifier :: "database \<Rightarrow> (database_error + string) \<times> database" where
  "new_identifier db =
     (case random_base64url identifier_bytes db of
        (Inl e, db1) \<Rightarrow> (Inl (RandomError e), db1)
      | (Inr x, db1) \<Rightarrow> (Inr x, db1))"

text \<open>Every row is parsed; the first that cannot be is the error.\<close>

fun collect :: "('r \<Rightarrow> 'e + 'a) \<Rightarrow> 'r list \<Rightarrow> 'e + 'a list" where
  "collect f [] = Inr []"
| "collect f (r # rs) =
     (case f r of
        Inl e \<Rightarrow> Inl e
      | Inr x \<Rightarrow> (case collect f rs of Inl e \<Rightarrow> Inl e | Inr xs \<Rightarrow> Inr (x # xs)))"

definition flatten :: "('e + ('e + 'a)) \<times> 's \<Rightarrow> ('e + 'a) \<times> 's" where
  "flatten r = (case r of (Inl e, s) \<Rightarrow> (Inl e, s) | (Inr x, s) \<Rightarrow> (x, s))"

text \<open>The first row that matches, parsed.\<close>

definition first_row :: "('r \<Rightarrow> 'e + 'a) \<Rightarrow> ('r \<Rightarrow> bool) \<Rightarrow> 'r list \<Rightarrow> 'e + 'a option" where
  "first_row f P rs =
     (case find P rs of
        None \<Rightarrow> Inr None
      | Some r \<Rightarrow> (case f r of Inl e \<Rightarrow> Inl e | Inr x \<Rightarrow> Inr (Some x)))"

text \<open>\<^verbatim>\<open>UPDATE ... WHERE\<close>: the rows afterwards; the number of changed rows is the number of matches.\<close>

definition update_where :: "('r \<Rightarrow> bool) \<Rightarrow> ('r \<Rightarrow> 'r) \<Rightarrow> 'r list \<Rightarrow> 'r list" where
  "update_where P f = map (\<lambda>r. if P r then f r else r)"

definition with_now :: "(int \<Rightarrow> database \<Rightarrow> 'r \<times> database) \<Rightarrow> database \<Rightarrow> 'r \<times> database" where
  "with_now f db = (let (now, db1) = now_millis db in f now db1)"

section \<open>Settings\<close>

definition read_setting :: "string \<Rightarrow> database \<Rightarrow> (database_error + string option) \<times> database" where
  "read_setting key = query (\<lambda>db. map_option fst (map_of (d_settings db) key))"

definition write_setting :: "string \<Rightarrow> string \<Rightarrow> database \<Rightarrow> (database_error + unit) \<times> database" where
  "write_setting key value = with_now (\<lambda>now. statement (\<lambda>db.
     Inr ((), db\<lparr>d_settings := AList.update key (value, now) (d_settings db)\<rparr>)))"

definition delete_setting :: "string \<Rightarrow> database \<Rightarrow> (database_error + unit) \<times> database" where
  "delete_setting key = statement (\<lambda>db.
     Inr ((), db\<lparr>d_settings := AList.delete key (d_settings db)\<rparr>))"

definition setting_relay_id :: string where
  "setting_relay_id = ''relay_id''"

definition setting_public_url :: string where
  "setting_public_url = ''public_url''"

definition setting_upstream :: string where
  "setting_upstream = ''upstream''"

lemma setting_keys [simp]: "setting_upstream \<noteq> setting_relay_id" "setting_public_url \<noteq> setting_relay_id"
  "setting_relay_id \<noteq> setting_upstream" "setting_relay_id \<noteq> setting_public_url"
  by (simp_all add: setting_relay_id_def setting_public_url_def setting_upstream_def)

definition read_or_initialize_setting ::
  "string \<Rightarrow> (database \<Rightarrow> (database_error + string) \<times> database) \<Rightarrow> database
     \<Rightarrow> (database_error + string) \<times> database" where
  "read_or_initialize_setting key fallback =
     bindE (read_setting key) (\<lambda>stored.
       case stored of
         Some value \<Rightarrow> okE value
       | None \<Rightarrow> bindE fallback (\<lambda>value. bindE (write_setting key value) (\<lambda>_. okE value)))"

section \<open>Users\<close>

definition read_user_row :: "user_row \<Rightarrow> database_error + user_record" where
  "read_user_row r =
     (case parse_role (uw_role r) of
        Inl e \<Rightarrow> Inl e
      | Inr role \<Rightarrow> Inr
          \<lparr>u_id = uw_id r, u_username = uw_username r, u_password_hash = uw_password_hash r,
           u_role = role, u_disabled = (uw_disabled r \<noteq> 0), u_created_at = uw_created_at r,
           u_last_login_at = uw_last_login_at r\<rparr>)"

definition map_username_conflict :: "database_error \<Rightarrow> database_error" where
  "map_username_conflict e = (if e = Sqlite ConstraintViolation then UsernameTaken else e)"

definition map_err :: "('e \<Rightarrow> 'f) \<Rightarrow> ('s \<Rightarrow> ('e + 'a) \<times> 's) \<Rightarrow> 's \<Rightarrow> ('f + 'a) \<times> 's" where
  "map_err f m s = (case m s of (Inl e, s') \<Rightarrow> (Inl (f e), s') | (Inr x, s') \<Rightarrow> (Inr x, s'))"

definition count_users :: "database \<Rightarrow> (database_error + nat) \<times> database" where
  "count_users = query (\<lambda>db. length (d_users db))"

definition insert_user :: "user_row \<Rightarrow> database \<Rightarrow> (database_error + unit) \<times> database" where
  "insert_user r = statement (\<lambda>db.
     if list_ex (\<lambda>u. uw_id u = uw_id r \<or> uw_username u = uw_username r) (d_users db)
     then Inl ConstraintViolation
     else Inr ((), db\<lparr>d_users := d_users db @ [r]\<rparr>))"

definition create_user ::
  "string \<Rightarrow> string \<Rightarrow> user_role \<Rightarrow> database \<Rightarrow> (database_error + user_record) \<times> database" where
  "create_user username password_hash role =
     bindE new_identifier (\<lambda>ident. with_now (\<lambda>now.
       bindE (map_err map_username_conflict (insert_user
           \<lparr>uw_id = ident, uw_username = username, uw_password_hash = password_hash,
            uw_role = role_str role, uw_disabled = 0, uw_created_at = now, uw_last_login_at = None\<rparr>))
         (\<lambda>_. okE \<lparr>u_id = ident, u_username = username, u_password_hash = password_hash, u_role = role,
            u_disabled = False, u_created_at = now, u_last_login_at = None\<rparr>)))"

definition find_user :: "string \<Rightarrow> database \<Rightarrow> (database_error + user_record option) \<times> database" where
  "find_user ident db = flatten (query (\<lambda>db. first_row read_user_row (\<lambda>r. uw_id r = ident) (d_users db)) db)"

definition find_user_by_username ::
  "string \<Rightarrow> database \<Rightarrow> (database_error + user_record option) \<times> database" where
  "find_user_by_username username db =
     flatten (query (\<lambda>db. first_row read_user_row (\<lambda>r. uw_username r = username) (d_users db)) db)"

definition list_users :: "database \<Rightarrow> (database_error + user_record list) \<times> database" where
  "list_users db = flatten (query (\<lambda>db. collect read_user_row (sort_key uw_created_at (d_users db))) db)"

definition update_users ::
  "(user_row \<Rightarrow> bool) \<Rightarrow> (user_row \<Rightarrow> user_row) \<Rightarrow> database \<Rightarrow> (database_error + unit) \<times> database" where
  "update_users P f = statement (\<lambda>db. Inr ((), db\<lparr>d_users := update_where P f (d_users db)\<rparr>))"

definition when_some :: "'a option \<Rightarrow> ('a \<Rightarrow> 's \<Rightarrow> ('e + unit) \<times> 's) \<Rightarrow> 's \<Rightarrow> ('e + unit) \<times> 's" where
  "when_some v f = (case v of Some x \<Rightarrow> f x | None \<Rightarrow> okE ())"

definition update_user :: "string \<Rightarrow> user_update \<Rightarrow> database \<Rightarrow> (database_error + unit) \<times> database" where
  "update_user ident u =
     bindE (when_some (uu_disabled u) (\<lambda>disabled.
         update_users (\<lambda>r. uw_id r = ident) (\<lambda>r. r\<lparr>uw_disabled := if disabled then 1 else 0\<rparr>))) (\<lambda>_.
     bindE (when_some (uu_role u) (\<lambda>role.
         update_users (\<lambda>r. uw_id r = ident) (\<lambda>r. r\<lparr>uw_role := role_str role\<rparr>))) (\<lambda>_.
     when_some (uu_password_hash u) (\<lambda>password_hash.
         update_users (\<lambda>r. uw_id r = ident) (\<lambda>r. r\<lparr>uw_password_hash := password_hash\<rparr>))))"

definition delete_user :: "string \<Rightarrow> database \<Rightarrow> (database_error + unit) \<times> database" where
  "delete_user ident = statement (\<lambda>db.
     if list_ex (\<lambda>r. uw_id r = ident) (d_users db) \<and> list_ex (\<lambda>d. dw_owner_user_id d = Some ident) (d_devices db)
     then Inl ConstraintViolation
     else Inr ((), db\<lparr>d_users := filter (\<lambda>r. uw_id r \<noteq> ident) (d_users db)\<rparr>))"

definition record_user_login :: "string \<Rightarrow> database \<Rightarrow> (database_error + unit) \<times> database" where
  "record_user_login ident = with_now (\<lambda>now.
     update_users (\<lambda>r. uw_id r = ident) (\<lambda>r. r\<lparr>uw_last_login_at := Some now\<rparr>))"

section \<open>Devices\<close>

definition parse_device_row :: "string \<Rightarrow> string \<Rightarrow> database_error + device_kind \<times> device_access" where
  "parse_device_row kind access =
     (case parse_device_kind kind of
        Inl e \<Rightarrow> Inl e
      | Inr k \<Rightarrow>
          (case device_access_from_str access of
             None \<Rightarrow> Inl (UnknownValue ''devices.access'' access)
           | Some a \<Rightarrow> Inr (k, a)))"

definition read_device_row :: "device_row \<Rightarrow> database_error + device_record" where
  "read_device_row r =
     (case parse_device_row (dw_kind r) (dw_access r) of
        Inl e \<Rightarrow> Inl e
      | Inr (kind, access) \<Rightarrow> Inr
          \<lparr>d_id = dw_id r, d_kind = kind, d_name = dw_name r, d_owner_user_id = dw_owner_user_id r,
           d_secret_hash = dw_secret_hash r, d_note = optional_text (dw_note r),
           d_created_at = dw_created_at r, d_revoked_at = dw_revoked_at r,
           d_last_seen_at = dw_last_seen_at r, d_last_ip = optional_text (dw_last_ip r),
           d_last_version = optional_text (dw_last_version r), d_access = access\<rparr>)"

definition insert_device :: "device_row \<Rightarrow> database \<Rightarrow> (database_error + unit) \<times> database" where
  "insert_device r = statement (\<lambda>db.
     if list_ex (\<lambda>d. dw_id d = dw_id r) (d_devices db) then Inl ConstraintViolation
     else if (case dw_owner_user_id r of
                Some owner \<Rightarrow> \<not> list_ex (\<lambda>u. uw_id u = owner) (d_users db) | None \<Rightarrow> False)
     then Inl ConstraintViolation
     else Inr ((), db\<lparr>d_devices := d_devices db @ [r]\<rparr>))"

definition create_device :: "new_device \<Rightarrow> database \<Rightarrow> (database_error + device_record) \<times> database" where
  "create_device n = with_now (\<lambda>now.
     bindE (insert_device
         \<lparr>dw_id = nd_id n, dw_kind = device_kind_label (nd_kind n), dw_name = nd_name n,
          dw_owner_user_id = nd_owner_user_id n, dw_secret_hash = nd_secret_hash n, dw_note = nd_note n,
          dw_created_at = now, dw_revoked_at = None, dw_last_seen_at = None, dw_last_ip = None,
          dw_last_version = None, dw_access = ''public''\<rparr>)
       (\<lambda>_. okE
         \<lparr>d_id = nd_id n, d_kind = nd_kind n, d_name = nd_name n, d_owner_user_id = nd_owner_user_id n,
          d_secret_hash = nd_secret_hash n, d_note = nd_note n, d_created_at = now, d_revoked_at = None,
          d_last_seen_at = None, d_last_ip = None, d_last_version = None, d_access = Public\<rparr>))"

definition find_device :: "string \<Rightarrow> database \<Rightarrow> (database_error + device_record option) \<times> database" where
  "find_device ident db =
     flatten (query (\<lambda>db. first_row read_device_row (\<lambda>r. dw_id r = ident) (d_devices db)) db)"

definition query_devices ::
  "(device_row \<Rightarrow> bool) \<Rightarrow> database \<Rightarrow> (database_error + device_record list) \<times> database" where
  "query_devices P db =
     flatten (query (\<lambda>db.
       collect read_device_row (sort_key (\<lambda>r. - dw_created_at r) (filter P (d_devices db)))) db)"

definition list_devices :: "database \<Rightarrow> (database_error + device_record list) \<times> database" where
  "list_devices = query_devices (\<lambda>r. True)"

definition list_devices_owned_by ::
  "string \<Rightarrow> database \<Rightarrow> (database_error + device_record list) \<times> database" where
  "list_devices_owned_by owner = query_devices (\<lambda>r. dw_owner_user_id r = Some owner)"

definition update_devices ::
  "(device_row \<Rightarrow> bool) \<Rightarrow> (device_row \<Rightarrow> device_row) \<Rightarrow> database \<Rightarrow> (database_error + bool) \<times> database" where
  "update_devices P f = statement (\<lambda>db.
     Inr (list_ex P (d_devices db), db\<lparr>d_devices := update_where P f (d_devices db)\<rparr>))"

definition discard :: "('s \<Rightarrow> ('e + 'a) \<times> 's) \<Rightarrow> 's \<Rightarrow> ('e + unit) \<times> 's" where
  "discard m = bindE m (\<lambda>_. okE ())"

definition update_device :: "string \<Rightarrow> device_update \<Rightarrow> database \<Rightarrow> (database_error + unit) \<times> database" where
  "update_device ident u =
     bindE (when_some (du_name u) (\<lambda>name.
         discard (update_devices (\<lambda>r. dw_id r = ident) (\<lambda>r. r\<lparr>dw_name := name\<rparr>)))) (\<lambda>_.
     bindE (when_some (du_note u) (\<lambda>note.
         discard (update_devices (\<lambda>r. dw_id r = ident) (\<lambda>r. r\<lparr>dw_note := optional_text (Some note)\<rparr>)))) (\<lambda>_.
     when_some (du_access u) (\<lambda>access.
         discard (update_devices (\<lambda>r. dw_id r = ident) (\<lambda>r. r\<lparr>dw_access := access_str access\<rparr>)))))"

definition revoke_device :: "string \<Rightarrow> database \<Rightarrow> (database_error + bool) \<times> database" where
  "revoke_device ident = with_now (\<lambda>now.
     update_devices (\<lambda>r. dw_id r = ident \<and> dw_revoked_at r = None) (\<lambda>r. r\<lparr>dw_revoked_at := Some now\<rparr>))"

fun for_each :: "('a \<Rightarrow> 's \<Rightarrow> ('e + unit) \<times> 's) \<Rightarrow> 'a list \<Rightarrow> 's \<Rightarrow> ('e + unit) \<times> 's" where
  "for_each f [] = okE ()"
| "for_each f (x # xs) = bindE (f x) (\<lambda>_. for_each f xs)"

definition revoke_devices_owned_by ::
  "string \<Rightarrow> database \<Rightarrow> (database_error + string list) \<times> database" where
  "revoke_devices_owned_by owner =
     bindE (list_devices_owned_by owner) (\<lambda>devices.
       let revoked = map d_id (filter (\<lambda>d. \<not> is_revoked d) devices)
       in bindE (for_each (\<lambda>ident. discard (revoke_device ident)) revoked) (\<lambda>_. okE revoked))"

definition disown_devices_of :: "string \<Rightarrow> database \<Rightarrow> (database_error + unit) \<times> database" where
  "disown_devices_of owner = discard (update_devices
     (\<lambda>r. dw_owner_user_id r = Some owner) (\<lambda>r. r\<lparr>dw_owner_user_id := None\<rparr>))"

definition record_device_connection ::
  "string \<Rightarrow> string \<Rightarrow> string \<Rightarrow> database \<Rightarrow> (database_error + unit) \<times> database" where
  "record_device_connection ident ip version = with_now (\<lambda>now. discard (update_devices
     (\<lambda>r. dw_id r = ident)
     (\<lambda>r. r\<lparr>dw_last_seen_at := Some now, dw_last_ip := Some ip, dw_last_version := Some version\<rparr>)))"

definition record_device_disconnection :: "string \<Rightarrow> database \<Rightarrow> (database_error + unit) \<times> database" where
  "record_device_disconnection ident = with_now (\<lambda>now. discard (update_devices
     (\<lambda>r. dw_id r = ident) (\<lambda>r. r\<lparr>dw_last_seen_at := Some now\<rparr>)))"

section \<open>Enrollment codes\<close>

definition parse_enrollment_kind :: "string \<Rightarrow> database_error + device_kind" where
  "parse_enrollment_kind value =
     (if value = ''desktop'' then Inr Desktop
      else if value = ''relay'' then Inr Relay
      else Inl (UnknownValue ''enrollment_codes.kind'' value))"

definition read_enrollment_row :: "enrollment_row \<Rightarrow> database_error + enrollment_record" where
  "read_enrollment_row r =
     (case parse_enrollment_kind (ew_kind r) of
        Inl e \<Rightarrow> Inl e
      | Inr kind \<Rightarrow> Inr
          \<lparr>en_id = ew_id r, en_code_hash = ew_code_hash r, en_kind = kind,
           en_owner_user_id = ew_owner_user_id r, en_created_by = ew_created_by r,
           en_note = optional_text (ew_note r), en_created_at = ew_created_at r,
           en_expires_at = ew_expires_at r, en_used_at = ew_used_at r,
           en_used_by_device_id = ew_used_by_device_id r, en_cancelled_at = ew_cancelled_at r\<rparr>)"

definition insert_enrollment :: "enrollment_row \<Rightarrow> database \<Rightarrow> (database_error + unit) \<times> database" where
  "insert_enrollment r = statement (\<lambda>db.
     if list_ex (\<lambda>e. ew_id e = ew_id r \<or> ew_code_hash e = ew_code_hash r) (d_enrollments db)
     then Inl ConstraintViolation
     else Inr ((), db\<lparr>d_enrollments := d_enrollments db @ [r]\<rparr>))"

definition create_enrollment ::
  "new_enrollment \<Rightarrow> database \<Rightarrow> (database_error + enrollment_record) \<times> database" where
  "create_enrollment n =
     bindE new_identifier (\<lambda>ident. with_now (\<lambda>now.
       bindE (insert_enrollment
           \<lparr>ew_id = ident, ew_code_hash = ne_code_hash n, ew_kind = device_kind_label (ne_kind n),
            ew_owner_user_id = ne_owner_user_id n, ew_created_by = ne_created_by n, ew_note = ne_note n,
            ew_created_at = now, ew_expires_at = ne_expires_at n, ew_used_at = None,
            ew_used_by_device_id = None, ew_cancelled_at = None\<rparr>)
         (\<lambda>_. okE
           \<lparr>en_id = ident, en_code_hash = ne_code_hash n, en_kind = ne_kind n,
            en_owner_user_id = ne_owner_user_id n, en_created_by = ne_created_by n, en_note = ne_note n,
            en_created_at = now, en_expires_at = ne_expires_at n, en_used_at = None,
            en_used_by_device_id = None, en_cancelled_at = None\<rparr>)))"

definition find_enrollment ::
  "string \<Rightarrow> database \<Rightarrow> (database_error + enrollment_record option) \<times> database" where
  "find_enrollment ident db =
     flatten (query (\<lambda>db. first_row read_enrollment_row (\<lambda>r. ew_id r = ident) (d_enrollments db)) db)"

definition find_enrollment_by_hash ::
  "string \<Rightarrow> database \<Rightarrow> (database_error + enrollment_record option) \<times> database" where
  "find_enrollment_by_hash code_hash db =
     flatten (query (\<lambda>db. first_row read_enrollment_row (\<lambda>r. ew_code_hash r = code_hash) (d_enrollments db)) db)"

definition list_enrollments :: "database \<Rightarrow> (database_error + enrollment_record list) \<times> database" where
  "list_enrollments db =
     flatten (query (\<lambda>db. collect read_enrollment_row (sort_key (\<lambda>r. - ew_created_at r) (d_enrollments db))) db)"

definition update_enrollments ::
  "(enrollment_row \<Rightarrow> bool) \<Rightarrow> (enrollment_row \<Rightarrow> enrollment_row) \<Rightarrow> database
     \<Rightarrow> (database_error + bool) \<times> database" where
  "update_enrollments P f = statement (\<lambda>db.
     Inr (list_ex P (d_enrollments db), db\<lparr>d_enrollments := update_where P f (d_enrollments db)\<rparr>))"

definition mark_enrollment_used ::
  "string \<Rightarrow> string \<Rightarrow> database \<Rightarrow> (database_error + bool) \<times> database" where
  "mark_enrollment_used ident device_id = with_now (\<lambda>now. update_enrollments
     (\<lambda>r. ew_id r = ident \<and> ew_used_at r = None \<and> ew_cancelled_at r = None)
     (\<lambda>r. r\<lparr>ew_used_at := Some now, ew_used_by_device_id := Some device_id\<rparr>))"

definition cancel_enrollment :: "string \<Rightarrow> database \<Rightarrow> (database_error + bool) \<times> database" where
  "cancel_enrollment ident = with_now (\<lambda>now. update_enrollments
     (\<lambda>r. ew_id r = ident \<and> ew_used_at r = None \<and> ew_cancelled_at r = None)
     (\<lambda>r. r\<lparr>ew_cancelled_at := Some now\<rparr>))"

section \<open>Sessions\<close>

definition read_session_row :: "session_record \<Rightarrow> session_record" where
  "read_session_row r = r\<lparr>s_ip := optional_text (s_ip r)\<rparr>"

definition insert_session :: "session_record \<Rightarrow> database \<Rightarrow> (database_error + unit) \<times> database" where
  "insert_session r = statement (\<lambda>db.
     if list_ex (\<lambda>s. s_id_hash s = s_id_hash r) (d_sessions db) then Inl ConstraintViolation
     else Inr ((), db\<lparr>d_sessions := d_sessions db @ [r]\<rparr>))"

definition find_session ::
  "string \<Rightarrow> database \<Rightarrow> (database_error + session_record option) \<times> database" where
  "find_session id_hash =
     query (\<lambda>db. map_option read_session_row (find (\<lambda>s. s_id_hash s = id_hash) (d_sessions db)))"

definition update_sessions :: "(session_record list \<Rightarrow> session_record list) \<Rightarrow> database
     \<Rightarrow> (database_error + unit) \<times> database" where
  "update_sessions f = statement (\<lambda>db. Inr ((), db\<lparr>d_sessions := f (d_sessions db)\<rparr>))"

definition extend_session :: "string \<Rightarrow> int \<Rightarrow> database \<Rightarrow> (database_error + unit) \<times> database" where
  "extend_session id_hash expires_at = update_sessions
     (update_where (\<lambda>s. s_id_hash s = id_hash) (\<lambda>s. s\<lparr>s_expires_at := expires_at\<rparr>))"

definition delete_session :: "string \<Rightarrow> database \<Rightarrow> (database_error + unit) \<times> database" where
  "delete_session id_hash = update_sessions (filter (\<lambda>s. s_id_hash s \<noteq> id_hash))"

definition delete_sessions_of_user :: "string \<Rightarrow> database \<Rightarrow> (database_error + unit) \<times> database" where
  "delete_sessions_of_user user_id = update_sessions (filter (\<lambda>s. s_user_id s \<noteq> user_id))"

definition delete_expired_sessions :: "int \<Rightarrow> database \<Rightarrow> (database_error + nat) \<times> database" where
  "delete_expired_sessions now = statement (\<lambda>db.
     Inr (length (filter (\<lambda>s. s_expires_at s \<le> now) (d_sessions db)),
          db\<lparr>d_sessions := filter (\<lambda>s. \<not> s_expires_at s \<le> now) (d_sessions db)\<rparr>))"

section \<open>Audit trail\<close>

definition max_audit_page :: u32 where
  "max_audit_page = 500"

definition read_audit_row :: "audit_record \<Rightarrow> audit_record" where
  "read_audit_row r =
     r\<lparr>au_actor_id := optional_text (au_actor_id r), au_target_kind := optional_text (au_target_kind r),
       au_target_id := optional_text (au_target_id r), au_ip := optional_text (au_ip r),
       au_detail := optional_text (au_detail r)\<rparr>"

definition write_audit :: "audit_record \<Rightarrow> database \<Rightarrow> (database_error + unit) \<times> database" where
  "write_audit r = statement (\<lambda>db.
     Inr ((), db\<lparr>d_audit := d_audit db @ [r\<lparr>au_id := d_audit_next db\<rparr>],
                d_audit_next := d_audit_next db + 1\<rparr>))"

definition list_audit :: "audit_query \<Rightarrow> database \<Rightarrow> (database_error + audit_record list) \<times> database" where
  "list_audit q =
     (let limit = min (max (aq_limit q) 1) max_audit_page
      in query (\<lambda>db. map read_audit_row (take (unat limit) (sort_key (\<lambda>r. - au_id r)
           (filter (\<lambda>r. (case aq_before_id q of None \<Rightarrow> True | Some before \<Rightarrow> au_id r < before) \<and>
                        (case aq_target_id q of None \<Rightarrow> True | Some target \<Rightarrow> au_target_id r = Some target))
             (d_audit db))))))"

end
