(* ===== verification/Database_Laws.thy ===== *)
theory Database_Laws
  imports Database
begin

text \<open>
  What the store promises: an interface for relations between the state before and after a program
  (\<open>step_relation\<close>, specialised to the database by \<open>db_relation\<close>) under which a composed program
  inherits what its statements keep, interpreted on the schema's invariant and on the permanence of
  history; and the properties of enrollment codes, sessions and the audit trail that rest on it.
\<close>

section \<open>Programs that respect a relation\<close>

locale step_relation =
  fixes R :: "'s \<Rightarrow> 's \<Rightarrow> bool"
  assumes R_refl: "R s s"
    and R_trans: "R s t \<Longrightarrow> R t u \<Longrightarrow> R s u"
begin

definition obeys :: "('s \<Rightarrow> 'r \<times> 's) \<Rightarrow> bool" where
  "obeys m \<longleftrightarrow> (\<forall>s. R s (snd (m s)))"

lemma obeysD: "obeys m \<Longrightarrow> m s = (x, s') \<Longrightarrow> R s s'"
  unfolding obeys_def by (metis snd_conv)

lemma obeys_ok: "obeys (okE x)" "obeys (errE e)"
  by (simp_all add: obeys_def okE_def errE_def R_refl)

lemma obeys_bind:
  assumes "obeys m" "\<And>x. obeys (f x)"
  shows "obeys (bindE m f)"
  unfolding obeys_def
proof
  fix s
  obtain r s' where m: "m s = (r, s')" by fastforce
  with assms(1) have "R s s'" by (rule obeysD)
  moreover have "R s' (snd (f x s'))" for x using assms(2) by (simp add: obeys_def)
  ultimately show "R s (snd (bindE m f s))" using m by (auto simp: bindE_def split: sum.splits intro: R_trans)
qed

lemma obeys_map_err: "obeys m \<Longrightarrow> obeys (map_err g m)"
  by (auto simp: obeys_def map_err_def split: prod.splits sum.splits) (metis snd_conv)+

lemma obeys_when_some: "(\<And>x. v = Some x \<Longrightarrow> obeys (f x)) \<Longrightarrow> obeys (when_some v f)"
  by (cases v) (simp_all add: when_some_def obeys_ok)

lemma obeys_for_each: "(\<And>x. obeys (f x)) \<Longrightarrow> obeys (for_each f xs)"
  by (induction xs) (simp_all add: obeys_ok obeys_bind)

lemma obeys_discard: "obeys m \<Longrightarrow> obeys (discard m)"
  by (simp add: discard_def obeys_bind obeys_ok)

lemma obeys_flatten: "obeys m \<Longrightarrow> obeys (\<lambda>s. flatten (m s))"
  by (auto simp: obeys_def flatten_def split: prod.splits sum.splits) (metis snd_conv)+

lemma obeys_fold: "(\<And>x s. R s (f x s)) \<Longrightarrow> R s (fold f xs s)"
proof (induction xs arbitrary: s)
  case (Cons x xs)
  then show ?case by (simp, metis R_trans)
qed (simp add: R_refl)

lemmas obeys_intros = obeys_ok obeys_bind obeys_map_err obeys_when_some obeys_for_each
  obeys_discard obeys_flatten

end

text \<open>On the database: reading the clock, drawing an identifier or counting a statement changes nothing
  the relation looks at.\<close>

locale db_relation = step_relation R for R :: "database \<Rightarrow> database \<Rightarrow> bool" +
  assumes R_env: "R db (db\<lparr>d_stmts := i\<rparr>)" "R db (db\<lparr>d_ticks := i\<rparr>)" "R db (db\<lparr>d_draws := i\<rparr>)"
begin

lemma obeys_statement:
  assumes "\<And>db x db'. f db = Inr (x, db') \<Longrightarrow> R db db'"
  shows "obeys (statement f)"
  unfolding obeys_def
proof
  fix db
  show "R db (snd (statement f db))"
    using R_env(1) assms
    by (auto simp: statement_def Let_def split: sum.splits prod.splits) (metis R_trans)
qed

lemma obeys_query: "obeys (query f)"
  unfolding query_def by (rule obeys_statement) (auto simp: R_refl)

lemma obeys_with_now: "(\<And>now. obeys (f now)) \<Longrightarrow> obeys (with_now f)"
  using R_env(2) R_trans unfolding obeys_def with_now_def now_millis_def Let_def by fastforce

lemma obeys_new_identifier: "obeys new_identifier"
  using R_env(3) by (simp add: obeys_def new_identifier_def random_base64url_def split: sum.splits)

lemma obeys_reads:
  "obeys (read_setting k)" "obeys count_users" "obeys (find_user i)"
  "obeys (find_user_by_username n)" "obeys list_users" "obeys (find_device i)"
  "obeys list_devices" "obeys (list_devices_owned_by own)" "obeys (find_enrollment i)"
  "obeys (find_enrollment_by_hash h)" "obeys list_enrollments" "obeys (find_session h)"
  "obeys (list_audit q)"
  by (simp_all add: read_setting_def count_users_def find_user_def [abs_def]
      find_user_by_username_def [abs_def] list_users_def [abs_def] find_device_def [abs_def]
      list_devices_def list_devices_owned_by_def query_devices_def [abs_def] find_enrollment_def [abs_def]
      find_enrollment_by_hash_def [abs_def] list_enrollments_def [abs_def] find_session_def list_audit_def
      Let_def obeys_query obeys_flatten)

lemmas obeys_db_intros = obeys_intros obeys_statement obeys_query obeys_with_now
  obeys_new_identifier obeys_reads

end

section \<open>The invariant of the schema\<close>

definition users_ok :: "user_row list \<Rightarrow> bool" where
  "users_ok us \<longleftrightarrow> distinct (map uw_id us) \<and> distinct (map uw_username us) \<and>
     (\<forall>u \<in> set us. \<exists>role. uw_role u = role_str role)"

definition devices_ok :: "device_row list \<Rightarrow> bool" where
  "devices_ok ds \<longleftrightarrow> distinct (map dw_id ds) \<and>
     (\<forall>d \<in> set ds. (\<exists>kind. dw_kind d = device_kind_label kind) \<and> (\<exists>access. dw_access d = access_str access))"

definition owners_ok :: "user_row list \<Rightarrow> device_row list \<Rightarrow> bool" where
  "owners_ok us ds \<longleftrightarrow> (\<forall>d \<in> set ds. \<forall>owner. dw_owner_user_id d = Some owner \<longrightarrow> owner \<in> uw_id ` set us)"

definition enrollment_ok :: "enrollment_row \<Rightarrow> bool" where
  "enrollment_ok e \<longleftrightarrow> (\<exists>kind. ew_kind e = device_kind_label kind) \<and>
     (ew_used_at e = None \<or> ew_cancelled_at e = None) \<and>
     (ew_used_at e = None \<longleftrightarrow> ew_used_by_device_id e = None)"

definition enrollments_ok :: "enrollment_row list \<Rightarrow> bool" where
  "enrollments_ok es \<longleftrightarrow> distinct (map ew_id es) \<and> distinct (map ew_code_hash es) \<and> (\<forall>e \<in> set es. enrollment_ok e)"

definition audit_ok :: "audit_record list \<Rightarrow> int \<Rightarrow> bool" where
  "audit_ok as nxt \<longleftrightarrow> sorted_wrt (<) (map au_id as) \<and> (\<forall>a \<in> set as. au_id a < nxt)"

definition db_inv :: "database \<Rightarrow> bool" where
  "db_inv db \<longleftrightarrow> users_ok (d_users db) \<and> devices_ok (d_devices db) \<and> owners_ok (d_users db) (d_devices db) \<and>
     enrollments_ok (d_enrollments db) \<and> distinct (map s_id_hash (d_sessions db)) \<and>
     audit_ok (d_audit db) (d_audit_next db) \<and> distinct (map fst (d_settings db))"

definition keeps_inv :: "database \<Rightarrow> database \<Rightarrow> bool" where
  "keeps_inv db db' \<longleftrightarrow> (db_inv db \<longrightarrow> db_inv db')"

interpretation inv: db_relation keeps_inv
  by unfold_locales (auto simp: keeps_inv_def db_inv_def)

lemma map_update_where [simp]:
  "(\<And>r. P r \<Longrightarrow> g (f r) = g r) \<Longrightarrow> map g (update_where P f rs) = map g rs"
  by (auto simp: update_where_def)

lemma distinct_map_snoc:
  "distinct (map f (xs @ [x])) \<longleftrightarrow> distinct (map f xs) \<and> \<not> list_ex (\<lambda>y. f y = f x) xs"
  by (induction xs) auto

lemma set_update_where: "set (update_where P f rs) = (\<lambda>r. if P r then f r else r) ` set rs"
  by (simp add: update_where_def)

lemma users_ok_insert:
  "users_ok us \<Longrightarrow> \<not> list_ex (\<lambda>u. uw_id u = uw_id r \<or> uw_username u = uw_username r) us \<Longrightarrow>
   uw_role r = role_str role \<Longrightarrow> users_ok (us @ [r])"
  by (auto simp: users_ok_def list_ex_iff)

lemma owners_ok_insert_user: "owners_ok us ds \<Longrightarrow> owners_ok (us @ [r]) ds"
  by (auto simp: owners_ok_def)

lemma inv_insert_user: "uw_role r = role_str role \<Longrightarrow> inv.obeys (insert_user r)"
  unfolding insert_user_def
  by (rule inv.obeys_statement)
     (auto simp: keeps_inv_def db_inv_def users_ok_insert owners_ok_insert_user split: if_splits)

lemma users_ok_update:
  assumes "users_ok us" "\<And>r. uw_id (f r) = uw_id r" "\<And>r. uw_username (f r) = uw_username r"
    and "\<And>r role. uw_role r = role_str role \<Longrightarrow> \<exists>role. uw_role (f r) = role_str role"
  shows "users_ok (update_where P f us)" "uw_id ` set (update_where P f us) = uw_id ` set us"
proof -
  show "uw_id ` set (update_where P f us) = uw_id ` set us"
    using assms(2) by (simp flip: set_map)
  show "users_ok (update_where P f us)"
    using assms unfolding users_ok_def set_update_where by (auto simp: assms(2,3))
qed

lemma inv_update_users:
  assumes "\<And>r. uw_id (f r) = uw_id r" "\<And>r. uw_username (f r) = uw_username r"
    and "\<And>r role. uw_role r = role_str role \<Longrightarrow> \<exists>role. uw_role (f r) = role_str role"
  shows "inv.obeys (update_users P f)"
  unfolding update_users_def
  by (rule inv.obeys_statement)
     (auto simp: keeps_inv_def db_inv_def owners_ok_def users_ok_update [OF _ assms])

lemma distinct_map_filter_keep: "distinct (map f xs) \<Longrightarrow> distinct (map f (filter P xs))"
  by (rule distinct_map_filter)

lemma inv_delete_user: "inv.obeys (delete_user ident)"
  unfolding delete_user_def
proof (rule inv.obeys_statement)
  fix db :: database and x db'
  assume del: "(if list_ex (\<lambda>r. uw_id r = ident) (d_users db) \<and>
        list_ex (\<lambda>d. dw_owner_user_id d = Some ident) (d_devices db)
      then Inl ConstraintViolation
      else Inr ((), db\<lparr>d_users := filter (\<lambda>r. uw_id r \<noteq> ident) (d_users db)\<rparr>)) = Inr (x, db')"
  then have db': "db' = db\<lparr>d_users := filter (\<lambda>r. uw_id r \<noteq> ident) (d_users db)\<rparr>" by (auto split: if_splits)
  show "keeps_inv db db'" unfolding keeps_inv_def
  proof
    assume inv: "db_inv db"
    have "dw_owner_user_id d \<noteq> Some ident" if "d \<in> set (d_devices db)" for d
      using del inv that by (auto simp: list_ex_iff db_inv_def owners_ok_def split: if_splits)
    with inv have "owners_ok (filter (\<lambda>r. uw_id r \<noteq> ident) (d_users db)) (d_devices db)"
      by (fastforce simp: db_inv_def owners_ok_def)
    with inv show "db_inv db'"
      by (auto simp: db' db_inv_def users_ok_def distinct_map_filter_keep)
  qed
qed

lemma devices_ok_insert:
  "devices_ok ds \<Longrightarrow> \<not> list_ex (\<lambda>d. dw_id d = dw_id r) ds \<Longrightarrow> dw_kind r = device_kind_label kind \<Longrightarrow>
   dw_access r = access_str access \<Longrightarrow> devices_ok (ds @ [r])"
  by (auto simp del: map_append simp: devices_ok_def distinct_map_snoc)

lemma owners_ok_insert_device:
  "owners_ok us ds \<Longrightarrow> (\<And>owner. dw_owner_user_id r = Some owner \<Longrightarrow> list_ex (\<lambda>u. uw_id u = owner) us) \<Longrightarrow>
   owners_ok us (ds @ [r])"
  by (fastforce simp: owners_ok_def list_ex_iff)

lemma inv_insert_device:
  "dw_kind r = device_kind_label kind \<Longrightarrow> dw_access r = access_str access \<Longrightarrow> inv.obeys (insert_device r)"
  unfolding insert_device_def
  by (rule inv.obeys_statement)
     (auto simp: keeps_inv_def db_inv_def devices_ok_insert
       intro!: owners_ok_insert_device split: if_splits option.splits)

lemma inv_update_devices:
  assumes "\<And>r. dw_id (f r) = dw_id r"
    and "\<And>r. dw_owner_user_id (f r) = dw_owner_user_id r \<or> dw_owner_user_id (f r) = None"
    and "\<And>r. dw_kind (f r) = dw_kind r"
    and "\<And>r. dw_access (f r) = dw_access r \<or> (\<exists>access. dw_access (f r) = access_str access)"
  shows "inv.obeys (update_devices P f)"
  unfolding update_devices_def
proof (rule inv.obeys_statement, unfold keeps_inv_def, rule impI)
  fix db :: database and x db'
  assume "Inr (list_ex P (d_devices db), db\<lparr>d_devices := update_where P f (d_devices db)\<rparr>) = Inr (x, db')"
    and inv: "db_inv db"
  then have db': "db' = db\<lparr>d_devices := update_where P f (d_devices db)\<rparr>" by simp
  have "devices_ok (update_where P f (d_devices db))"
    using inv assms unfolding db_inv_def devices_ok_def set_update_where by (auto simp: assms(1,3)) metis+
  moreover have "owners_ok (d_users db) (update_where P f (d_devices db))"
    using inv assms(2) unfolding db_inv_def owners_ok_def set_update_where by auto (metis option.distinct(1))
  ultimately show "db_inv db'" using inv by (simp add: db' db_inv_def)
qed

lemma enrollments_ok_insert:
  assumes "enrollments_ok es" "\<not> list_ex (\<lambda>e. ew_id e = ew_id r \<or> ew_code_hash e = ew_code_hash r) es"
    and "ew_kind r = device_kind_label kind" "ew_used_at r = None" "ew_used_by_device_id r = None"
  shows "enrollments_ok (es @ [r])"
proof -
  have "\<not> list_ex (\<lambda>e. ew_id e = ew_id r) es" "\<not> list_ex (\<lambda>e. ew_code_hash e = ew_code_hash r) es"
    using assms(2) by (auto simp: list_ex_iff)
  moreover have "enrollment_ok r" using assms(3-5) by (auto simp: enrollment_ok_def)
  ultimately show ?thesis using assms(1) by (simp del: map_append add: enrollments_ok_def distinct_map_snoc)
qed

lemma inv_insert_enrollment:
  "ew_kind r = device_kind_label kind \<Longrightarrow> ew_used_at r = None \<Longrightarrow> ew_used_by_device_id r = None \<Longrightarrow>
   inv.obeys (insert_enrollment r)"
  unfolding insert_enrollment_def
  by (rule inv.obeys_statement)
     (auto simp: keeps_inv_def db_inv_def enrollments_ok_insert split: if_splits)

lemma inv_update_enrollments:
  assumes "\<And>r. ew_id (f r) = ew_id r" "\<And>r. ew_code_hash (f r) = ew_code_hash r"
    and ok: "\<And>r. P r \<Longrightarrow> enrollment_ok r \<Longrightarrow> enrollment_ok (f r)"
  shows "inv.obeys (update_enrollments P f)"
  unfolding update_enrollments_def
proof (rule inv.obeys_statement, unfold keeps_inv_def, rule impI)
  fix db :: database and x db'
  assume "Inr (list_ex P (d_enrollments db), db\<lparr>d_enrollments := update_where P f (d_enrollments db)\<rparr>) = Inr (x, db')"
    and inv: "db_inv db"
  then have db': "db' = db\<lparr>d_enrollments := update_where P f (d_enrollments db)\<rparr>" by simp
  have "\<forall>e \<in> set (update_where P f (d_enrollments db)). enrollment_ok e"
    using inv ok unfolding set_update_where by (auto simp: db_inv_def enrollments_ok_def)
  then show "db_inv db'" using inv by (simp add: db' db_inv_def enrollments_ok_def assms(1,2))
qed

lemma inv_insert_session: "inv.obeys (insert_session r)"
  unfolding insert_session_def
  by (rule inv.obeys_statement)
     (auto simp del: map_append simp: keeps_inv_def db_inv_def distinct_map_snoc split: if_splits)

lemma inv_update_sessions:
  "(\<And>ss. distinct (map s_id_hash ss) \<Longrightarrow> distinct (map s_id_hash (f ss))) \<Longrightarrow> inv.obeys (update_sessions f)"
  unfolding update_sessions_def
  by (rule inv.obeys_statement) (auto simp: keeps_inv_def db_inv_def)

lemma inv_delete_expired_sessions: "inv.obeys (delete_expired_sessions now)"
  unfolding delete_expired_sessions_def
  by (rule inv.obeys_statement) (auto simp: keeps_inv_def db_inv_def distinct_map_filter_keep)

lemma inv_write_audit: "inv.obeys (write_audit r)"
  unfolding write_audit_def
  by (rule inv.obeys_statement)
     (auto simp: keeps_inv_def db_inv_def audit_ok_def sorted_wrt_append)

lemma inv_settings: "inv.obeys (write_setting k v)" "inv.obeys (delete_setting k)"
  unfolding write_setting_def delete_setting_def
  by (intro inv.obeys_with_now inv.obeys_statement; auto simp: keeps_inv_def db_inv_def)+

section \<open>History is permanent\<close>

text \<open>
  What later operations may not undo: a device row stays, with its identity and its revocation; an
  enrollment code stays, with its use or its cancellation; the audit trail only grows.
\<close>

definition device_kept :: "device_row \<Rightarrow> device_row \<Rightarrow> bool" where
  "device_kept d d' \<longleftrightarrow> dw_id d' = dw_id d \<and> dw_kind d' = dw_kind d \<and> dw_secret_hash d' = dw_secret_hash d \<and>
     dw_created_at d' = dw_created_at d \<and> (dw_revoked_at d \<noteq> None \<longrightarrow> dw_revoked_at d' = dw_revoked_at d)"

definition code_kept :: "enrollment_row \<Rightarrow> enrollment_row \<Rightarrow> bool" where
  "code_kept e e' \<longleftrightarrow> ew_id e' = ew_id e \<and> ew_code_hash e' = ew_code_hash e \<and> ew_kind e' = ew_kind e \<and>
     ew_owner_user_id e' = ew_owner_user_id e \<and> ew_expires_at e' = ew_expires_at e \<and>
     (ew_used_at e \<noteq> None \<longrightarrow>
        ew_used_at e' = ew_used_at e \<and> ew_used_by_device_id e' = ew_used_by_device_id e) \<and>
     (ew_cancelled_at e \<noteq> None \<longrightarrow> ew_cancelled_at e' = ew_cancelled_at e)"

definition history :: "database \<Rightarrow> database \<Rightarrow> bool" where
  "history db db' \<longleftrightarrow>
     (\<forall>d \<in> set (d_devices db). \<exists>d' \<in> set (d_devices db'). device_kept d d') \<and>
     (\<forall>e \<in> set (d_enrollments db). \<exists>e' \<in> set (d_enrollments db'). code_kept e e') \<and>
     prefix (d_audit db) (d_audit db')"

lemma kept_refl [simp]: "device_kept d d" "code_kept e e"
  by (simp_all add: device_kept_def code_kept_def)

lemma kept_trans: "device_kept d d1 \<Longrightarrow> device_kept d1 d2 \<Longrightarrow> device_kept d d2"
  "code_kept e e1 \<Longrightarrow> code_kept e1 e2 \<Longrightarrow> code_kept e e2"
  by (auto simp: device_kept_def code_kept_def)

lemma history_trans:
  assumes "history db1 db2" "history db2 db3"
  shows "history db1 db3"
proof -
  have "\<exists>d' \<in> set (d_devices db3). device_kept d d'" if "d \<in> set (d_devices db1)" for d
    using assms that unfolding history_def by (meson kept_trans(1))
  moreover have "\<exists>e' \<in> set (d_enrollments db3). code_kept e e'" if "e \<in> set (d_enrollments db1)" for e
    using assms that unfolding history_def by (meson kept_trans(2))
  ultimately show ?thesis using assms by (auto simp: history_def intro: prefix_order.trans)
qed

lemma history_same:
  "d_devices db' = d_devices db \<Longrightarrow> d_enrollments db' = d_enrollments db \<Longrightarrow> d_audit db' = d_audit db \<Longrightarrow>
   history db db'"
  by (auto simp: history_def intro: kept_refl)

interpretation hist: db_relation history
  by unfold_locales (auto intro: history_same history_trans)

lemma hist_other:
  "hist.obeys (insert_user ur)" "hist.obeys (update_users UP uf)" "hist.obeys (delete_user i)"
  "hist.obeys (insert_session s)" "hist.obeys (update_sessions sf)" "hist.obeys (delete_expired_sessions now)"
  unfolding insert_user_def update_users_def delete_user_def insert_session_def update_sessions_def
    delete_expired_sessions_def
  by (rule hist.obeys_statement, auto intro!: history_same split: if_splits)+

lemma hist_settings: "hist.obeys (write_setting k v)" "hist.obeys (delete_setting k)"
  unfolding write_setting_def delete_setting_def
  by (intro hist.obeys_with_now hist.obeys_statement; auto intro!: history_same)+

lemma hist_inserts:
  "hist.obeys (insert_device d)" "hist.obeys (insert_enrollment e)" "hist.obeys (write_audit a)"
  unfolding insert_device_def insert_enrollment_def write_audit_def
  by (rule hist.obeys_statement, auto simp: history_def intro: kept_refl split: if_splits option.splits)+

lemma update_where_kept:
  "(\<And>r. P r \<Longrightarrow> K r (f r)) \<Longrightarrow> (\<And>r. K r r) \<Longrightarrow> x \<in> set rs \<Longrightarrow> \<exists>y \<in> set (update_where P f rs). K x y"
  by (cases "P x") (auto simp: set_update_where)

lemma hist_update_devices:
  assumes "\<And>r. P r \<Longrightarrow> device_kept r (f r)"
  shows "hist.obeys (update_devices P f)"
  unfolding update_devices_def
  by (rule hist.obeys_statement) (auto simp: history_def update_where_kept assms intro: kept_refl)

lemma hist_update_enrollments:
  assumes "\<And>r. P r \<Longrightarrow> code_kept r (f r)"
  shows "hist.obeys (update_enrollments P f)"
  unfolding update_enrollments_def
  by (rule hist.obeys_statement) (auto simp: history_def update_where_kept assms intro: kept_refl)

section \<open>The methods that write\<close>

datatype db_op =
    OpWriteSetting string string
  | OpDeleteSetting string
  | OpCreateUser string string user_role
  | OpUpdateUser string user_update
  | OpDeleteUser string
  | OpUserLogin string
  | OpCreateDevice new_device
  | OpUpdateDevice string device_update
  | OpRevokeDevice string
  | OpRevokeOwned string
  | OpDisown string
  | OpDeviceConnected string string string
  | OpDeviceDisconnected string
  | OpCreateEnrollment new_enrollment
  | OpMarkUsed string string
  | OpCancel string
  | OpCreateSession session_record
  | OpExtendSession string int
  | OpDeleteSession string
  | OpDeleteSessionsOf string
  | OpDeleteExpired int
  | OpAudit audit_record

fun exec_db :: "db_op \<Rightarrow> database \<Rightarrow> database" where
  "exec_db (OpWriteSetting k v) db = snd (write_setting k v db)"
| "exec_db (OpDeleteSetting k) db = snd (delete_setting k db)"
| "exec_db (OpCreateUser n h role) db = snd (create_user n h role db)"
| "exec_db (OpUpdateUser i u) db = snd (update_user i u db)"
| "exec_db (OpDeleteUser i) db = snd (delete_user i db)"
| "exec_db (OpUserLogin i) db = snd (record_user_login i db)"
| "exec_db (OpCreateDevice n) db = snd (create_device n db)"
| "exec_db (OpUpdateDevice i u) db = snd (update_device i u db)"
| "exec_db (OpRevokeDevice i) db = snd (revoke_device i db)"
| "exec_db (OpRevokeOwned own) db = snd (revoke_devices_owned_by own db)"
| "exec_db (OpDisown own) db = snd (disown_devices_of own db)"
| "exec_db (OpDeviceConnected i ip v) db = snd (record_device_connection i ip v db)"
| "exec_db (OpDeviceDisconnected i) db = snd (record_device_disconnection i db)"
| "exec_db (OpCreateEnrollment n) db = snd (create_enrollment n db)"
| "exec_db (OpMarkUsed i d) db = snd (mark_enrollment_used i d db)"
| "exec_db (OpCancel i) db = snd (cancel_enrollment i db)"
| "exec_db (OpCreateSession s) db = snd (insert_session s db)"
| "exec_db (OpExtendSession h e) db = snd (extend_session h e db)"
| "exec_db (OpDeleteSession h) db = snd (delete_session h db)"
| "exec_db (OpDeleteSessionsOf u) db = snd (delete_sessions_of_user u db)"
| "exec_db (OpDeleteExpired now) db = snd (delete_expired_sessions now db)"
| "exec_db (OpAudit a) db = snd (write_audit a db)"

lemmas method_defs = create_user_def update_user_def record_user_login_def create_device_def
  update_device_def revoke_device_def revoke_devices_owned_by_def disown_devices_of_def
  record_device_connection_def record_device_disconnection_def create_enrollment_def
  mark_enrollment_used_def cancel_enrollment_def extend_session_def delete_session_def
  delete_sessions_of_user_def

lemma inv_methods:
  "inv.obeys (create_user n h role)" "inv.obeys (update_user i u)" "inv.obeys (record_user_login i)"
  "inv.obeys (create_device nd)" "inv.obeys (update_device i du)" "inv.obeys (revoke_device i)"
  "inv.obeys (disown_devices_of own)" "inv.obeys (record_device_connection i ip v)"
  "inv.obeys (record_device_disconnection i)" "inv.obeys (create_enrollment ne)"
  "inv.obeys (mark_enrollment_used i d)" "inv.obeys (cancel_enrollment i)" "inv.obeys (extend_session s e)"
  "inv.obeys (delete_session s)" "inv.obeys (delete_sessions_of_user i)"
  unfolding method_defs
  by (intro inv.obeys_db_intros inv_insert_user inv_update_users inv_insert_device inv_update_devices
      inv_insert_enrollment inv_update_enrollments inv_update_sessions;
      (auto simp: enrollment_ok_def distinct_map_filter_keep intro: access_str.simps(1) [symmetric])?)+

lemma inv_revoke_devices_owned_by: "inv.obeys (revoke_devices_owned_by own)"
  unfolding revoke_devices_owned_by_def Let_def by (intro inv.obeys_db_intros inv_methods)

lemma hist_methods:
  "hist.obeys (create_user n h role)" "hist.obeys (update_user i u)" "hist.obeys (record_user_login i)"
  "hist.obeys (create_device nd)" "hist.obeys (update_device i du)" "hist.obeys (revoke_device i)"
  "hist.obeys (disown_devices_of own)" "hist.obeys (record_device_connection i ip v)"
  "hist.obeys (record_device_disconnection i)" "hist.obeys (create_enrollment ne)"
  "hist.obeys (mark_enrollment_used i d)" "hist.obeys (cancel_enrollment i)" "hist.obeys (extend_session s e)"
  "hist.obeys (delete_session s)" "hist.obeys (delete_sessions_of_user i)"
  unfolding method_defs
  by (intro hist.obeys_db_intros hist_other hist_inserts hist_update_devices hist_update_enrollments;
      (auto simp: device_kept_def code_kept_def)?)+

lemma hist_revoke_devices_owned_by: "hist.obeys (revoke_devices_owned_by own)"
  unfolding revoke_devices_owned_by_def Let_def by (intro hist.obeys_db_intros hist_methods)

lemma exec_db_inv: "keeps_inv db (exec_db op db)"
  by (cases op) (simp_all add: inv_settings inv_methods inv_delete_user inv_revoke_devices_owned_by
      inv_insert_session inv_delete_expired_sessions inv_write_audit inv.obeys_def [THEN iffD1, rule_format])

lemma exec_db_hist: "history db (exec_db op db)"
  by (cases op) (simp_all add: hist_settings hist_methods hist_other hist_inserts hist_revoke_devices_owned_by
      hist.obeys_def [THEN iffD1, rule_format])

lemma exec_all_inv: "db_inv db \<Longrightarrow> db_inv (fold exec_db ops db)"
  using inv.obeys_fold [of exec_db db ops] exec_db_inv by (simp add: keeps_inv_def)

lemma exec_all_hist: "history db (fold exec_db ops db)"
  using exec_db_hist by (rule hist.obeys_fold)

text \<open>The relay's identity is a setting: only a method that is given its key writes it.\<close>

definition stored_id :: "database \<Rightarrow> string option" where
  "stored_id db = map_option fst (map_of (d_settings db) setting_relay_id)"

definition identity_kept :: "database \<Rightarrow> database \<Rightarrow> bool" where
  "identity_kept db db' \<longleftrightarrow> stored_id db' = stored_id db"

fun leaves_identity :: "db_op \<Rightarrow> bool" where
  "leaves_identity (OpWriteSetting k v) = (k \<noteq> setting_relay_id)"
| "leaves_identity (OpDeleteSetting k) = (k \<noteq> setting_relay_id)"
| "leaves_identity op = True"

interpretation ident: db_relation identity_kept
  by unfold_locales (auto simp: identity_kept_def stored_id_def)

lemma ident_settings:
  "k \<noteq> setting_relay_id \<Longrightarrow> ident.obeys (write_setting k v)"
  "k \<noteq> setting_relay_id \<Longrightarrow> ident.obeys (delete_setting k)"
  unfolding write_setting_def delete_setting_def
  by (intro ident.obeys_with_now ident.obeys_statement;
      auto simp: identity_kept_def stored_id_def update_conv delete_conv)+

lemma ident_rows:
  "ident.obeys (insert_user ur)" "ident.obeys (update_users UP uf)" "ident.obeys (delete_user i)"
  "ident.obeys (insert_device d)" "ident.obeys (update_devices P f)" "ident.obeys (insert_enrollment e)"
  "ident.obeys (update_enrollments EP ef)" "ident.obeys (insert_session s)" "ident.obeys (update_sessions sf)"
  "ident.obeys (delete_expired_sessions now)" "ident.obeys (write_audit a)"
  unfolding insert_user_def update_users_def delete_user_def insert_device_def update_devices_def insert_enrollment_def
    update_enrollments_def insert_session_def update_sessions_def delete_expired_sessions_def write_audit_def
  by (rule ident.obeys_statement, auto simp: identity_kept_def stored_id_def split: if_splits option.splits)+

lemma ident_methods:
  "ident.obeys (create_user n h role)" "ident.obeys (update_user i u)" "ident.obeys (record_user_login i)"
  "ident.obeys (create_device nd)" "ident.obeys (update_device i du)" "ident.obeys (revoke_device i)"
  "ident.obeys (disown_devices_of own)" "ident.obeys (record_device_connection i ip v)"
  "ident.obeys (record_device_disconnection i)" "ident.obeys (create_enrollment ne)"
  "ident.obeys (mark_enrollment_used i d)" "ident.obeys (cancel_enrollment i)" "ident.obeys (extend_session s e)"
  "ident.obeys (delete_session s)" "ident.obeys (delete_sessions_of_user i)" "ident.obeys (revoke_devices_owned_by own)"
  unfolding method_defs Let_def by (intro ident.obeys_db_intros ident_rows)+

lemma exec_db_ident: "leaves_identity op \<Longrightarrow> identity_kept db (exec_db op db)"
  by (cases op) (simp_all add: ident_settings ident_rows ident_methods ident.obeys_def [THEN iffD1, rule_format])

section \<open>Reading back\<close>

lemma collect_all: "\<forall>r \<in> set rs. \<exists>x. f r = Inr x \<Longrightarrow> \<exists>xs. collect f rs = Inr xs"
  by (induction rs) fastforce+

lemma find_in_set: "find P rs = Some r \<Longrightarrow> r \<in> set rs \<and> P r"
  by (auto simp: find_Some_iff)

lemma first_row_ok:
  assumes "\<forall>r \<in> set rs. \<exists>x. f r = Inr x"
  shows "\<exists>x. first_row f P rs = Inr x"
proof (cases "find P rs")
  case (Some r)
  with assms obtain x where "f r = Inr x" by (auto dest: find_in_set)
  with Some show ?thesis by (simp add: first_row_def)
qed (simp add: first_row_def)

lemma trim_access [simp]: "trim (access_str a) = access_str a"
  by (cases a) (simp_all add: trim_graphic graphic_def)

lemma readable_rows:
  assumes "db_inv db"
  shows "\<forall>r \<in> set (d_users db). \<exists>x. read_user_row r = Inr x"
    and "\<forall>r \<in> set (d_devices db). \<exists>x. read_device_row r = Inr x"
    and "\<forall>r \<in> set (d_enrollments db). \<exists>x. read_enrollment_row r = Inr x"
proof -
  have "\<exists>x. read_user_row r = Inr x" if "uw_role r = role_str role" for r role
    using that by (cases role) (simp_all add: read_user_row_def parse_role_def)
  then show "\<forall>r \<in> set (d_users db). \<exists>x. read_user_row r = Inr x"
    using assms unfolding db_inv_def users_ok_def by blast
  have "\<exists>x. read_device_row r = Inr x" if "dw_kind r = device_kind_label k" "dw_access r = access_str a" for r k a
    using that by (cases k; cases a; simp add: read_device_row_def parse_device_row_def parse_device_kind_def
        device_access_from_str_def trim_graphic graphic_def)
  then show "\<forall>r \<in> set (d_devices db). \<exists>x. read_device_row r = Inr x"
    using assms unfolding db_inv_def devices_ok_def by blast
  have "\<exists>x. read_enrollment_row r = Inr x" if "ew_kind r = device_kind_label k" for r k
    using that by (cases k) (simp_all add: read_enrollment_row_def parse_enrollment_kind_def)
  then show "\<forall>r \<in> set (d_enrollments db). \<exists>x. read_enrollment_row r = Inr x"
    using assms unfolding db_inv_def enrollments_ok_def enrollment_ok_def by blast
qed

lemma flatten_query:
  "flatten (query f db) =
     (if d_fail db (d_stmts db) then (Inl (Sqlite OtherFailure), db\<lparr>d_stmts := d_stmts db + 1\<rparr>)
      else (f (db\<lparr>d_stmts := d_stmts db + 1\<rparr>), db\<lparr>d_stmts := d_stmts db + 1\<rparr>))"
  by (auto simp: flatten_def query_def statement_def Let_def)

lemma statement_cases:
  "statement f db = (if d_fail db (d_stmts db) then (Inl (Sqlite OtherFailure), db\<lparr>d_stmts := d_stmts db + 1\<rparr>)
     else case f (db\<lparr>d_stmts := d_stmts db + 1\<rparr>) of
         Inl e \<Rightarrow> (Inl (Sqlite e), db\<lparr>d_stmts := d_stmts db + 1\<rparr>) | Inr (x, db2) \<Rightarrow> (Inr x, db2))"
  unfolding statement_def Let_def ..

lemma mark_used_True:
  assumes "mark_enrollment_used c d db = (Inr True, db1)"
  obtains e' where "e' \<in> set (d_enrollments db1)" "ew_id e' = c" "ew_used_at e' \<noteq> None"
    "ew_used_by_device_id e' = Some d"
proof -
  let ?P = "\<lambda>r. ew_id r = c \<and> ew_used_at r = None \<and> ew_cancelled_at r = None"
  from assms obtain now where
    db1: "d_enrollments db1 = update_where ?P
        (\<lambda>r. r\<lparr>ew_used_at := Some now, ew_used_by_device_id := Some d\<rparr>) (d_enrollments db)"
    and ex: "list_ex ?P (d_enrollments db)"
    by (auto simp: mark_enrollment_used_def with_now_def now_millis_def update_enrollments_def
        statement_cases Let_def split: if_splits)
  from ex obtain e where "e \<in> set (d_enrollments db)" "?P e" by (auto simp: list_ex_iff)
  then have "e\<lparr>ew_used_at := Some now, ew_used_by_device_id := Some d\<rparr> \<in> set (d_enrollments db1)"
    unfolding db1 set_update_where by (intro image_eqI [of _ _ e]) simp_all
  with \<open>?P e\<close> that show ?thesis by simp
qed

lemma settled_stays:
  assumes "db_inv db" "e \<in> set (d_enrollments db)" "ew_id e = c" "ew_used_at e \<noteq> None"
  shows "fst (mark_enrollment_used c d db) \<noteq> Inr True" "fst (cancel_enrollment c db) \<noteq> Inr True"
proof -
  have "distinct (map ew_id (d_enrollments db))" using assms(1) by (simp add: db_inv_def enrollments_ok_def)
  then have "\<not> list_ex (\<lambda>r. ew_id r = c \<and> ew_used_at r = None \<and> ew_cancelled_at r = None) (d_enrollments db)"
    using assms(2-4) by (auto simp: list_ex_iff distinct_map inj_on_def)
  then show "fst (mark_enrollment_used c d db) \<noteq> Inr True" "fst (cancel_enrollment c db) \<noteq> Inr True"
    by (auto simp: mark_enrollment_used_def cancel_enrollment_def with_now_def now_millis_def
        update_enrollments_def statement_cases Let_def split: if_splits)
qed

lemma insort_key_last: "\<forall>y \<in> set ys. k y < (k x :: 'b::linorder) \<Longrightarrow> insort_key k x ys = ys @ [x]"
  by (induction ys) auto

lemma sort_key_neg_rev:
  fixes f :: "'a \<Rightarrow> int"
  shows "sorted_wrt (<) (map f xs) \<Longrightarrow> sort_key (\<lambda>x. - f x) xs = rev xs"
  by (induction xs) (simp_all add: insort_key_last)

lemma take_rev_newer:
  fixes f :: "'a \<Rightarrow> int"
  assumes "sorted_wrt (<) (map f xs)" "r \<in> set xs" "take n (rev xs) \<noteq> []" "f r > f (last (take n (rev xs)))"
  shows "r \<in> set (take n (rev xs))"
proof (rule ccontr)
  assume "r \<notin> set (take n (rev xs))"
  moreover have "r \<in> set (take n (rev xs) @ drop n (rev xs))" using assms(2) by (simp only: append_take_drop_id set_rev)
  ultimately have "r \<in> set (drop n (rev xs))" by (simp only: set_append) blast
  moreover have "sorted_wrt (\<lambda>a b. f b < f a) (take n (rev xs) @ drop n (rev xs))"
    using assms(1) by (simp add: sorted_wrt_rev sorted_wrt_map)
  then have "\<forall>a \<in> set (take n (rev xs)). \<forall>b \<in> set (drop n (rev xs)). f b < f a"
    by (simp only: sorted_wrt_append) blast
  ultimately have "f r < f (last (take n (rev xs)))" using last_in_set [OF assms(3)] by blast
  with assms(4) show False by simp
qed

section \<open>Properties\<close>

definition sample_db :: database where
  "sample_db = \<lparr>d_settings = [], d_users = [], d_devices = [],
     d_enrollments = [\<lparr>ew_id = ''c1'', ew_code_hash = ''h1'', ew_kind = ''desktop'', ew_owner_user_id = None,
       ew_created_by = ''adm'', ew_note = None, ew_created_at = 0, ew_expires_at = 5000, ew_used_at = None,
       ew_used_by_device_id = None, ew_cancelled_at = None\<rparr>],
     d_sessions = [], d_audit = [], d_audit_next = 1, d_fail = (\<lambda>_. False), d_stmts = 0,
     d_clock = (\<lambda>_. 1000), d_ticks = 0, d_random = (\<lambda>n _. Inr (replicate n (CHR ''x''))), d_draws = 0\<rparr>"

lemma sample_db_inv: "db_inv sample_db"
  by (auto simp: db_inv_def sample_db_def users_ok_def devices_ok_def owners_ok_def enrollments_ok_def
      enrollment_ok_def audit_ok_def intro: exI [of _ Desktop])

text \<open>C22: whatever sequence of the store's writing methods runs, and whichever of their statements fail,
  the schema's invariant holds: unique ids, user names, code digests and session digests, every device
  owned by an existing account, every stored enumeration readable, a code never both used and
  cancelled and used exactly when a device is named, and audit ids strictly increasing.\<close>

theorem database_invariant:
  assumes "db_inv db"
  shows "db_inv (fold exec_db ops db)"
  using assms by (rule exec_all_inv)

theorem database_invariant_witness:
  "db_inv (fold exec_db [OpCreateUser ''ada'' ''hash'' Admin, OpMarkUsed ''c1'' ''dev'', OpCancel ''c1''] sample_db)"
  by (rule database_invariant [OF sample_db_inv])

text \<open>C23: no sequence of the store's methods undoes history: a device row keeps its id, kind, secret digest
  and, once set, its revocation; a code keeps its identity and, once set, its use or its cancellation;
  and the audit trail before is a prefix of the trail afterwards.\<close>

theorem history_permanent: "history db (fold exec_db ops db)"
  by (rule exec_all_hist)

text \<open>A code that was redeemed stays redeemed by that device: after any further operations, no second
  redemption and no cancellation succeeds, which is what settles two devices racing for one code.\<close>

lemma code_redeemed_once:
  assumes "db_inv db" "mark_enrollment_used c d1 db = (Inr True, db1)" "db2 = fold exec_db ops db1"
  shows "fst (mark_enrollment_used c d2 db2) \<noteq> Inr True \<and> fst (cancel_enrollment c db2) \<noteq> Inr True \<and>
    (\<exists>e \<in> set (d_enrollments db2). ew_id e = c \<and> ew_used_by_device_id e = Some d1)"
proof -
  have "db_inv db1"
    using inv.obeysD [OF inv_methods(11) assms(2)] assms(1) by (simp add: keeps_inv_def)
  then have inv: "db_inv db2" unfolding assms(3) by (rule exec_all_inv)
  obtain e where e: "e \<in> set (d_enrollments db1)" "ew_id e = c" "ew_used_at e \<noteq> None"
    "ew_used_by_device_id e = Some d1" using mark_used_True [OF assms(2)] .
  have "history db1 db2" unfolding assms(3) by (rule exec_all_hist)
  with e(1) obtain e' where e': "e' \<in> set (d_enrollments db2)" "code_kept e e'" by (auto simp: history_def)
  with e have "ew_id e' = c" "ew_used_at e' \<noteq> None" "ew_used_by_device_id e' = Some d1"
    by (auto simp: code_kept_def)
  with e'(1) settled_stays [OF inv e'(1)] show ?thesis by blast
qed

theorem code_redeemed_once_witness:
  "\<exists>db1. mark_enrollment_used ''c1'' ''dev1'' sample_db = (Inr True, db1) \<and>
     fst (mark_enrollment_used ''c1'' ''dev2'' (fold exec_db [OpCancel ''c1''] db1)) \<noteq> Inr True"
proof -
  obtain r db1 where m: "mark_enrollment_used ''c1'' ''dev1'' sample_db = (r, db1)" by fastforce
  moreover have "fst (mark_enrollment_used ''c1'' ''dev1'' sample_db) = Inr True"
    by (simp add: mark_enrollment_used_def with_now_def now_millis_def update_enrollments_def
        statement_cases sample_db_def Let_def)
  ultimately have "mark_enrollment_used ''c1'' ''dev1'' sample_db = (Inr True, db1)" by simp
  with code_redeemed_once [OF sample_db_inv this refl] show ?thesis by blast
qed

text \<open>The outcome of a read whose only possible failure is the statement itself.\<close>

definition parse_safe :: "(database_error + 'a) \<times> database \<Rightarrow> bool" where
  "parse_safe r \<longleftrightarrow> (\<forall>e. fst r = Inl e \<longrightarrow> e = Sqlite OtherFailure)"

lemma parse_safe_query:
  "\<exists>y. f (db\<lparr>d_stmts := d_stmts db + 1\<rparr>) = Inr y \<Longrightarrow> parse_safe (flatten (query f db))"
  by (auto simp: parse_safe_def flatten_query)

text \<open>On a store that satisfies the invariant a read never meets a value it cannot parse: the only
  failure left is the statement itself failing.\<close>

lemma reads_are_total:
  assumes "db_inv db"
  shows "parse_safe (list_users db) \<and> parse_safe (find_user i db) \<and> parse_safe (find_user_by_username n db)
    \<and> parse_safe (list_devices db) \<and> parse_safe (list_devices_owned_by own db) \<and> parse_safe (find_device i db)
    \<and> parse_safe (list_enrollments db) \<and> parse_safe (find_enrollment i db)
    \<and> parse_safe (find_enrollment_by_hash h db)"
proof -
  note rows = readable_rows [OF assms]
  show ?thesis
    unfolding list_users_def find_user_def find_user_by_username_def list_devices_def query_devices_def
      list_devices_owned_by_def find_device_def list_enrollments_def find_enrollment_def
      find_enrollment_by_hash_def
    by (intro conjI parse_safe_query collect_all first_row_ok) (use rows in simp_all)
qed

theorem reads_are_total_witness: "parse_safe (find_enrollment_by_hash ''h1'' sample_db)"
  using reads_are_total [OF sample_db_inv] by blast

text \<open>A page of the audit trail is in strictly descending order of id, holds at most the requested
  number (never more than 500), respects the filters, and skips nothing: an event that matches and is
  newer than the last one of the page is on the page.\<close>

lemma audit_page_exact:
  assumes "db_inv db" "fst (list_audit q db) = Inr page"
  shows "sorted_wrt (\<lambda>a b. b < a) (map au_id page)
    \<and> length page \<le> unat (min (max (aq_limit q) 1) max_audit_page)
    \<and> (\<forall>r \<in> set (d_audit db). (case aq_before_id q of None \<Rightarrow> True | Some before \<Rightarrow> au_id r < before) \<longrightarrow>
        (case aq_target_id q of None \<Rightarrow> True | Some target \<Rightarrow> au_target_id r = Some target) \<longrightarrow>
        page \<noteq> [] \<longrightarrow> au_id r > au_id (last page) \<longrightarrow> read_audit_row r \<in> set page)"
proof -
  let ?match = "\<lambda>r. (case aq_before_id q of None \<Rightarrow> True | Some before \<Rightarrow> au_id r < before) \<and>
      (case aq_target_id q of None \<Rightarrow> True | Some target \<Rightarrow> au_target_id r = Some target)"
  let ?rows = "filter ?match (d_audit db)"
  let ?n = "unat (min (max (aq_limit q) 1) max_audit_page)"
  have asc: "sorted_wrt (<) (map au_id ?rows)"
    using assms(1) by (simp add: db_inv_def audit_ok_def sorted_wrt_map sorted_wrt_filter)
  have page: "page = map read_audit_row (take ?n (rev ?rows))"
    using assms(2) asc
    by (auto simp: list_audit_def Let_def query_def statement_cases sort_key_neg_rev split: if_splits)
  have ids: "map au_id page = take ?n (rev (map au_id ?rows))"
    by (simp add: page read_audit_row_def take_map rev_map comp_def)
  have desc: "sorted_wrt (\<lambda>a b. b < a) (rev (map au_id ?rows))" using asc by (simp only: sorted_wrt_rev)
  have "read_audit_row r \<in> set page" if r: "r \<in> set ?rows" "page \<noteq> []" "au_id r > au_id (last page)" for r
  proof -
    have "au_id (last page) = au_id (last (take ?n (rev ?rows)))"
      using r(2) unfolding page by (simp add: last_map read_audit_row_def)
    with r have "r \<in> set (take ?n (rev ?rows))"
      by (intro take_rev_newer [OF asc]) (auto simp: page)
    then show ?thesis by (simp add: page)
  qed
  moreover have "sorted_wrt (\<lambda>a b. b < a) (map au_id page)" unfolding ids using desc by (rule sorted_wrt_take)
  ultimately show ?thesis by (auto simp: page)
qed

theorem audit_page_exact_witness:
  "let db = exec_db (OpAudit \<lparr>au_id = 0, au_at = 1, au_actor_kind = ''system'', au_actor_id = None,
        au_action = ''login'', au_target_kind = None, au_target_id = None, au_ip = None, au_detail = None\<rparr>) sample_db;
       page = projr (fst (list_audit \<lparr>aq_limit = 0, aq_before_id = None, aq_target_id = None\<rparr> db))
   in length page = 1 \<and> length page \<le> unat (min (max (0 :: u32) 1) max_audit_page)"
proof -
  let ?a = "\<lparr>au_id = 0, au_at = 1, au_actor_kind = ''system'', au_actor_id = None,
        au_action = ''login'', au_target_kind = None, au_target_id = None, au_ip = None, au_detail = None\<rparr>"
  let ?db = "exec_db (OpAudit ?a) sample_db"
  have inv: "db_inv ?db" using exec_db_inv sample_db_inv by (simp add: keeps_inv_def del: exec_db.simps)
  have l: "fst (list_audit \<lparr>aq_limit = 0, aq_before_id = None, aq_target_id = None\<rparr> ?db) = Inr [read_audit_row (?a\<lparr>au_id := 1\<rparr>)]"
    by (simp add: list_audit_def query_def statement_cases write_audit_def sample_db_def Let_def max_audit_page_def)
  from audit_page_exact [OF inv l] l show ?thesis by (simp add: Let_def)
qed

end
