(* ===== verification/Auth.thy ===== *)
theory Auth
  imports Database_Laws
begin

text \<open>
  Whether a caller is who it claims to be (\<^verbatim>\<open>src/auth/*.rs\<close>): enrollment codes, generated secrets,
  passwords, console sessions and their cookies. The hash of a secret (\<^verbatim>\<open>hash_secret\<close>), argon2 and the
  failure throttle belong to other crates and are parameters, as is \<^verbatim>\<open>getrandom::fill\<close>, the source of
  random bytes.
\<close>

section \<open>Codes and generated secrets\<close>

definition unambiguous_alphabet :: string where
  "unambiguous_alphabet = ''23456789ABCDEFGHJKLMNPQRSTUVWXYZ''"

definition random_unambiguous :: "(nat \<Rightarrow> string + 8 word list) \<Rightarrow> nat \<Rightarrow> string + string" where
  "random_unambiguous fill count =
     (case fill count of
        Inl e \<Rightarrow> Inl e
      | Inr bs \<Rightarrow> Inr (map (\<lambda>b. unambiguous_alphabet ! (unat b mod length unambiguous_alphabet)) bs))"

definition group_length :: nat where
  "group_length = 4"

definition group_count :: nat where
  "group_count = 3"

fun chunks :: "nat \<Rightarrow> 'a list \<Rightarrow> 'a list list" where
  "chunks n [] = []"
| "chunks n (x # xs) = (if n = 0 then [] else take n (x # xs) # chunks n (drop n (x # xs)))"

definition group :: "string \<Rightarrow> string" where
  "group characters = join ''-'' (chunks group_length characters)"

definition generate_code :: "(nat \<Rightarrow> string + 8 word list) \<Rightarrow> string + string" where
  "generate_code fill =
     (case random_unambiguous fill (group_length * group_count) of
        Inl e \<Rightarrow> Inl e
      | Inr characters \<Rightarrow> Inr (group characters))"

definition normalize_code :: "string \<Rightarrow> string option" where
  "normalize_code code =
     (let characters = map ascii_upper (filter is_ascii_alphanumeric code)
      in if length characters = group_length * group_count then Some (group characters) else None)"

definition default_ttl_minutes :: u32 where
  "default_ttl_minutes = 15"

definition max_ttl_minutes :: u32 where
  "max_ttl_minutes = 24 * 60"

definition clamp_ttl_minutes :: "u32 option \<Rightarrow> u32" where
  "clamp_ttl_minutes requested =
     min (max (case requested of Some t \<Rightarrow> t | None \<Rightarrow> default_ttl_minutes) 1) max_ttl_minutes"

definition generated_password_length :: nat where
  "generated_password_length = 16"

definition min_password_length :: nat where
  "min_password_length = 12"

definition generate_password :: "(nat \<Rightarrow> string + 8 word list) \<Rightarrow> string + string" where
  "generate_password fill = random_unambiguous fill generated_password_length"

text \<open>\<^verbatim>\<open>verify_password\<close>: \<open>parse_hash\<close> and \<open>argon2_verify\<close> are argon2's.\<close>

definition verify_password ::
  "(string \<Rightarrow> 'h option) \<Rightarrow> (string \<Rightarrow> 'h \<Rightarrow> bool) \<Rightarrow> string \<Rightarrow> string \<Rightarrow> bool" where
  "verify_password parse_hash argon2_verify password hash =
     (case parse_hash hash of None \<Rightarrow> False | Some parsed \<Rightarrow> argon2_verify password parsed)"

section \<open>Cookies\<close>

definition session_cookie_name :: string where
  "session_cookie_name = ''termexo_relay_session''"

definition session_lifetime_ms :: int where
  "session_lifetime_ms = 7 * 24 * 60 * 60 * 1000"

definition session_renewal_threshold_ms :: int where
  "session_renewal_threshold_ms = 60 * 60 * 1000"

definition secure_attribute :: "bool \<Rightarrow> string" where
  "secure_attribute secure = (if secure then ''; Secure'' else [])"

definition session_cookie :: "string \<Rightarrow> bool \<Rightarrow> string" where
  "session_cookie token secure =
     session_cookie_name @ ''='' @ token @ ''; HttpOnly; SameSite=Strict; Path=/; Max-Age=''
       @ decimal (nat (session_lifetime_ms div 1000)) @ secure_attribute secure"

definition cleared_session_cookie :: "bool \<Rightarrow> string" where
  "cleared_session_cookie secure =
     session_cookie_name @ ''=; HttpOnly; SameSite=Strict; Path=/; Max-Age=0'' @ secure_attribute secure"

definition session_entry :: "string \<Rightarrow> string option" where
  "session_entry entry =
     (case split_once (CHR ''='') (trim entry) of
        None \<Rightarrow> None
      | Some (name, value) \<Rightarrow> if name = session_cookie_name \<and> value \<noteq> [] then Some value else None)"

definition read_session_cookies :: "string list \<Rightarrow> string list" where
  "read_session_cookies header_fields =
     concat (map (\<lambda>field. List.map_filter session_entry (split_on (CHR '';'') field)) header_fields)"

definition has_csrf_marker :: "string option \<Rightarrow> bool" where
  "has_csrf_marker header =
     (case header of Some value \<Rightarrow> eq_ignore_ascii_case value ''termexo-console'' | None \<Rightarrow> False)"

section \<open>Sessions\<close>

definition session_token_bytes :: nat where
  "session_token_bytes = 32"

definition renewed_expiry :: "int \<Rightarrow> int \<Rightarrow> int option" where
  "renewed_expiry current_expires_at now =
     (let extended = now + session_lifetime_ms
      in if extended - current_expires_at \<ge> session_renewal_threshold_ms then Some extended else None)"

definition create_session ::
  "(string \<Rightarrow> string) \<Rightarrow> string \<Rightarrow> string option \<Rightarrow> database \<Rightarrow> (database_error + string) \<times> database" where
  "create_session hash_secret user_id ip =
     bindE (map_err RandomError (random_base64url session_token_bytes)) (\<lambda>token. with_now (\<lambda>created_at.
       bindE (insert_session
           \<lparr>s_id_hash = hash_secret token, s_user_id = user_id, s_created_at = created_at,
            s_expires_at = created_at + session_lifetime_ms, s_ip = ip\<rparr>)
         (\<lambda>_. okE token)))"

definition resolve_session ::
  "(string \<Rightarrow> string) \<Rightarrow> string \<Rightarrow> int \<Rightarrow> database \<Rightarrow> (database_error + user_record option) \<times> database" where
  "resolve_session hash_secret token now =
     (let id_hash = hash_secret token
      in bindE (find_session id_hash) (\<lambda>found.
           case found of
             None \<Rightarrow> okE None
           | Some session \<Rightarrow>
               if session_is_expired session now
               then bindE (delete_session id_hash) (\<lambda>_. okE None)
               else bindE (find_user (s_user_id session)) (\<lambda>found_user.
                 case found_user of
                   None \<Rightarrow> bindE (delete_session id_hash) (\<lambda>_. okE None)
                 | Some user \<Rightarrow>
                     if u_disabled user then bindE (delete_session id_hash) (\<lambda>_. okE None)
                     else
                       bindE (when_some (renewed_expiry (s_expires_at session) now) (extend_session id_hash))
                         (\<lambda>_. okE (Some user)))))"

definition destroy_session :: "(string \<Rightarrow> string) \<Rightarrow> string \<Rightarrow> database \<Rightarrow> (database_error + unit) \<times> database" where
  "destroy_session hash_secret token = delete_session (hash_secret token)"

section \<open>Codes: lemmas\<close>

lemma ascii_upper_alnum: "is_ascii_alphanumeric c \<Longrightarrow> is_ascii_alphanumeric (ascii_upper c) \<and> \<not> is_lower (ascii_upper c)"
  by (auto simp: is_ascii_alphanumeric_def ascii_upper_def is_upper_def is_lower_def is_digit_def)

lemma ascii_upper_fixed: "\<not> is_lower c \<Longrightarrow> ascii_upper c = c"
  by (simp add: ascii_upper_def)

lemma filter_join:
  "\<not> P c \<Longrightarrow> filter P (join [c] xss) = concat (map (filter P) xss)"
  by (induction "[c]" xss rule: join.induct) auto

lemma concat_chunks: "0 < n \<Longrightarrow> concat (chunks n xs) = xs"
proof (induction n xs rule: chunks.induct)
  case (2 n x xs)
  then show ?case using append_take_drop_id [of n "x # xs"] by (simp del: take_Suc_Cons drop_Suc_Cons append_take_drop_id)
qed simp

lemma filter_group: "list_all is_ascii_alphanumeric s \<Longrightarrow> filter is_ascii_alphanumeric (group s) = s"
proof -
  assume s: "list_all is_ascii_alphanumeric s"
  have "\<not> is_ascii_alphanumeric (CHR ''-'')"
    by (simp add: is_ascii_alphanumeric_def is_upper_def is_lower_def is_digit_def)
  then have "filter is_ascii_alphanumeric (group s)
      = concat (map (filter is_ascii_alphanumeric) (chunks group_length s))"
    unfolding group_def by (rule filter_join)
  also have "\<dots> = filter is_ascii_alphanumeric (concat (chunks group_length s))" by (simp add: filter_concat)
  also have "\<dots> = s" using s by (simp add: concat_chunks group_length_def list_all_iff)
  finally show ?thesis .
qed

lemma alphabet_alnum:
  "list_all (\<lambda>c. is_ascii_alphanumeric c \<and> \<not> is_lower c) unambiguous_alphabet"
  by (simp add: unambiguous_alphabet_def is_ascii_alphanumeric_def is_upper_def is_lower_def is_digit_def)

lemma random_unambiguous_chars:
  assumes "random_unambiguous fill n = Inr s" "\<forall>k bs. fill k = Inr bs \<longrightarrow> length bs = k"
  shows "length s = n" "list_all (\<lambda>c. is_ascii_alphanumeric c \<and> \<not> is_lower c) s" "set s \<subseteq> set unambiguous_alphabet"
proof -
  from assms(1) obtain bs where "fill n = Inr bs"
    and s: "s = map (\<lambda>b. unambiguous_alphabet ! (unat b mod length unambiguous_alphabet)) bs"
    by (auto simp: random_unambiguous_def split: sum.splits)
  with assms(2) have bs: "length bs = n" "s = map (\<lambda>b. unambiguous_alphabet ! (unat b mod length unambiguous_alphabet)) bs"
    by auto
  then show "length s = n" by simp
  have "unat b mod length unambiguous_alphabet < length unambiguous_alphabet" for b :: "8 word"
    by (rule mod_less_divisor) (simp add: unambiguous_alphabet_def)
  then show "set s \<subseteq> set unambiguous_alphabet" using bs(2) nth_mem by auto
  then show "list_all (\<lambda>c. is_ascii_alphanumeric c \<and> \<not> is_lower c) s"
    using alphabet_alnum by (auto simp: list_all_iff)
qed

lemma normalize_group:
  assumes "list_all (\<lambda>c. is_ascii_alphanumeric c \<and> \<not> is_lower c) s" "length s = group_length * group_count"
    and "map ascii_upper (filter is_ascii_alphanumeric typed) = s"
  shows "normalize_code typed = Some (group s)"
  using assms by (simp add: normalize_code_def)

section \<open>Sessions: lemmas\<close>

lemma bindE_Inr: "bindE m f s = (Inr y, s') \<longleftrightarrow> (\<exists>x s1. m s = (Inr x, s1) \<and> f x s1 = (Inr y, s'))"
  by (auto simp: bindE_def split: prod.splits sum.splits)

lemma okE_Inr: "okE x s = (Inr y, s') \<longleftrightarrow> x = y \<and> s = s'"
  by (auto simp: okE_def)

lemma query_Inr:
  "query f db = (Inr x, db') \<longleftrightarrow>
     \<not> d_fail db (d_stmts db) \<and> x = f (db\<lparr>d_stmts := d_stmts db + 1\<rparr>) \<and> db' = db\<lparr>d_stmts := d_stmts db + 1\<rparr>"
  by (auto simp: query_def statement_cases)

lemma find_session_Inr:
  "find_session h db = (Inr r, db') \<longleftrightarrow> \<not> d_fail db (d_stmts db) \<and> db' = db\<lparr>d_stmts := d_stmts db + 1\<rparr> \<and>
     r = map_option read_session_row (find (\<lambda>s. s_id_hash s = h) (d_sessions db))"
  by (auto simp: find_session_def query_Inr)

lemma find_user_Inr:
  assumes "find_user i db = (Inr (Some u), db')"
  obtains r where "r \<in> set (d_users db)" "uw_id r = i" "read_user_row r = Inr u"
    "db' = db\<lparr>d_stmts := d_stmts db + 1\<rparr>"
proof -
  from assms have f: "first_row read_user_row (\<lambda>r. uw_id r = i) (d_users db) = Inr (Some u)"
    and db': "db' = db\<lparr>d_stmts := d_stmts db + 1\<rparr>"
    by (auto simp: find_user_def flatten_query split: if_splits)
  from f obtain r where "find (\<lambda>r. uw_id r = i) (d_users db) = Some r" "read_user_row r = Inr u"
    by (auto simp: first_row_def split: option.splits sum.splits)
  with that db' show ?thesis by (auto dest: find_in_set)
qed

lemma resolve_session_Some:
  assumes "resolve_session hash_secret token now db = (Inr (Some u), db')"
  obtains s r where "s \<in> set (d_sessions db)" "s_id_hash s = hash_secret token" "now < s_expires_at s"
    "r \<in> set (d_users db)" "uw_id r = s_user_id s" "uw_disabled r = 0" "read_user_row r = Inr u"
    "d_sessions db' = (case renewed_expiry (s_expires_at s) now of
        None \<Rightarrow> d_sessions db
      | Some e \<Rightarrow> update_where (\<lambda>x. s_id_hash x = hash_secret token) (\<lambda>x. x\<lparr>s_expires_at := e\<rparr>) (d_sessions db))"
proof -
  let ?h = "hash_secret token"
  from assms obtain found db1 where f: "find_session ?h db = (Inr found, db1)"
    and rest: "(case found of None \<Rightarrow> okE None | Some session \<Rightarrow>
               if session_is_expired session now
               then bindE (delete_session ?h) (\<lambda>_. okE None)
               else bindE (find_user (s_user_id session)) (\<lambda>found_user.
                 case found_user of
                   None \<Rightarrow> bindE (delete_session ?h) (\<lambda>_. okE None)
                 | Some user \<Rightarrow>
                     if u_disabled user then bindE (delete_session ?h) (\<lambda>_. okE None)
                     else bindE (when_some (renewed_expiry (s_expires_at session) now) (extend_session ?h))
                         (\<lambda>_. okE (Some user)))) db1 = (Inr (Some u), db')"
    by (auto simp: resolve_session_def Let_def bindE_Inr)
  from rest obtain session where found: "found = Some session" by (cases found) (auto simp: okE_Inr)
  with rest have live: "\<not> session_is_expired session now"
    by (auto simp: bindE_Inr okE_Inr split: if_splits)
  from rest found live obtain fu db2 where fu: "find_user (s_user_id session) db1 = (Inr fu, db2)"
    and rest2: "(case fu of None \<Rightarrow> bindE (delete_session ?h) (\<lambda>_. okE None)
        | Some user \<Rightarrow> if u_disabled user then bindE (delete_session ?h) (\<lambda>_. okE None)
            else bindE (when_some (renewed_expiry (s_expires_at session) now) (extend_session ?h))
                         (\<lambda>_. okE (Some user))) db2 = (Inr (Some u), db')"
    by (auto simp: bindE_Inr)
  from rest2 have u: "fu = Some u" "\<not> u_disabled u"
    and ext: "\<exists>x. when_some (renewed_expiry (s_expires_at session) now) (extend_session ?h) db2 = (Inr x, db')"
    by (auto simp: bindE_Inr okE_Inr split: option.splits if_splits)
  from f found obtain s where s: "find (\<lambda>s. s_id_hash s = ?h) (d_sessions db) = Some s"
    and session: "session = read_session_row s" and db1: "db1 = db\<lparr>d_stmts := d_stmts db + 1\<rparr>"
    by (cases "find (\<lambda>s. s_id_hash s = ?h) (d_sessions db)") (auto simp: find_session_Inr)
  from fu u obtain r where r: "r \<in> set (d_users db1)" "uw_id r = s_user_id session" "read_user_row r = Inr u"
    "db2 = db1\<lparr>d_stmts := d_stmts db1 + 1\<rparr>" by (auto elim: find_user_Inr)
  have "uw_disabled r = 0" using r(3) u(2) by (auto simp: read_user_row_def split: sum.splits)
  moreover have "d_sessions db' = (case renewed_expiry (s_expires_at s) now of
        None \<Rightarrow> d_sessions db
      | Some e \<Rightarrow> update_where (\<lambda>x. s_id_hash x = ?h) (\<lambda>x. x\<lparr>s_expires_at := e\<rparr>) (d_sessions db))"
    using ext r(4) db1 session
    by (auto simp: when_some_def extend_session_def update_sessions_def statement_cases okE_def read_session_row_def
        split: option.splits if_splits)
  ultimately show ?thesis
    using that s session r db1 live by (auto simp: read_session_row_def session_is_expired_def dest: find_in_set)
qed

lemma create_session_Inr:
  assumes "create_session hash_secret user_id ip db = (Inr token, db1)"
  obtains s where "d_sessions db1 = d_sessions db @ [s]" "s_id_hash s = hash_secret token" "s_user_id s = user_id"
    "s_expires_at s = d_clock db (d_ticks db) + session_lifetime_ms"
    "\<not> list_ex (\<lambda>x. s_id_hash x = hash_secret token) (d_sessions db)"
    "d_users db1 = d_users db" "d_fail db1 = d_fail db"
  using assms
  by (auto simp: create_session_def bindE_Inr map_err_def random_base64url_def with_now_def now_millis_def Let_def
      okE_Inr insert_session_def statement_cases split: prod.splits sum.splits if_splits)

lemma find_snoc: "\<not> list_ex P xs \<Longrightarrow> P x \<Longrightarrow> find P (xs @ [x]) = Some x"
  by (induction xs) auto

section \<open>Properties\<close>

text \<open>Whatever a person does to a generated code when typing it (case, dashes left out or moved, blanks),
  as long as the letters and digits are the same it is read back as exactly the code that was hashed.\<close>

lemma typed_code_is_recognised:
  assumes "generate_code fill = Inr code" "\<forall>k bs. fill k = Inr bs \<longrightarrow> length bs = k"
    and "map ascii_upper (filter is_ascii_alphanumeric typed) = filter is_ascii_alphanumeric code"
  shows "normalize_code typed = Some code"
proof -
  from assms(1) obtain s where s: "random_unambiguous fill (group_length * group_count) = Inr s" "code = group s"
    by (auto simp: generate_code_def split: sum.splits)
  note chars = random_unambiguous_chars [OF s(1) assms(2)]
  have "filter is_ascii_alphanumeric code = s"
    unfolding s(2) by (rule filter_group) (use chars(2) in \<open>simp add: list_all_iff\<close>)
  with normalize_group [OF chars(2,1)] assms(3) s(2) show ?thesis by simp
qed

theorem typed_code_is_recognised_witness:
  "normalize_code '' 2222 2222-2222'' = Some ''2222-2222-2222''"
proof (rule typed_code_is_recognised)
  show "generate_code (\<lambda>n. Inr (replicate n 0)) = Inr ''2222-2222-2222''"
    by code_simp
  show "\<forall>k bs. Inr (replicate k (0 :: 8 word)) = (Inr bs :: string + 8 word list) \<longrightarrow> length bs = k" by auto
  show "map ascii_upper (filter is_ascii_alphanumeric '' 2222 2222-2222'')
      = filter is_ascii_alphanumeric ''2222-2222-2222''" by code_simp
qed

text \<open>C33: a cookie resolves to an account only while a stored session with its digest has not expired and its
  account exists and is enabled; and a resolved session afterwards lasts at least seven days less one
  hour from now and never shorter than before, while the sessions of other cookies are untouched.\<close>

theorem resolved_session_is_live:
  assumes "resolve_session hash_secret token now db = (Inr (Some u), db')"
  shows "\<exists>s \<in> set (d_sessions db). \<exists>r \<in> set (d_users db). s_id_hash s = hash_secret token \<and> now < s_expires_at s \<and>
      uw_id r = s_user_id s \<and> uw_disabled r = 0 \<and> read_user_row r = Inr u \<and>
      (\<exists>s' \<in> set (d_sessions db'). s_id_hash s' = hash_secret token \<and> s_user_id s' = s_user_id s \<and>
         s_expires_at s \<le> s_expires_at s' \<and>
         now + session_lifetime_ms - session_renewal_threshold_ms < s_expires_at s') \<and>
      filter (\<lambda>x. s_id_hash x \<noteq> hash_secret token) (d_sessions db')
        = filter (\<lambda>x. s_id_hash x \<noteq> hash_secret token) (d_sessions db)"
proof -
  obtain s r where sr: "s \<in> set (d_sessions db)" "s_id_hash s = hash_secret token" "now < s_expires_at s"
    "r \<in> set (d_users db)" "uw_id r = s_user_id s" "uw_disabled r = 0" "read_user_row r = Inr u"
    and db': "d_sessions db' = (case renewed_expiry (s_expires_at s) now of
        None \<Rightarrow> d_sessions db
      | Some e \<Rightarrow> update_where (\<lambda>x. s_id_hash x = hash_secret token) (\<lambda>x. x\<lparr>s_expires_at := e\<rparr>) (d_sessions db))"
    using resolve_session_Some [OF assms] .
  let ?s' = "s\<lparr>s_expires_at := (case renewed_expiry (s_expires_at s) now of None \<Rightarrow> s_expires_at s | Some e \<Rightarrow> e)\<rparr>"
  have "?s' \<in> set (d_sessions db')"
    using sr(1,2) by (auto simp: db' set_update_where split: option.splits)
  moreover have "s_expires_at s \<le> s_expires_at ?s' \<and>
      now + session_lifetime_ms - session_renewal_threshold_ms < s_expires_at ?s'"
    by (simp add: renewed_expiry_def Let_def session_renewal_threshold_ms_def)
  moreover have "filter (\<lambda>x. s_id_hash x \<noteq> h) (update_where (\<lambda>x. s_id_hash x = h) (\<lambda>x. x\<lparr>s_expires_at := e\<rparr>) ss)
      = filter (\<lambda>x. s_id_hash x \<noteq> h) ss" for h e ss
    by (induction ss) (auto simp: update_where_def)
  then have "filter (\<lambda>x. s_id_hash x \<noteq> hash_secret token) (d_sessions db')
        = filter (\<lambda>x. s_id_hash x \<noteq> hash_secret token) (d_sessions db)"
    by (auto simp: db' split: option.splits)
  ultimately show ?thesis
    using sr by (intro bexI [of _ s] bexI [of _ r]) (auto intro!: bexI [of _ ?s'])
qed

definition sample_users_db :: database where
  "sample_users_db = sample_db\<lparr>d_users := [\<lparr>uw_id = ''u1'', uw_username = ''ada'', uw_password_hash = ''h'',
     uw_role = ''admin'', uw_disabled = 0, uw_created_at = 0, uw_last_login_at = None\<rparr>]\<rparr>"

definition sample_user :: user_record where
  "sample_user = \<lparr>u_id = ''u1'', u_username = ''ada'', u_password_hash = ''h'', u_role = Admin,
     u_disabled = False, u_created_at = 0, u_last_login_at = None\<rparr>"

lemmas run_session = create_session_def resolve_session_def bindE_def okE_def map_err_def random_base64url_def
  with_now_def now_millis_def insert_session_def find_session_def query_def statement_def find_user_def
  flatten_def first_row_def read_user_row_def parse_role_def renewed_expiry_def when_some_def
  session_is_expired_def read_session_row_def session_lifetime_ms_def session_renewal_threshold_ms_def
  session_token_bytes_def optional_text_def

lemma sample_session:
  "\<exists>db1 db2. create_session rev ''u1'' None sample_users_db = (Inr [], db1) \<and>
     resolve_session rev [] 2000 db1 = (Inr (Some sample_user), db2)"
  by (simp add: run_session sample_users_db_def sample_db_def sample_user_def Let_def)

theorem resolved_session_is_live_witness:
  "\<exists>db1 db2. resolve_session rev [] 2000 db1 = (Inr (Some sample_user), db2) \<and>
     (\<exists>s \<in> set (d_sessions db1). 2000 < s_expires_at s)"
proof -
  from sample_session obtain db1 db2 where "resolve_session rev [] 2000 db1 = (Inr (Some sample_user), db2)" by blast
  with resolved_session_is_live [OF this] show ?thesis by blast
qed

text \<open>A session that was created resolves to its enabled account for the whole of its seven days, as long
  as the statements themselves run.\<close>

lemma created_session_resolves:
  assumes "create_session hash_secret user_id ip db = (Inr token, db1)"
    and "find (\<lambda>r. uw_id r = user_id) (d_users db) = Some r" "read_user_row r = Inr u" "\<not> u_disabled u"
    and "now < d_clock db (d_ticks db) + session_lifetime_ms" "\<forall>n. \<not> d_fail db n"
  shows "fst (resolve_session hash_secret token now db1) = Inr (Some u)"
proof -
  obtain s where s: "d_sessions db1 = d_sessions db @ [s]" "s_id_hash s = hash_secret token" "s_user_id s = user_id"
    "s_expires_at s = d_clock db (d_ticks db) + session_lifetime_ms"
    "\<not> list_ex (\<lambda>x. s_id_hash x = hash_secret token) (d_sessions db)"
    "d_users db1 = d_users db" "d_fail db1 = d_fail db" using create_session_Inr [OF assms(1)] .
  have "find (\<lambda>x. s_id_hash x = hash_secret token) (d_sessions db1) = Some s"
    unfolding s(1) by (rule find_snoc [OF s(5,2)])
  with s assms(2-6) show ?thesis
    by (auto simp: resolve_session_def Let_def bindE_def find_session_def query_def statement_def
        read_session_row_def session_is_expired_def find_user_def flatten_def first_row_def when_some_def
        extend_session_def update_sessions_def okE_def split: option.splits)
qed

theorem created_session_resolves_witness:
  "\<exists>db1. create_session rev ''u1'' None sample_users_db = (Inr [], db1) \<and>
     fst (resolve_session rev [] 5000 db1) = Inr (Some sample_user)"
proof -
  from sample_session obtain db1 where c: "create_session rev ''u1'' None sample_users_db = (Inr [], db1)" by blast
  have "fst (resolve_session rev [] 5000 db1) = Inr (Some sample_user)"
    by (rule created_session_resolves [OF c, of "hd (d_users sample_users_db)"])
       (simp_all add: sample_users_db_def sample_db_def sample_user_def read_user_row_def parse_role_def
         session_lifetime_ms_def)
  with c show ?thesis by blast
qed

end
