(* ===== verification/Config.thy ===== *)
theory Config
  imports Relay_Prelude
begin

text \<open>
  The values of the command line (\<^verbatim>\<open>src/config.rs\<close>): the TLS mode, the public URL and the subdomain base,
  each with the parser the program gives it. A socket address and an IP network are types of the
  standard library and of the \<^verbatim>\<open>ipnet\<close> crate; what the code asks of them are parameters.
\<close>

section \<open>Data\<close>

datatype tls_mode = SelfSigned | Certificate string string | Disabled

fun tls_is_secure :: "tls_mode \<Rightarrow> bool" where
  "tls_is_secure Disabled = False"
| "tls_is_secure SelfSigned = True"
| "tls_is_secure (Certificate chain key) = True"

datatype config_error =
    UnknownTlsMode string
  | MalformedCertificateMode
  | UnsupportedScheme
  | MissingHost
  | UnexpectedPath string
  | InvalidSubdomainBase string

record public_url =
  pu_origin :: string
  pu_host :: string
  pu_secure :: bool

section \<open>Operations\<close>

definition tls_mode_from_str :: "string \<Rightarrow> config_error + tls_mode" where
  "tls_mode_from_str value =
     (if value = ''self-signed'' then Inr SelfSigned
      else if value = ''off'' then Inr Disabled
      else
        (case strip_prefix ''cert:'' value of
           None \<Rightarrow> Inl (UnknownTlsMode value)
         | Some paths \<Rightarrow>
             (case split_once (CHR '','') paths of
                None \<Rightarrow> Inl MalformedCertificateMode
              | Some (chain, key) \<Rightarrow>
                  if chain = [] \<or> key = [] then Inl MalformedCertificateMode
                  else Inr (Certificate chain key))))"

text \<open>The host without its port; an IPv6 literal keeps its brackets.\<close>

definition host_name_of :: "string \<Rightarrow> string" where
  "host_name_of host =
     (case rsplit_once (CHR '':'') host of
        Some (name, _) \<Rightarrow> if \<not> suffix '']'' host then name else host
      | None \<Rightarrow> host)"

definition host_name :: "public_url \<Rightarrow> string" where
  "host_name u = host_name_of (pu_host u)"

definition port_suffix :: "public_url \<Rightarrow> string" where
  "port_suffix u = drop (length (host_name u)) (pu_host u)"

definition from_listen_address ::
  "('a \<Rightarrow> bool) \<Rightarrow> ('a \<Rightarrow> nat) \<Rightarrow> ('a \<Rightarrow> string) \<Rightarrow> 'a \<Rightarrow> bool \<Rightarrow> public_url" where
  "from_listen_address is_unspecified port to_string listen secure =
     (let scheme = (if secure then ''https://'' else ''http://'');
          host = (if is_unspecified listen then ''localhost:'' @ decimal (port listen)
                  else to_string listen)
      in \<lparr>pu_origin = scheme @ host, pu_host = host, pu_secure = secure\<rparr>)"

definition resolved_public_url ::
  "('a \<Rightarrow> bool) \<Rightarrow> ('a \<Rightarrow> nat) \<Rightarrow> ('a \<Rightarrow> string) \<Rightarrow> public_url option \<Rightarrow> 'a \<Rightarrow> tls_mode \<Rightarrow> public_url" where
  "resolved_public_url is_unspecified port to_string public listen tls =
     (case public of
        Some u \<Rightarrow> u
      | None \<Rightarrow> from_listen_address is_unspecified port to_string listen (tls_is_secure tls))"

definition path_char :: "char \<Rightarrow> bool" where
  "path_char c \<longleftrightarrow> c = CHR ''/'' \<or> c = CHR ''?'' \<or> c = CHR ''#''"

definition public_url_from_str :: "string \<Rightarrow> config_error + public_url" where
  "public_url_from_str value =
     (let trimmed = trim value
      in (case (case (strip_prefix ''https://'' trimmed, strip_prefix ''http://'' trimmed) of
                  (Some rest, _) \<Rightarrow> Some (True, rest)
                | (None, Some rest) \<Rightarrow> Some (False, rest)
                | _ \<Rightarrow> None) of
            None \<Rightarrow> Inl UnsupportedScheme
          | Some (secure, rest0) \<Rightarrow>
              (let rest = trim_end_matches (CHR ''/'') rest0;
                   path = dropWhile (\<lambda>c. \<not> path_char c) rest
               in if path \<noteq> [] then Inl (UnexpectedPath path)
                  else if rest = [] then Inl MissingHost
                  else Inr \<lparr>pu_origin = (if secure then ''https://'' else ''http://'') @ rest,
                            pu_host = rest, pu_secure = secure\<rparr>)))"

definition wildcard_name :: "string \<Rightarrow> string" where
  "wildcard_name base = ''*.'' @ base"

definition label_of :: "string \<Rightarrow> string \<Rightarrow> string option" where
  "label_of base host =
     (case strip_suffix base host of
        None \<Rightarrow> None
      | Some front \<Rightarrow>
          (case strip_suffix ''.'' front of
             None \<Rightarrow> None
           | Some label \<Rightarrow> if label \<noteq> [] \<and> CHR ''.'' \<notin> set label then Some label else None))"

definition max_host_label_length :: nat where
  "max_host_label_length = 63"

definition is_host_label :: "string \<Rightarrow> bool" where
  "is_host_label label \<longleftrightarrow>
     label \<noteq> [] \<and> length label \<le> max_host_label_length \<and>
     \<not> prefix ''-'' label \<and> \<not> suffix ''-'' label \<and>
     list_all (\<lambda>b. is_ascii_alphanumeric b \<or> b = CHR ''-'') label"

definition subdomain_base_from_str :: "string \<Rightarrow> config_error + string" where
  "subdomain_base_from_str value =
     (let normalized =
            to_lowercase (trim_end_matches (CHR ''.'') (trim_start_matches (CHR ''.'') (trim value)))
      in if normalized = [] \<or> CHR ''.'' \<notin> set normalized
            \<or> list_ex (\<lambda>label. \<not> is_host_label label) (split_on (CHR ''.'') normalized)
         then Inl (InvalidSubdomainBase (trim value))
         else Inr normalized)"

definition is_trusted_proxy :: "('net \<Rightarrow> 'ip \<Rightarrow> bool) \<Rightarrow> 'net list \<Rightarrow> 'ip \<Rightarrow> bool" where
  "is_trusted_proxy contains networks source = list_ex (\<lambda>network. contains network source) networks"

section \<open>Public URLs\<close>

lemma host_name_prefix: "\<exists>port. pu_host u = host_name u @ port"
  by (auto simp: host_name_def host_name_of_def rsplit_once_Some split: option.splits)

lemma host_name_port_suffix [simp]: "host_name u @ port_suffix u = pu_host u"
  using host_name_prefix [of u] by (auto simp: port_suffix_def)

lemma port_suffix_cases:
  "port_suffix u = [] \<or> (\<exists>p. port_suffix u = CHR '':'' # p \<and> CHR '':'' \<notin> set p \<and> \<not> suffix '']'' (pu_host u))"
  by (auto simp: port_suffix_def host_name_def host_name_of_def rsplit_once_Some split: option.splits)

lemma trim_end_matches_last: "trim_end_matches c s \<noteq> [] \<Longrightarrow> last (trim_end_matches c s) \<noteq> c"
  using hd_dropWhile [of "\<lambda>x. x = c" "rev s"] by (auto simp: trim_end_matches_def last_rev)

lemma trim_end_matches_id: "s = [] \<or> last s \<noteq> c \<Longrightarrow> trim_end_matches c s = s"
  by (cases s rule: rev_cases) (auto simp: trim_end_matches_def)

lemma trim_end_matches_prefix: "\<exists>n. s = trim_end_matches c s @ replicate n c"
proof -
  have "rev s = takeWhile (\<lambda>x. x = c) (rev s) @ dropWhile (\<lambda>x. x = c) (rev s)" by simp
  moreover have "takeWhile (\<lambda>x. x = c) (rev s) = replicate (length (takeWhile (\<lambda>x. x = c) (rev s))) c"
    by (metis (full_types) replicate_length_same set_takeWhileD)
  ultimately have "s = trim_end_matches c s @ replicate (length (takeWhile (\<lambda>x. x = c) (rev s))) c"
    unfolding trim_end_matches_def by (metis rev_append rev_replicate rev_rev_ident)
  then show ?thesis by blast
qed

lemma public_url_from_str_shape:
  assumes "public_url_from_str v = Inr u"
  shows "pu_origin u = (if pu_secure u then ''https://'' else ''http://'') @ pu_host u"
    and "pu_host u \<noteq> []" and "\<forall>c \<in> set (pu_host u). \<not> path_char c"
  using assms
  by (auto simp: public_url_from_str_def Let_def dropWhile_eq_Nil_conv split: option.splits if_splits)

lemma public_url_from_str_origin:
  assumes "pu_origin u = (if pu_secure u then ''https://'' else ''http://'') @ pu_host u"
    and "pu_host u \<noteq> []" and "\<forall>c \<in> set (pu_host u). \<not> path_char c" and "trim (pu_origin u) = pu_origin u"
  shows "public_url_from_str (pu_origin u) = Inr u"
proof -
  have "last (pu_host u) \<noteq> CHR ''/''" using assms(2,3) by (auto simp: path_char_def)
  then have "trim_end_matches (CHR ''/'') (pu_host u) = pu_host u" by (simp add: trim_end_matches_id)
  moreover have "dropWhile (\<lambda>c. \<not> path_char c) (pu_host u) = []"
    using assms(3) by (simp add: dropWhile_eq_Nil_conv)
  moreover have "strip_prefix ''https://'' (''http://'' @ h) = None" for h
    by (simp add: strip_prefix_def)
  ultimately show ?thesis
    using assms(1,2) assms(4) by (cases u) (auto simp: public_url_from_str_def Let_def strip_prefix_def)
qed

section \<open>Host labels\<close>

lemma host_label_graphic: "is_host_label l \<Longrightarrow> list_all graphic l"
  by (auto simp: is_host_label_def list_all_iff is_ascii_alphanumeric_def is_upper_def is_lower_def
      is_digit_def graphic_def)

lemma split_on_list_all:
  "list_all (list_all P) (split_on c s) \<Longrightarrow> P c \<Longrightarrow> list_all P s"
  by (induction s) (auto split: if_splits list.splits)

lemma to_lowercase_no_upper: "c \<in> set (to_lowercase s) \<Longrightarrow> \<not> is_upper c"
  by (induction s rule: to_lowercase.induct) (auto split: if_splits, simp add: is_upper_def)

lemma split_on_snoc: "split_on c (s @ [c]) = split_on c s @ [[]]"
  by (induction s) (auto split: list.splits)

lemma hd_in_split_on: "s \<noteq> [] \<Longrightarrow> hd s = c \<Longrightarrow> [] \<in> set (split_on c s)"
  by (cases s) auto

lemma last_in_split_on: "s \<noteq> [] \<Longrightarrow> last s = c \<Longrightarrow> [] \<in> set (split_on c s)"
  by (cases s rule: rev_cases) (auto simp: split_on_snoc)

lemma trim_start_matches_id: "s = [] \<or> hd s \<noteq> c \<Longrightarrow> trim_start_matches c s = s"
  by (cases s) (auto simp: trim_start_matches_def)

text \<open>What a subdomain base that was accepted looks like.\<close>

definition canonical_base :: "string \<Rightarrow> bool" where
  "canonical_base b \<longleftrightarrow>
     CHR ''.'' \<in> set b \<and> list_all is_host_label (split_on (CHR ''.'') b) \<and> list_all (\<lambda>c. \<not> is_upper c) b"

lemma subdomain_base_accepted: "subdomain_base_from_str v = Inr b \<Longrightarrow> canonical_base b"
  by (auto simp: subdomain_base_from_str_def canonical_base_def Let_def list_all_iff list_ex_iff
      dest: to_lowercase_no_upper split: if_splits)

lemma canonical_base_facts:
  assumes "canonical_base b"
  shows "b \<noteq> []" "list_all graphic b" "map ascii_lower b = b" "hd b \<noteq> CHR ''.''" "last b \<noteq> CHR ''.''"
    "CHR '':'' \<notin> set b" "CHR ''/'' \<notin> set b"
proof -
  show ne: "b \<noteq> []" using assms by (auto simp: canonical_base_def)
  show "list_all graphic b"
  proof (rule split_on_list_all [where c = "CHR ''.''"])
    show "list_all (list_all graphic) (split_on (CHR ''.'') b)"
      using assms host_label_graphic unfolding canonical_base_def list_all_iff by blast
  qed (simp add: graphic_def)
  show "map ascii_lower b = b"
    using assms by (auto simp: canonical_base_def list_all_iff ascii_lower_fixed intro: map_idI)
  have no: "[] \<notin> set (split_on (CHR ''.'') b)"
    using assms by (auto simp: canonical_base_def list_all_iff is_host_label_def)
  show "hd b \<noteq> CHR ''.''" "last b \<noteq> CHR ''.''" using no ne hd_in_split_on last_in_split_on by metis+
  have "list_all (\<lambda>c. is_ascii_alphanumeric c \<or> c = CHR ''-'' \<or> c = CHR ''.'') b"
    using assms by (intro split_on_list_all [where c = "CHR ''.''"])
      (auto simp: canonical_base_def list_all_iff is_host_label_def)
  then show "CHR '':'' \<notin> set b" "CHR ''/'' \<notin> set b"
    by (auto simp: list_all_iff is_ascii_alphanumeric_def is_upper_def is_lower_def is_digit_def)
qed

lemma canonical_base_accepted:
  assumes "canonical_base b"
  shows "subdomain_base_from_str b = Inr b"
proof -
  note f = canonical_base_facts [OF assms]
  have "graphic (hd b)" "graphic (last b)" using f(1,2) by (auto simp: list_all_iff)
  with f have "trim b = b" by (simp add: trim_graphic)
  with f assms show ?thesis
    by (auto simp: subdomain_base_from_str_def Let_def trim_start_matches_id trim_end_matches_id
        to_lowercase_graphic canonical_base_def list_all_iff list_ex_iff)
qed

end
