(* ===== verification/Address.thy ===== *)
theory Address
  imports Config Relay_Frames
begin

text \<open>
  How a device's public address is formed and read back: \<^verbatim>\<open>src/address.rs\<close>, the path form parsed by
  \<^verbatim>\<open>src/proxy.rs\<close>, the address list a device is told (\<^verbatim>\<open>src/state.rs\<close>), its continuation through the
  upstream chain (\<^verbatim>\<open>src/upstream/addresses.rs\<close>), the certificate names of \<^verbatim>\<open>src/tls.rs\<close> and the file
  modes of \<^verbatim>\<open>src/paths.rs\<close>. The protocol crate's \<^verbatim>\<open>DEVICE_PATH_PREFIX\<close> and \<^verbatim>\<open>DeviceId::parse\<close> are the
  parameters \<open>device_prefix\<close> and \<open>parse_id\<close>.
\<close>

section \<open>Addresses of this relay's devices\<close>

datatype device_entry = PathEntry | SubdomainEntry

record device_target =
  dt_device_id :: string
  dt_rest :: string
  dt_entry :: device_entry

definition path_base :: "string \<Rightarrow> string \<Rightarrow> string" where
  "path_base device_prefix device_id = device_prefix @ device_id @ ''/''"

definition base_path :: "string \<Rightarrow> device_target \<Rightarrow> string" where
  "base_path device_prefix t =
     (case dt_entry t of
        PathEntry \<Rightarrow> path_base device_prefix (dt_device_id t)
      | SubdomainEntry \<Rightarrow> ''/'')"

record device_addressing =
  da_public_url :: public_url
  da_subdomain_base :: "string option"

definition scheme :: "bool \<Rightarrow> string" where
  "scheme secure = (if secure then ''https'' else ''http'')"

definition device_url :: "string \<Rightarrow> device_addressing \<Rightarrow> string \<Rightarrow> string" where
  "device_url device_prefix a device_id =
     (case da_subdomain_base a of
        Some base \<Rightarrow>
          scheme (pu_secure (da_public_url a)) @ ''://'' @ device_id @ ''.'' @ base
            @ port_suffix (da_public_url a) @ ''/''
      | None \<Rightarrow> pu_origin (da_public_url a) @ path_base device_prefix device_id)"

definition query_part :: "string option \<Rightarrow> string" where
  "query_part query = (case query of Some q \<Rightarrow> ''?'' @ q | None \<Rightarrow> [])"

definition path_form_url ::
  "string \<Rightarrow> device_addressing \<Rightarrow> string \<Rightarrow> string \<Rightarrow> string option \<Rightarrow> string" where
  "path_form_url device_prefix a device_id rest query =
     pu_origin (da_public_url a) @ path_base device_prefix device_id @ rest @ query_part query"

definition normalize_host :: "string \<Rightarrow> string" where
  "normalize_host host0 =
     (let host = trim host0;
          name = (case rsplit_once (CHR '':'') host of
                    Some (name, _) \<Rightarrow> if \<not> suffix '']'' host then name else host
                  | None \<Rightarrow> host)
      in to_lowercase (trim_end_matches (CHR ''.'') name))"

definition device_from_host ::
  "(string \<Rightarrow> string option) \<Rightarrow> device_addressing \<Rightarrow> string \<Rightarrow> string option" where
  "device_from_host parse_id a host =
     (case da_subdomain_base a of
        None \<Rightarrow> None
      | Some base \<Rightarrow> Option.bind (label_of base (normalize_host host)) parse_id)"

definition addressing_wildcard_name :: "device_addressing \<Rightarrow> string option" where
  "addressing_wildcard_name a = map_option wildcard_name (da_subdomain_base a)"

datatype device_path = NeedsSlash string | Resource string string

definition parse_device_path :: "string \<Rightarrow> string \<Rightarrow> device_path option" where
  "parse_device_path device_prefix path =
     (case strip_prefix device_prefix path of
        None \<Rightarrow> None
      | Some remainder \<Rightarrow>
          (case split_once (CHR ''/'') remainder of
             Some (device_id, rest) \<Rightarrow>
               if device_id \<noteq> [] then Some (Resource device_id rest) else None
           | None \<Rightarrow> if remainder = [] then None else Some (NeedsSlash remainder)))"

section \<open>Addresses further up the chain\<close>

record upstream_relay =
  ur_relay_id :: string
  ur_relay_name :: string
  ur_origin :: string
  ur_hops :: u32

record upstream_reach =
  reach_relays :: "upstream_relay list"
  reach_chain :: "string list"

definition no_reach :: upstream_reach where
  "no_reach = \<lparr>reach_relays = [], reach_chain = []\<rparr>"

definition saturating_add :: "u32 \<Rightarrow> u32 \<Rightarrow> u32" where
  "saturating_add a b = (if unat a + unat b \<ge> 2 ^ 32 then - 1 else a + b)"

definition device_path_of :: "string \<Rightarrow> string \<Rightarrow> string" where
  "device_path_of device_prefix device_id = device_prefix @ device_id @ ''/''"

definition from_welcome ::
  "string \<Rightarrow> string \<Rightarrow> string \<Rightarrow> relay_address list \<Rightarrow> string list \<Rightarrow> upstream_reach" where
  "from_welcome device_prefix link_device_id upstream_relay_id addresses chain =
     (let sfx = device_path_of device_prefix link_device_id
      in \<lparr>reach_relays =
            List.map_filter (\<lambda>address.
              map_option (\<lambda>origin.
                \<lparr>ur_relay_id = ra_relay_id address, ur_relay_name = ra_relay_name address,
                 ur_origin = origin, ur_hops = saturating_add (ra_hops address) 1\<rparr>)
                (strip_suffix sfx (ra_url address))) addresses,
          reach_chain = upstream_relay_id # chain\<rparr>)"

definition addresses_for :: "string \<Rightarrow> upstream_reach \<Rightarrow> string \<Rightarrow> relay_address list" where
  "addresses_for device_prefix reach device_id =
     map (\<lambda>relay.
        \<lparr>ra_relay_id = ur_relay_id relay, ra_relay_name = ur_relay_name relay,
         ra_url = ur_origin relay @ device_path_of device_prefix device_id,
         ra_hops = ur_hops relay\<rparr>) (reach_relays reach)"

definition relay_address_of :: "string \<Rightarrow> string \<Rightarrow> device_addressing \<Rightarrow> string \<Rightarrow> relay_address" where
  "relay_address_of device_prefix relay_id a device_id =
     \<lparr>ra_relay_id = relay_id, ra_relay_name = pu_host (da_public_url a),
      ra_url = device_url device_prefix a device_id, ra_hops = 0\<rparr>"

definition device_addresses ::
  "string \<Rightarrow> string \<Rightarrow> device_addressing \<Rightarrow> upstream_reach \<Rightarrow> string \<Rightarrow> relay_address list" where
  "device_addresses device_prefix relay_id a reach device_id =
     relay_address_of device_prefix relay_id a device_id # addresses_for device_prefix reach device_id"

section \<open>Certificate names and file modes\<close>

record subject_names =
  sn_public_host :: string
  sn_wildcard :: "string option"

definition subject_alt_names :: "subject_names \<Rightarrow> string list" where
  "subject_alt_names names =
     (let host = trim (sn_public_host names);
          all = ''localhost'' # (if host \<noteq> [] \<and> host \<noteq> ''localhost'' then [host] else [])
      in all @ filter (\<lambda>name. name \<notin> set all) (option_list (sn_wildcard names)))"

unbundle bit_operations_syntax

definition owner_bits :: u32 where
  "owner_bits = 0x1C0"

definition permission_bits :: u32 where
  "permission_bits = 0xFFF"

definition tightened :: "u32 \<Rightarrow> u32 option" where
  "tightened current =
     (let narrowed = current AND owner_bits
      in if current AND permission_bits \<noteq> narrowed then Some narrowed else None)"

text \<open>
  \<^verbatim>\<open>restrict_to_owner\<close> on the mode word of one path: \<open>metadata\<close> is what reading it gave and \<open>set_ok\<close>
  whether the system accepts a change. A change of permissions replaces the twelve permission bits
  and keeps the file type. The result is the mode afterwards, whether a change was requested, and
  whether the warning is logged.
\<close>

definition chmod :: "u32 \<Rightarrow> u32 \<Rightarrow> u32" where
  "chmod current mode = (current AND NOT permission_bits) OR (mode AND permission_bits)"

definition restrict_to_owner :: "'e + u32 \<Rightarrow> bool \<Rightarrow> u32 option \<times> bool \<times> bool" where
  "restrict_to_owner metadata set_ok =
     (case metadata of
        Inl e \<Rightarrow> (None, False, True)
      | Inr current \<Rightarrow>
          (case tightened current of
             None \<Rightarrow> (Some current, False, False)
           | Some narrowed \<Rightarrow>
               if set_ok then (Some (chmod current narrowed), True, False) else (Some current, True, True)))"

section \<open>Reading an address back\<close>

lemma label_of_Some:
  "label_of base host = Some label \<longleftrightarrow>
     host = label @ ''.'' @ base \<and> label \<noteq> [] \<and> CHR ''.'' \<notin> set label"
  by (auto simp: label_of_def strip_suffix_Some split: option.splits)
     (metis append.assoc append_Cons append_Nil strip_suffix_append option.distinct(1))+

lemma normalize_host_plain:
  assumes "list_all graphic name" "name \<noteq> []" "CHR '':'' \<notin> set name" "last name \<noteq> CHR ''.''"
    and "list_all is_digit port"
  shows "normalize_host (name @ replicate n (CHR ''.'') @ (if port = [] then [] else CHR '':'' # port))
    = map ascii_lower name"
proof -
  let ?name = "name @ replicate n (CHR ''.'')"
  let ?host = "?name @ (if port = [] then [] else CHR '':'' # port)"
  have g: "list_all graphic ?host"
    using assms(1,5) by (auto simp: list_all_iff graphic_def is_digit_def)
  then have "graphic (hd ?host)" "graphic (last ?host)" using assms(2)
    by (metis append_is_Nil_conv hd_in_set last_in_set list_all_iff)+
  with assms(2) have trim: "trim ?host = ?host" by (intro trim_graphic) auto
  have name: "trim_end_matches (CHR ''.'') ?name = name"
    using assms(2,4) by (cases name rule: rev_cases) (auto simp: trim_end_matches_def dropWhile_append)
  have split: "(case rsplit_once (CHR '':'') ?host of
      Some (n, _) \<Rightarrow> if \<not> suffix '']'' ?host then n else ?host | None \<Rightarrow> ?host) = ?name"
  proof (cases "port = []")
    case True
    have "rsplit_once (CHR '':'') ?name = None" using assms(3) by (simp add: rsplit_once_None)
    with True show ?thesis by simp
  next
    case False
    have c: "CHR '':'' \<notin> set port" "CHR '']'' \<notin> set port"
      using assms(5) by (auto simp: list_all_iff is_digit_def)
    then have "rsplit_once (CHR '':'') ?host = Some (?name, port)"
      using False by (simp add: rsplit_once_Some)
    moreover have "\<not> suffix '']'' ?host"
      using False c by (cases port rule: rev_cases) (auto simp: suffix_def)
    ultimately show ?thesis using False by simp
  qed
  have "normalize_host ?host = to_lowercase (trim_end_matches (CHR ''.'') ?name)"
    unfolding normalize_host_def Let_def trim split ..
  also have "\<dots> = map ascii_lower name" by (simp only: name to_lowercase_graphic [OF assms(1)])
  finally show ?thesis by simp
qed

lemma map_ascii_lower_eq: "map ascii_lower s = t \<Longrightarrow> list_all graphic t \<Longrightarrow> list_all graphic s"
  by (auto simp: list_all_iff)

lemma ascii_lower_special:
  "ascii_lower c = CHR ''.'' \<longleftrightarrow> c = CHR ''.''" "ascii_lower c = CHR '':'' \<longleftrightarrow> c = CHR '':''"
proof -
  have "ascii_lower c \<noteq> x" if "is_upper c" "\<not> is_lower x" for x
  proof
    assume "ascii_lower c = x"
    then have "is_lower x" using that(1) by (auto simp: ascii_lower_def is_upper_def is_lower_def)
    with that(2) show False by simp
  qed
  moreover have "\<not> is_lower (CHR ''.'')" "\<not> is_lower (CHR '':'')" "\<not> is_upper (CHR ''.'')" "\<not> is_upper (CHR '':'')"
    by (simp_all add: is_lower_def is_upper_def)
  ultimately show "ascii_lower c = CHR ''.'' \<longleftrightarrow> c = CHR ''.''" "ascii_lower c = CHR '':'' \<longleftrightarrow> c = CHR '':''"
    by (metis ascii_lower_fixed)+
qed

lemma device_from_host_spelling:
  assumes base: "canonical_base base" and dev: "dev \<noteq> []" "list_all (\<lambda>c. is_lower c \<or> is_digit c) dev"
    and name: "map ascii_lower name = dev @ ''.'' @ base" and port: "list_all is_digit port"
  shows "device_from_host parse_id \<lparr>da_public_url = u, da_subdomain_base = Some base\<rparr>
      (name @ replicate n (CHR ''.'') @ (if port = [] then [] else CHR '':'' # port)) = parse_id dev"
proof -
  note f = canonical_base_facts [OF base]
  have idc: "list_all graphic dev" "CHR ''.'' \<notin> set dev" "CHR '':'' \<notin> set dev"
    using dev(2) by (auto simp: list_all_iff is_lower_def is_digit_def graphic_def)
  have g: "list_all graphic name"
    by (rule map_ascii_lower_eq [OF name]) (use idc f in \<open>auto simp: list_all_iff graphic_def\<close>)
  have ne: "name \<noteq> []" using name by auto
  have "CHR '':'' \<notin> set (map ascii_lower name)" using name idc f by simp
  then have "CHR '':'' \<notin> set name"
    using ascii_lower_special(2) [of "CHR '':''"] by (metis image_eqI image_set)
  moreover have "last (map ascii_lower name) = last base" unfolding name using f(1) by simp
  then have "ascii_lower (last name) = last base" by (simp only: last_map [OF ne])
  then have "last name \<noteq> CHR ''.''" using f(5) ascii_lower_special(1) [of "last name"] by auto
  ultimately have "normalize_host (name @ replicate n (CHR ''.'') @ (if port = [] then [] else CHR '':'' # port))
      = dev @ ''.'' @ base"
    using normalize_host_plain [OF g ne _ _ port] name by simp
  moreover have "label_of base (dev @ ''.'' @ base) = Some dev"
    using dev(1) idc(2) by (simp add: label_of_Some)
  ultimately show ?thesis by (simp add: device_from_host_def)
qed

lemma parse_device_path_Resource:
  "parse_device_path device_prefix path = Some (Resource d rest) \<longleftrightarrow>
     path = path_base device_prefix d @ rest \<and> d \<noteq> [] \<and> CHR ''/'' \<notin> set d"
proof
  assume "path = path_base device_prefix d @ rest \<and> d \<noteq> [] \<and> CHR ''/'' \<notin> set d"
  then show "parse_device_path device_prefix path = Some (Resource d rest)"
    by (simp add: parse_device_path_def path_base_def)
qed (auto simp: parse_device_path_def path_base_def strip_prefix_Some split_once_Some
      split: option.splits if_splits)

lemma parse_device_path_NeedsSlash:
  "parse_device_path device_prefix path = Some (NeedsSlash d) \<longleftrightarrow>
     path = device_prefix @ d \<and> d \<noteq> [] \<and> CHR ''/'' \<notin> set d"
proof
  assume "path = device_prefix @ d \<and> d \<noteq> [] \<and> CHR ''/'' \<notin> set d"
  moreover from this have "split_once (CHR ''/'') d = None" by (simp add: split_once_None)
  ultimately show "parse_device_path device_prefix path = Some (NeedsSlash d)"
    by (simp add: parse_device_path_def)
qed (auto simp: parse_device_path_def strip_prefix_Some split_once_None split: option.splits if_splits)

section \<open>Properties\<close>

definition sample_url :: public_url where
  "sample_url = \<lparr>pu_origin = ''https://r.io:8443'', pu_host = ''r.io:8443'', pu_secure = True\<rparr>"

lemma sample_base: "canonical_base ''r.io''"
  by (simp add: canonical_base_def is_host_label_def max_host_label_length_def is_ascii_alphanumeric_def
      is_upper_def is_lower_def is_digit_def suffix_def)

text \<open>C34: on a relay with an accepted subdomain base, however a browser spells a device's host (letter
  case, trailing dots, a port), the device found is the one whose id is the label; and conversely a
  host is only ever read as a device when it is a single label in front of the base.\<close>

theorem device_host_exact:
  assumes "subdomain_base_from_str v = Inr base"
    and "dev \<noteq> []" "list_all (\<lambda>c. is_lower c \<or> is_digit c) dev" "parse_id dev = Some dev"
    and "map ascii_lower name = dev @ ''.'' @ base" "list_all is_digit port"
    and "a = \<lparr>da_public_url = u, da_subdomain_base = Some base\<rparr>"
  shows "device_from_host parse_id a
      (name @ replicate n (CHR ''.'') @ (if port = [] then [] else CHR '':'' # port)) = Some dev
    \<and> (\<forall>host d. device_from_host parse_id a host = Some d \<longrightarrow>
        (\<exists>label. normalize_host host = label @ ''.'' @ base \<and> label \<noteq> [] \<and> CHR ''.'' \<notin> set label
           \<and> parse_id label = Some d))"
proof
  show "device_from_host parse_id a
      (name @ replicate n (CHR ''.'') @ (if port = [] then [] else CHR '':'' # port)) = Some dev"
    using device_from_host_spelling [OF subdomain_base_accepted [OF assms(1)] assms(2,3,5,6)] assms(4,7)
    by simp
qed (auto simp: assms(7) device_from_host_def label_of_Some split: bind_splits)

theorem device_host_exact_witness:
  "device_from_host Some \<lparr>da_public_url = sample_url, da_subdomain_base = Some ''r.io''\<rparr> ''AB.r.IO.:8443'' = Some ''ab''"
proof -
  have "subdomain_base_from_str ''r.io'' = Inr ''r.io''" by (rule canonical_base_accepted [OF sample_base])
  moreover have "map ascii_lower ''AB.r.IO'' = ''ab'' @ ''.'' @ ''r.io''" by code_simp
  ultimately show ?thesis
    using device_host_exact [of "''r.io''" "''r.io''" "''ab''" Some "''AB.r.IO''" "''8443''" _ sample_url 1, OF _ _ _ _ _ _ refl]
    by (simp add: is_lower_def is_digit_def)
qed

text \<open>The path form of an address is read back exactly: a path is a resource of a device if and only
  if it is that device's base followed by the rest, and lacks only its slash if and only if it is the
  prefix and the id.\<close>

lemma device_path_exact:
  "(parse_device_path device_prefix path = Some (Resource d rest) \<longleftrightarrow>
      path = path_base device_prefix d @ rest \<and> d \<noteq> [] \<and> CHR ''/'' \<notin> set d) \<and>
   (parse_device_path device_prefix path = Some (NeedsSlash d) \<longleftrightarrow>
      path = device_prefix @ d \<and> d \<noteq> [] \<and> CHR ''/'' \<notin> set d)"
  by (simp add: parse_device_path_Resource parse_device_path_NeedsSlash)

text \<open>So the rest of a resource path can start with a slash: a doubled slash after the id survives.\<close>

lemma device_path_keeps_double_slash:
  "parse_device_path ''/d/'' ''/d/abc//ws'' = Some (Resource ''abc'' ''/ws'')"
  by (simp add: parse_device_path_Resource path_base_def)

lemma from_welcome_Cons:
  "addresses_for device_prefix (from_welcome device_prefix link up (a # as) chain) d =
     (case strip_suffix (device_path_of device_prefix link) (ra_url a) of
        None \<Rightarrow> []
      | Some origin \<Rightarrow> [a\<lparr>ra_url := origin @ device_path_of device_prefix d, ra_hops := saturating_add (ra_hops a) 1\<rparr>])
     @ addresses_for device_prefix (from_welcome device_prefix link up as chain) d"
  by (auto simp: addresses_for_def from_welcome_def map_filter_simps split: option.splits)

definition one_hop_further :: "relay_address \<Rightarrow> relay_address" where
  "one_hop_further a = a\<lparr>ra_hops := saturating_add (ra_hops a) 1\<rparr>"

lemma from_welcome_reach:
  "addresses_for device_prefix
     (from_welcome device_prefix link up (addresses_for device_prefix reach link) chain) d
   = map one_hop_further (addresses_for device_prefix reach d)"
proof -
  have "addresses_for device_prefix \<lparr>reach_relays = rs, reach_chain = c\<rparr> x =
      map (\<lambda>r. \<lparr>ra_relay_id = ur_relay_id r, ra_relay_name = ur_relay_name r,
        ra_url = ur_origin r @ device_path_of device_prefix x, ra_hops = ur_hops r\<rparr>) rs" for rs c x
    by (simp add: addresses_for_def)
  moreover have "addresses_for device_prefix (from_welcome device_prefix link up
      (map (\<lambda>r. \<lparr>ra_relay_id = ur_relay_id r, ra_relay_name = ur_relay_name r,
        ra_url = ur_origin r @ device_path_of device_prefix link, ra_hops = ur_hops r\<rparr>) rs) chain) d =
      map one_hop_further (map (\<lambda>r. \<lparr>ra_relay_id = ur_relay_id r, ra_relay_name = ur_relay_name r,
        ra_url = ur_origin r @ device_path_of device_prefix d, ra_hops = ur_hops r\<rparr>) rs)" for rs
    by (induction rs) (simp_all add: from_welcome_Cons one_hop_further_def,
        simp add: addresses_for_def from_welcome_def map_filter_simps)
  ultimately show ?thesis by (cases reach) simp
qed

text \<open>C35: when the upstream relay advertises path-form addresses, what a relay derives from its own
  welcome for one of its devices is exactly the address list the upstream would hand out for that
  device, each entry one hop further.\<close>

theorem upstream_addresses_exact:
  assumes "da_subdomain_base a = None"
  shows "addresses_for device_prefix
      (from_welcome device_prefix link up (device_addresses device_prefix up a reach link) chain) d
    = map one_hop_further (device_addresses device_prefix up a reach d)"
  using assms
  by (simp add: device_addresses_def from_welcome_Cons from_welcome_reach relay_address_of_def device_url_def
      path_base_def device_path_of_def one_hop_further_def strip_suffix_Some [THEN iffD2])

theorem upstream_addresses_exact_witness:
  "map ra_url (addresses_for ''/d/'' (from_welcome ''/d/'' ''lnk'' ''up''
      (device_addresses ''/d/'' ''up'' \<lparr>da_public_url = sample_url, da_subdomain_base = None\<rparr> no_reach ''lnk'') []) ''dev'')
   = [''https://r.io:8443/d/dev/'']"
proof -
  note upstream_addresses_exact [of "\<lparr>da_public_url = sample_url, da_subdomain_base = None\<rparr>"
      "''/d/''" "''lnk''" "''up''" no_reach "[]" "''dev''"]
  then show ?thesis
    by (simp add: device_addresses_def relay_address_of_def device_url_def path_base_def sample_url_def
        one_hop_further_def addresses_for_def no_reach_def)
qed

text \<open>But an upstream that serves devices on subdomains contributes no address of its own: its url
  does not end in the path form, and only the relays above it survive.\<close>

lemma subdomain_upstream_is_dropped:
  assumes "subdomain_base_from_str v = Inr base" "public_url_from_str w = Inr u"
    and "CHR ''/'' \<notin> set link" "link \<noteq> []"
    and "a = \<lparr>da_public_url = u, da_subdomain_base = Some base\<rparr>"
  shows "addresses_for ''/d/''
      (from_welcome ''/d/'' link up (device_addresses ''/d/'' up a reach link) chain) d
    = map one_hop_further (addresses_for ''/d/'' reach d)"
proof -
  have no_slash: "CHR ''/'' \<notin> set (link @ ''.'' @ base @ port_suffix u)"
  proof -
    have "CHR ''/'' \<notin> set (pu_host u)"
      using public_url_from_str_shape(3) [OF assms(2)] by (auto simp: path_char_def)
    then have "CHR ''/'' \<notin> set (port_suffix u)" by (metis Un_iff host_name_port_suffix set_append)
    with assms(3) canonical_base_facts(7) [OF subdomain_base_accepted [OF assms(1)]] show ?thesis by simp
  qed
  let ?tail = "link @ ''.'' @ base @ port_suffix u"
  have "strip_suffix (device_path_of ''/d/'' link) (scheme s @ ''://'' @ ?tail @ ''/'') = None" for s
  proof (rule ccontr)
    assume "strip_suffix (device_path_of ''/d/'' link) (scheme s @ ''://'' @ ?tail @ ''/'') \<noteq> None"
    then obtain origin where "scheme s @ ''://'' @ ?tail @ ''/'' = origin @ device_path_of ''/d/'' link"
      by (auto simp: strip_suffix_Some)
    then have e: "(scheme s @ '':/'') @ CHR ''/'' # ?tail = (origin @ ''/d'') @ CHR ''/'' # link"
      by (simp add: device_path_of_def)
    have "rsplit_once (CHR ''/'') ((scheme s @ '':/'') @ CHR ''/'' # ?tail) = Some (scheme s @ '':/'', ?tail)"
      using no_slash by (intro rsplit_once_Some [THEN iffD2]) auto
    moreover have "rsplit_once (CHR ''/'') ((origin @ ''/d'') @ CHR ''/'' # link) = Some (origin @ ''/d'', link)"
      using assms(3) by (intro rsplit_once_Some [THEN iffD2]) auto
    ultimately have "?tail = link" using e by simp
    then show False by simp
  qed
  then show ?thesis
    by (simp add: assms(5) device_addresses_def from_welcome_Cons from_welcome_reach relay_address_of_def
        device_url_def)
qed

theorem subdomain_upstream_is_dropped_witness:
  "addresses_for ''/d/'' (from_welcome ''/d/'' ''lnk'' ''up'' (device_addresses ''/d/'' ''up''
      \<lparr>da_public_url = sample_url, da_subdomain_base = Some ''r.io''\<rparr> no_reach ''lnk'') []) ''dev'' = []"
proof -
  have "public_url_from_str (pu_origin sample_url) = Inr sample_url"
  proof (rule public_url_from_str_origin)
    show "trim (pu_origin sample_url) = pu_origin sample_url"
      by (rule trim_graphic) (simp_all add: sample_url_def graphic_def)
  qed (auto simp: sample_url_def path_char_def)
  from subdomain_upstream_is_dropped [OF canonical_base_accepted [OF sample_base] this _ _ refl, of "''lnk''"]
  show ?thesis by (simp add: addresses_for_def no_reach_def)
qed

text \<open>A path whose mode can be changed ends up without any group, other, setuid, setgid or sticky bit,
  with the owner's bits and the file type as they were, and a second start changes nothing.\<close>

lemma restrict_to_owner_narrows:
  assumes "restrict_to_owner (Inr current :: 'e + u32) True = (Some mode, changed, warned)"
  shows "mode AND permission_bits = current AND owner_bits
    \<and> mode AND NOT permission_bits = current AND NOT permission_bits
    \<and> restrict_to_owner (Inr mode :: 'e + u32) set_ok = (Some mode, False, False)"
proof -
  have "owner_bits AND permission_bits = owner_bits" by (simp add: owner_bits_def permission_bits_def)
  then have sub: "bit owner_bits n \<Longrightarrow> bit permission_bits n" for n by (metis bit_and_iff)
  have narrow: "mode AND permission_bits = current AND owner_bits"
    and keep: "mode AND NOT permission_bits = current AND NOT permission_bits"
    using assms sub
    by (auto simp: restrict_to_owner_def tightened_def chmod_def Let_def bit_eq_iff bit_simps
        split: if_splits)
  have "mode AND owner_bits = (mode AND permission_bits) AND owner_bits"
    using sub by (auto simp: bit_eq_iff bit_simps)
  with narrow have "mode AND permission_bits = mode AND owner_bits" by (simp add: and.assoc)
  with narrow keep show ?thesis by (simp add: restrict_to_owner_def tightened_def)
qed

theorem restrict_to_owner_narrows_witness:
  "(0x81C0 :: u32) AND permission_bits = 0x81ED AND owner_bits"
proof -
  have "restrict_to_owner (Inr 0x81ED :: unit + u32) True = (Some 0x81C0, True, False)"
    by (simp add: restrict_to_owner_def tightened_def chmod_def Let_def owner_bits_def permission_bits_def)
  from restrict_to_owner_narrows [OF this] show ?thesis by blast
qed

end
