(* ===== verification/Headers.thy ===== *)
theory Headers
  imports Auth Address
begin

text \<open>
  What happens to the headers of a request that is forwarded and of the response that comes back
  (\<^verbatim>\<open>src/proxy.rs\<close>), and who the relay believes the client is (\<^verbatim>\<open>src/forwarded.rs\<close>). The header map,
  its values and its names belong to the \<^verbatim>\<open>http\<close> crate: their operations are the record \<open>header_ops\<close>,
  a parameter of every definition, and \<open>header_laws\<close> states what that crate documents about them.
\<close>

section \<open>The header map as a parameter\<close>

record ('h, 'v) header_ops =
  h_get_all :: "'h \<Rightarrow> string \<Rightarrow> 'v list"
  h_remove :: "string \<Rightarrow> 'h \<Rightarrow> 'h"
  h_insert :: "string \<Rightarrow> 'v \<Rightarrow> 'h \<Rightarrow> 'h"
  h_append :: "string \<Rightarrow> 'v \<Rightarrow> 'h \<Rightarrow> 'h"
  v_to_str :: "'v \<Rightarrow> string option"
  v_from_str :: "string \<Rightarrow> 'v option"
  n_try_from :: "string \<Rightarrow> string option"

text \<open>
  The documented behaviour: removing, replacing and appending affect the named field only; a value
  renders as text exactly when all its bytes are visible ASCII, and such a text makes the value that
  renders as it.
\<close>

definition visible :: "char \<Rightarrow> bool" where
  "visible c \<longleftrightarrow> graphic c \<or> c = CHR '' '' \<or> c = CHR 0x09"

definition header_laws :: "('h, 'v) header_ops \<Rightarrow> bool" where
  "header_laws ops \<longleftrightarrow>
     (\<forall>n m h. h_get_all ops (h_remove ops n h) m = (if m = n then [] else h_get_all ops h m)) \<and>
     (\<forall>n m v h. h_get_all ops (h_insert ops n v h) m = (if m = n then [v] else h_get_all ops h m)) \<and>
     (\<forall>n m v h. h_get_all ops (h_append ops n v h) m
        = (if m = n then h_get_all ops h n @ [v] else h_get_all ops h m)) \<and>
     (\<forall>v s. v_to_str ops v = Some s \<longrightarrow> list_all visible s) \<and>
     (\<forall>s. list_all visible s \<longrightarrow>
        (\<exists>v. v_from_str ops s = Some v \<and> v_to_str ops v = Some s))"

definition h_get :: "('h, 'v) header_ops \<Rightarrow> 'h \<Rightarrow> string \<Rightarrow> 'v option" where
  "h_get ops h name = (case h_get_all ops h name of [] \<Rightarrow> None | v # _ \<Rightarrow> Some v)"

section \<open>Cookies of a proxied request\<close>

definition cookie_name :: "string \<Rightarrow> string option" where
  "cookie_name entry =
     map_option (\<lambda>(name, _). trim name) (split_once (CHR ''='') (hd (split_on (CHR '';'') entry)))"

definition without_cookie :: "string \<Rightarrow> string \<Rightarrow> string" where
  "without_cookie header name =
     join ''; '' (filter (\<lambda>entry. entry \<noteq> [] \<and> cookie_name entry \<noteq> Some name)
       (map trim (split_on (CHR '';'') header)))"

definition set_header :: "('h, 'v) header_ops \<Rightarrow> string \<Rightarrow> string \<Rightarrow> 'h \<Rightarrow> 'h" where
  "set_header ops name value headers =
     (case v_from_str ops value of
        Some v \<Rightarrow> h_insert ops name v headers
      | None \<Rightarrow> h_remove ops name headers)"

definition take_console_session :: "('h, 'v) header_ops \<Rightarrow> 'h \<Rightarrow> 'h" where
  "take_console_session ops headers =
     (case Option.bind (h_get ops headers ''cookie'') (v_to_str ops) of
        None \<Rightarrow> headers
      | Some value \<Rightarrow>
          (let remaining = without_cookie value session_cookie_name
           in if remaining = [] then h_remove ops ''cookie'' headers
              else set_header ops ''cookie'' remaining headers))"

definition refuse_console_session_cookies :: "('h, 'v) header_ops \<Rightarrow> 'h \<Rightarrow> 'h" where
  "refuse_console_session_cookies ops headers =
     (let kept = filter (\<lambda>value.
            case v_to_str ops value of
              Some text \<Rightarrow> cookie_name text \<noteq> Some session_cookie_name
            | None \<Rightarrow> False) (h_get_all ops headers ''set-cookie'')
      in fold (h_append ops ''set-cookie'') kept (h_remove ops ''set-cookie'' headers))"

section \<open>Hop-by-hop headers\<close>

definition hop_by_hop_headers :: "string list" where
  "hop_by_hop_headers = [''connection'', ''keep-alive'', ''proxy-authenticate'', ''proxy-authorization'',
     ''te'', ''trailer'', ''transfer-encoding'', ''upgrade'']"

definition strip_hop_by_hop :: "('h, 'v) header_ops \<Rightarrow> bool \<Rightarrow> 'h \<Rightarrow> 'h" where
  "strip_hop_by_hop ops keep_upgrade headers =
     (let listed =
            (case Option.bind (h_get ops headers ''connection'') (v_to_str ops) of
               Some value \<Rightarrow> List.map_filter (\<lambda>name. n_try_from ops (trim name)) (split_on (CHR '','') value)
             | None \<Rightarrow> [])
      in fold (\<lambda>name h.
           if keep_upgrade \<and> (name = ''connection'' \<or> name = ''upgrade'') then h
           else h_remove ops name h)
         (List.map_filter (n_try_from ops) hop_by_hop_headers @ listed) headers)"

definition is_websocket_upgrade :: "('h, 'v) header_ops \<Rightarrow> 'h \<Rightarrow> bool" where
  "is_websocket_upgrade ops headers =
     (case Option.bind (h_get ops headers ''upgrade'') (v_to_str ops) of
        Some value \<Rightarrow> eq_ignore_ascii_case value ''websocket''
      | None \<Rightarrow> False)"

section \<open>The client behind a request\<close>

record client_context =
  cc_ip :: string
  cc_proto :: string
  cc_host :: string

text \<open>The names of the forwarding headers are constants of the protocol crate.\<close>

record forward_names =
  fn_for :: string
  fn_proto :: string
  fn_host :: string
  fn_base :: string

definition header_value :: "('h, 'v) header_ops \<Rightarrow> 'h \<Rightarrow> string \<Rightarrow> string option" where
  "header_value ops headers name = Option.bind (h_get ops headers name) (v_to_str ops)"

definition first_forwarded_address :: "(string \<Rightarrow> string option) \<Rightarrow> string \<Rightarrow> string option" where
  "first_forwarded_address parse_ip value =
     parse_ip (trim_end_matches (CHR '']'') (trim_start_matches (CHR ''['')
       (trim (hd (split_on (CHR '','') value)))))"

text \<open>
  \<^verbatim>\<open>forwarded::resolve\<close>. \<open>trusted\<close> tells whether the peer is in a trusted network; addresses are their
  rendered form.
\<close>

definition resolve_client ::
  "('h, 'v) header_ops \<Rightarrow> forward_names \<Rightarrow> (string \<Rightarrow> string option) \<Rightarrow> (string \<Rightarrow> bool) \<Rightarrow> bool
     \<Rightarrow> device_addressing \<Rightarrow> 'h \<Rightarrow> string \<Rightarrow> client_context" where
  "resolve_client ops fn parse_ip in_trusted_network tls_enabled a headers peer =
     (let trusted = (\<not> tls_enabled \<and> in_trusted_network peer);
          secure = pu_secure (da_public_url a);
          fallback_host = (case header_value ops headers ''host'' of
             Some host \<Rightarrow> host | None \<Rightarrow> pu_host (da_public_url a))
      in if \<not> trusted
         then \<lparr>cc_ip = peer, cc_proto = scheme secure, cc_host = fallback_host\<rparr>
         else
           \<lparr>cc_ip = (case Option.bind (header_value ops headers (fn_for fn)) (first_forwarded_address parse_ip) of
                       Some ip \<Rightarrow> ip | None \<Rightarrow> peer),
            cc_proto = (case header_value ops headers (fn_proto fn) of
                          Some proto \<Rightarrow> proto | None \<Rightarrow> scheme secure),
            cc_host = (case header_value ops headers (fn_host fn) of
                         Some host \<Rightarrow> host | None \<Rightarrow> fallback_host)\<rparr>)"

definition prepare_request_headers ::
  "('h, 'v) header_ops \<Rightarrow> forward_names \<Rightarrow> client_context \<Rightarrow> string \<Rightarrow> bool \<Rightarrow> 'h \<Rightarrow> 'h" where
  "prepare_request_headers ops fn client base websocket headers0 =
     (let headers1 = strip_hop_by_hop ops websocket headers0;
          headers2 = h_remove ops ''host'' headers1;
          headers3 = take_console_session ops headers2;
          headers4 = set_header ops (fn_for fn) (cc_ip client) headers3;
          headers5 = set_header ops (fn_proto fn) (cc_proto client) headers4;
          headers6 = set_header ops (fn_host fn) (cc_host client) headers5
      in set_header ops (fn_base fn) base headers6)"

text \<open>\<^verbatim>\<open>relay_response\<close> on the status and the headers of the device's answer.\<close>

definition relay_response_headers :: "('h, 'v) header_ops \<Rightarrow> nat \<Rightarrow> 'h \<Rightarrow> 'h" where
  "relay_response_headers ops status headers =
     refuse_console_session_cookies ops (strip_hop_by_hop ops (status = 101) headers)"

section \<open>Trimming and joining cookies\<close>

lemma strip_all_trim_end_start: "strip_all whitespace (trim s) = trim s"
proof (rule strip_all_id, intro ballI impI notI)
  fix w assume w: "w \<in> set whitespace" "w \<noteq> []" "prefix w (trim s)"
  have "suffix (strip_all (map rev whitespace) (rev (trim_start s))) (rev (trim_start s))"
    by (rule strip_all_suffix)
  then have "prefix (trim s) (trim_start s)" by (simp add: trim_def trim_end_def suffix_to_prefix)
  with w(3) have "prefix w (strip_all whitespace s)" by (auto simp: trim_start_def intro: prefix_order.trans)
  with strip_all_no_prefix [OF w(1,2)] show False by blast
qed

lemma trim_idem [simp]: "trim (trim s) = trim s"
proof -
  have "strip_all (map rev whitespace) (rev (trim s)) = rev (trim s)"
    by (simp add: trim_def [of s] trim_end_def)
  then show ?thesis
    by (simp add: trim_def [of "trim s"] trim_start_def trim_end_def strip_all_trim_end_start)
qed

lemma blank_whitespace: "w \<in> set whitespace \<Longrightarrow> hd w = CHR '' '' \<Longrightarrow> w = '' ''"
proof -
  have "list_all (\<lambda>w. hd w = CHR '' '' \<longrightarrow> w = '' '') whitespace" by code_simp
  then show "w \<in> set whitespace \<Longrightarrow> hd w = CHR '' '' \<Longrightarrow> w = '' ''" by (simp add: list_all_iff)
qed

lemma blank_in_whitespace: "'' '' \<in> set whitespace"
proof -
  have "list_ex (\<lambda>w. w = '' '') whitespace" by code_simp
  then show ?thesis by (simp add: list_ex_iff)
qed

lemma trim_Nil [simp]: "trim [] = []"
proof -
  have "strip_all ws ([] :: string) = []" for ws by (rule strip_all_id) auto
  then show ?thesis by (simp add: trim_def trim_start_def trim_end_def)
qed

lemma trim_blank [simp]: "trim (CHR '' '' # s) = trim s"
proof -
  have "strip_all whitespace (CHR '' '' # s) = strip_all whitespace s"
  proof (cases "find (\<lambda>w. w \<noteq> [] \<and> prefix w (CHR '' '' # s)) whitespace")
    case None
    then show ?thesis using blank_in_whitespace by (force simp: find_None_iff)
  next
    case (Some w)
    then have w: "w \<in> set whitespace" "w \<noteq> []" "prefix w (CHR '' '' # s)" by (auto dest: find_in_set)
    from w(2,3) have "hd w = CHR '' ''" by (auto simp: neq_Nil_conv)
    with w(1) have "w = '' ''" by (rule blank_whitespace)
    with Some show ?thesis by (subst strip_all.simps) simp
  qed
  then show ?thesis by (simp add: trim_def trim_start_def)
qed

lemma split_join_blank:
  "es \<noteq> [] \<Longrightarrow> \<forall>e \<in> set es. CHR '';'' \<notin> set e \<Longrightarrow>
   split_on (CHR '';'') (join ''; '' es) = hd es # map (\<lambda>e. CHR '' '' # e) (tl es)"
proof (induction "''; ''" es rule: join.induct)
  case (3 x y ys)
  from 3 have IH: "split_on (CHR '';'') (join ''; '' (y # ys)) = y # map (\<lambda>e. CHR '' '' # e) ys" by simp
  have "split_on (CHR '';'') (x @ CHR '';'' # CHR '' '' # join ''; '' (y # ys))
      = x # split_on (CHR '';'') (CHR '' '' # join ''; '' (y # ys))" using 3 by (intro split_on_append) simp
  also have "split_on (CHR '';'') (CHR '' '' # join ''; '' (y # ys)) = (CHR '' '' # y) # map (\<lambda>e. CHR '' '' # e) ys"
    by (simp add: IH)
  finally show ?case by simp
qed simp_all

lemma session_entry_named:
  assumes "CHR '';'' \<notin> set e" "session_entry e = Some v"
  shows "cookie_name (trim e) = Some session_cookie_name"
proof -
  have "CHR '';'' \<notin> set (trim e)" using assms(1) trim_sublist by blast
  moreover have "trim session_cookie_name = session_cookie_name"
    by (rule trim_graphic) (simp_all add: session_cookie_name_def graphic_def)
  ultimately show ?thesis
    using assms(2) by (auto simp: session_entry_def cookie_name_def split: option.splits if_splits)
qed

lemma clean_join:
  assumes "\<forall>e \<in> set es. CHR '';'' \<notin> set e \<and> session_entry e = None \<and> session_entry (CHR '' '' # e) = None"
  shows "List.map_filter session_entry (split_on (CHR '';'') (join ''; '' es)) = []"
proof (cases es)
  case (Cons x xs)
  then have "split_on (CHR '';'') (join ''; '' es) = x # map (\<lambda>e. CHR '' '' # e) xs"
    using split_join_blank [of es] assms by simp
  with assms Cons show ?thesis by (auto simp: map_filter_def filter_empty_conv)
qed (simp add: map_filter_def session_entry_def)

lemma without_cookie_clean: "read_session_cookies [without_cookie header session_cookie_name] = []"
proof -
  have "CHR '';'' \<notin> set e \<and> session_entry e = None \<and> session_entry (CHR '' '' # e) = None"
    if e: "e = trim p" "p \<in> set (split_on (CHR '';'') header)" "cookie_name e \<noteq> Some session_cookie_name" for e p
  proof -
    have semi: "CHR '';'' \<notin> set e" using split_on_pieces [OF e(2)] trim_sublist [of p] e(1) by blast
    have "trim e = e" using e(1) by simp
    with session_entry_named [OF semi] e(3) have "session_entry e = None" by (cases "session_entry e") auto
    with semi show ?thesis by (simp add: session_entry_def)
  qed
  then have "List.map_filter session_entry (split_on (CHR '';'') (without_cookie header session_cookie_name)) = []"
    unfolding without_cookie_def by (intro clean_join) auto
  then show ?thesis by (simp add: read_session_cookies_def)
qed

section \<open>Which fields an operation touches\<close>

lemma header_lawsD:
  assumes "header_laws ops"
  shows "h_get_all ops (h_remove ops n h) m = (if m = n then [] else h_get_all ops h m)"
    and "h_get_all ops (h_insert ops n v h) m = (if m = n then [v] else h_get_all ops h m)"
    and "h_get_all ops (h_append ops n v h) m = (if m = n then h_get_all ops h n @ [v] else h_get_all ops h m)"
  using assms by (simp_all add: header_laws_def)

lemma get_set_header:
  "header_laws ops \<Longrightarrow> h_get_all ops (set_header ops n s h) m =
     (if m = n then option_list (v_from_str ops s) else h_get_all ops h m)"
  by (simp add: set_header_def header_lawsD split: option.splits)

lemma get_strip:
  assumes "header_laws ops"
  shows "h_get_all ops (strip_hop_by_hop ops keep h) m = h_get_all ops h m \<or>
    h_get_all ops (strip_hop_by_hop ops keep h) m = []"
proof -
  have fold: "h_get_all ops (fold (\<lambda>name h. if K name then h else h_remove ops name h) names h0) m
        = h_get_all ops h0 m \<or>
      h_get_all ops (fold (\<lambda>name h. if K name then h else h_remove ops name h) names h0) m = []" for K names h0
  proof (induction names arbitrary: h0)
    case (Cons a names)
    then show ?case
      using Cons.IH [of "h_remove ops a h0"] Cons.IH [of h0] header_lawsD(1) [OF assms, of a h0 m]
      by (auto split: if_splits)
  qed simp
  show ?thesis unfolding strip_hop_by_hop_def Let_def by (rule fold)
qed

lemma fold_append:
  "header_laws ops \<Longrightarrow> h_get_all ops (fold (h_append ops n) vs h) m =
     (if m = n then h_get_all ops h n @ vs else h_get_all ops h m)"
  by (induction vs arbitrary: h) (auto simp: header_lawsD)

lemma visible_without_cookie:
  assumes "list_all visible s"
  shows "list_all visible (without_cookie s name)"
proof -
  have join: "set (join sep xss) \<subseteq> set sep \<union> \<Union> (set (map set xss))" for sep :: string and xss
    by (induction sep xss rule: join.induct) auto
  have "set (trim p) \<subseteq> set s" if "p \<in> set (split_on (CHR '';'') s)" for p
    using split_on_pieces [OF that] trim_sublist [of p] by blast
  then have "\<Union> (set (map set (filter P (map trim (split_on (CHR '';'') s))))) \<subseteq> set s" for P
    by auto
  then have "set (without_cookie s name) \<subseteq> set ''; '' \<union> set s"
    unfolding without_cookie_def by (intro order.trans [OF join] Un_mono) simp_all
  moreover have "visible (CHR '';'')" "visible (CHR '' '')" by (simp_all add: visible_def graphic_def)
  ultimately show ?thesis using assms unfolding list_all_iff by auto
qed

lemma take_console_session_cookie:
  assumes laws: "header_laws ops" and "\<And>v. h_get ops h ''cookie'' = Some v \<Longrightarrow> v_to_str ops v \<noteq> None"
    and v: "v \<in> set (h_get_all ops (take_console_session ops h) ''cookie'')" "v_to_str ops v = Some s"
  shows "read_session_cookies [s] = []"
proof (cases "h_get_all ops h ''cookie''")
  case Nil
  with v show ?thesis by (simp add: take_console_session_def h_get_def)
next
  case (Cons w ws)
  with assms(2) obtain val where val: "v_to_str ops w = Some val" by (auto simp: h_get_def)
  let ?rest = "without_cookie val session_cookie_name"
  have take: "take_console_session ops h =
      (if ?rest = [] then h_remove ops ''cookie'' h else set_header ops ''cookie'' ?rest h)"
    using Cons val by (simp add: take_console_session_def h_get_def)
  with v laws have "v_from_str ops ?rest = Some v"
    by (auto simp: header_lawsD get_set_header split: if_splits)
  moreover have "list_all visible ?rest"
    using laws val by (intro visible_without_cookie) (simp add: header_laws_def)
  ultimately have "v_to_str ops v = Some ?rest" using laws by (auto simp: header_laws_def)
  with v(2) have "s = ?rest" by simp
  then show ?thesis by (simp only: without_cookie_clean)
qed

section \<open>A header map as a list of fields\<close>

text \<open>An instance of the parameter, for concrete inputs: the fields in order, values as byte strings.\<close>

definition list_headers :: "((string \<times> string) list, string) header_ops" where
  "list_headers =
     \<lparr>h_get_all = (\<lambda>h n. map snd (filter (\<lambda>(m, _). m = n) h)),
      h_remove = (\<lambda>n h. filter (\<lambda>(m, _). m \<noteq> n) h),
      h_insert = (\<lambda>n v h. filter (\<lambda>(m, _). m \<noteq> n) h @ [(n, v)]),
      h_append = (\<lambda>n v h. h @ [(n, v)]),
      v_to_str = (\<lambda>v. if list_all visible v then Some v else None),
      v_from_str = (\<lambda>s. if list_all (\<lambda>c. visible c \<or> 128 \<le> (of_char c :: nat)) s then Some s else None),
      n_try_from = (\<lambda>s. if s \<noteq> [] \<and> list_all graphic s then Some (map ascii_lower s) else None)\<rparr>"

lemma list_headers_laws: "header_laws list_headers"
proof -
  have swap: "filter (\<lambda>(m, _). m = k) (filter (\<lambda>(m, _). m \<noteq> n) h) =
      (if k = n then [] else filter (\<lambda>(m, _). m = k) h)" for k n and h :: "(string \<times> string) list"
    by (induction h) auto
  have mono: "list_all visible s \<Longrightarrow> list_all (\<lambda>c. visible c \<or> 128 \<le> (of_char c :: nat)) s" for s
    by (simp add: list_all_iff)
  show ?thesis
    unfolding header_laws_def by (auto simp: list_headers_def swap mono simp del: filter_filter split: if_splits)
qed

definition sample_names :: forward_names where
  "sample_names = \<lparr>fn_for = ''x-forwarded-for'', fn_proto = ''x-forwarded-proto'',
     fn_host = ''x-forwarded-host'', fn_base = ''x-termexo-base''\<rparr>"

definition sample_client :: client_context where
  "sample_client = \<lparr>cc_ip = ''192.0.2.7'', cc_proto = ''https'', cc_host = ''r.io''\<rparr>"

section \<open>Properties\<close>

definition forward_names_ok :: "forward_names \<Rightarrow> bool" where
  "forward_names_ok fn \<longleftrightarrow>
     distinct [fn_for fn, fn_proto fn, fn_host fn, fn_base fn, ''cookie'', ''host'']"

lemma prepared_cookie:
  assumes "header_laws ops" "forward_names_ok fn"
  shows "h_get_all ops (prepare_request_headers ops fn client base websocket h) ''cookie''
    = h_get_all ops (take_console_session ops
        (h_remove ops ''host'' (strip_hop_by_hop ops websocket h))) ''cookie''"
  using assms by (auto simp: prepare_request_headers_def Let_def get_set_header forward_names_ok_def)

text \<open>C27: a forwarded request names the client only as the relay sees it, whatever forwarding headers the
  browser sent, and carries no console session in any readable cookie, provided the first cookie
  field of the browser's request is readable text.\<close>

theorem forwarded_request_is_clean:
  assumes "header_laws ops" "forward_names_ok fn"
    and "\<And>v. h_get ops h ''cookie'' = Some v \<Longrightarrow> v_to_str ops v \<noteq> None"
    and "h' = prepare_request_headers ops fn client base websocket h"
  shows "(\<forall>v \<in> set (h_get_all ops h' ''cookie''). \<forall>s. v_to_str ops v = Some s \<longrightarrow> read_session_cookies [s] = [])
    \<and> h_get_all ops h' (fn_for fn) = option_list (v_from_str ops (cc_ip client))
    \<and> h_get_all ops h' (fn_proto fn) = option_list (v_from_str ops (cc_proto client))
    \<and> h_get_all ops h' (fn_host fn) = option_list (v_from_str ops (cc_host client))
    \<and> h_get_all ops h' (fn_base fn) = option_list (v_from_str ops base)"
proof -
  let ?h = "h_remove ops ''host'' (strip_hop_by_hop ops websocket h)"
  have "h_get ops ?h ''cookie'' = h_get ops h ''cookie'' \<or> h_get ops ?h ''cookie'' = None"
    using get_strip [OF assms(1), of websocket h "''cookie''"]
    by (auto simp: h_get_def header_lawsD [OF assms(1)])
  then have "v_to_str ops v \<noteq> None" if "h_get ops ?h ''cookie'' = Some v" for v
    using that assms(3) by auto
  then have "\<forall>v \<in> set (h_get_all ops h' ''cookie''). \<forall>s. v_to_str ops v = Some s \<longrightarrow> read_session_cookies [s] = []"
    using take_console_session_cookie [OF assms(1)] unfolding assms(4) prepared_cookie [OF assms(1,2)] by blast
  moreover have "h_get_all ops h' (fn_for fn) = option_list (v_from_str ops (cc_ip client))
    \<and> h_get_all ops h' (fn_proto fn) = option_list (v_from_str ops (cc_proto client))
    \<and> h_get_all ops h' (fn_host fn) = option_list (v_from_str ops (cc_host client))
    \<and> h_get_all ops h' (fn_base fn) = option_list (v_from_str ops base)"
    using assms(2) by (auto simp: assms(4) prepare_request_headers_def Let_def get_set_header [OF assms(1)]
        forward_names_ok_def)
  ultimately show ?thesis by blast
qed

theorem forwarded_request_is_clean_witness:
  "h_get_all list_headers (prepare_request_headers list_headers sample_names sample_client ''/d/x/'' False
      [(''x-forwarded-for'', ''6.6.6.6''), (''cookie'', ''termexo_relay_session=t; a=b'')]) ''x-forwarded-for''
   = [''192.0.2.7'']"
proof -
  have "list_all visible ''termexo_relay_session=t; a=b''" "list_all visible ''192.0.2.7''"
    by (simp_all add: visible_def graphic_def)
  then show ?thesis
    using forwarded_request_is_clean [OF list_headers_laws, of sample_names
        "[(''x-forwarded-for'', ''6.6.6.6''), (''cookie'', ''termexo_relay_session=t; a=b'')]", OF _ _ refl,
        of sample_client "''/d/x/''" False]
    by (simp add: forward_names_ok_def sample_names_def list_headers_def h_get_def sample_client_def list_all_iff)
qed

text \<open>When the first cookie field is not readable text, the request is forwarded with all its cookie
  fields as they came, console session included.\<close>

lemma unreadable_cookie_leaks:
  assumes "header_laws ops" "forward_names_ok fn"
    and "h_get_all ops h ''cookie'' = v # vs" "v_to_str ops v = None"
    and "h_get_all ops h ''connection'' = []" "\<forall>n. n_try_from ops n = Some ''cookie'' \<longrightarrow> n \<notin> set hop_by_hop_headers"
  shows "h_get_all ops (prepare_request_headers ops fn client base websocket h) ''cookie'' = v # vs"
proof -
  have fold: "h_get_all ops (fold (\<lambda>name h. if K name then h else h_remove ops name h) names h0) ''cookie''
      = h_get_all ops h0 ''cookie''" if "''cookie'' \<notin> set names" for K names h0
    using that by (induction names arbitrary: h0) (auto simp: header_lawsD [OF assms(1)])
  have "''cookie'' \<notin> set (List.map_filter (n_try_from ops) hop_by_hop_headers)"
    using assms(6) by (auto simp: map_filter_def)
  then have "h_get_all ops (strip_hop_by_hop ops websocket h) ''cookie'' = v # vs"
    using assms(3,5) by (simp add: strip_hop_by_hop_def h_get_def fold)
  then have "h_get_all ops (h_remove ops ''host'' (strip_hop_by_hop ops websocket h)) ''cookie'' = v # vs"
    by (simp add: header_lawsD [OF assms(1)])
  then show ?thesis
    unfolding prepared_cookie [OF assms(1,2)]
    using assms(4) by (simp add: take_console_session_def h_get_def)
qed

theorem unreadable_cookie_leaks_witness:
  "h_get_all list_headers (prepare_request_headers list_headers sample_names sample_client ''/d/x/'' False
      [(''cookie'', [CHR 0xE4]), (''cookie'', ''termexo_relay_session=t'')]) ''cookie''
   = [[CHR 0xE4], ''termexo_relay_session=t'']"
proof (rule unreadable_cookie_leaks [OF list_headers_laws])
  show "\<forall>n. n_try_from list_headers n = Some ''cookie'' \<longrightarrow> n \<notin> set hop_by_hop_headers"
    by (auto simp: list_headers_def hop_by_hop_headers_def)
qed (auto simp: forward_names_ok_def sample_names_def list_headers_def visible_def graphic_def)

text \<open>Only the first cookie field survives: whatever further fields the browser sent (over HTTP/2, one field
  per cookie) are gone after the session is taken out, the device's own cookies among them.\<close>

lemma later_cookie_fields_are_lost:
  assumes "header_laws ops" "h_get_all ops h ''cookie'' = v # vs" "v_to_str ops v = Some s"
  shows "\<exists>ws. h_get_all ops (take_console_session ops h) ''cookie'' = ws \<and> length ws \<le> 1 \<and>
    (\<forall>w \<in> set ws. v_to_str ops w = Some (without_cookie s session_cookie_name))"
proof -
  have "list_all visible (without_cookie s session_cookie_name)"
    using assms(1,3) visible_without_cookie unfolding header_laws_def by blast
  with assms(1) obtain w where "v_from_str ops (without_cookie s session_cookie_name) = Some w"
      "v_to_str ops w = Some (without_cookie s session_cookie_name)"
    unfolding header_laws_def by blast
  then show ?thesis
    using assms(2,3) by (simp add: take_console_session_def h_get_def set_header_def header_lawsD [OF assms(1)] Let_def)
qed

theorem later_cookie_fields_are_lost_witness:
  "\<exists>ws. h_get_all list_headers (take_console_session list_headers
      [(''cookie'', ''a=b''), (''cookie'', ''device=1''), (''cookie'', ''termexo_relay_session=t'')]) ''cookie'' = ws \<and>
    length ws \<le> 1 \<and> (\<forall>w \<in> set ws. v_to_str list_headers w = Some (without_cookie ''a=b'' session_cookie_name))"
proof (rule later_cookie_fields_are_lost [OF list_headers_laws])
  have "list_all visible ''a=b''" by code_simp
  then show "v_to_str list_headers ''a=b'' = Some ''a=b''" by (simp add: list_headers_def)
qed (simp add: list_headers_def)

text \<open>Names of fields are compared in lower case, so a list of names that does not mention a field leaves it alone.\<close>

lemma strip_keeps:
  assumes "header_laws ops" "\<forall>n k. n_try_from ops n = Some k \<longrightarrow> k = map ascii_lower n"
    and "m \<notin> set (map (map ascii_lower) hop_by_hop_headers)"
    and "\<forall>value. header_value ops h ''connection'' = Some value \<longrightarrow>
      m \<notin> set (map (\<lambda>name. map ascii_lower (trim name)) (split_on (CHR '','') value))"
  shows "h_get_all ops (strip_hop_by_hop ops keep h) m = h_get_all ops h m"
proof -
  have fold: "h_get_all ops (fold (\<lambda>name h. if K name then h else h_remove ops name h) names h0) m = h_get_all ops h0 m"
    if "m \<notin> set names" for K names h0
    using that by (induction names arbitrary: h0) (auto simp: header_lawsD [OF assms(1)])
  have "m \<notin> set (List.map_filter (n_try_from ops) hop_by_hop_headers)"
    using assms(2,3) by (fastforce simp: map_filter_def)
  moreover have "m \<notin> set (List.map_filter (\<lambda>name. n_try_from ops (trim name)) (split_on (CHR '','') line))"
    if "Option.bind (h_get ops h ''connection'') (v_to_str ops) = Some line" for line
    using that assms(2,4) by (fastforce simp: map_filter_def header_value_def)
  ultimately show ?thesis unfolding strip_hop_by_hop_def Let_def by (intro fold) (auto split: option.split)
qed

text \<open>C30: whatever a device answers, no readable or unreadable \<^verbatim>\<open>Set-Cookie\<close> field that names the console's
  session reaches the browser; and every other readable one that the device has sent does, in order, unless its own
  \<^verbatim>\<open>Connection\<close> field lists \<^verbatim>\<open>Set-Cookie\<close> as a field for one hop only. Names of header fields are taken to be in
  lower case once the \<^verbatim>\<open>http\<close> crate has read them.\<close>

theorem device_cannot_set_session:
  assumes "header_laws ops" "h' = relay_response_headers ops status h"
  shows "(\<forall>v \<in> set (h_get_all ops h' ''set-cookie'').
        \<exists>s. v_to_str ops v = Some s \<and> cookie_name s \<noteq> Some session_cookie_name) \<and>
    ((\<forall>n k. n_try_from ops n = Some k \<longrightarrow> k = map ascii_lower n) \<and>
     (\<forall>value. header_value ops h ''connection'' = Some value \<longrightarrow>
        ''set-cookie'' \<notin> set (map (\<lambda>name. map ascii_lower (trim name)) (split_on (CHR '','') value))) \<longrightarrow>
     h_get_all ops h' ''set-cookie'' =
        filter (\<lambda>v. case v_to_str ops v of Some s \<Rightarrow> cookie_name s \<noteq> Some session_cookie_name | None \<Rightarrow> False)
          (h_get_all ops h ''set-cookie''))"
proof -
  have all: "h_get_all ops h' ''set-cookie'' =
      filter (\<lambda>v. case v_to_str ops v of Some s \<Rightarrow> cookie_name s \<noteq> Some session_cookie_name | None \<Rightarrow> False)
        (h_get_all ops (strip_hop_by_hop ops (status = 101) h) ''set-cookie'')"
    by (simp add: assms(2) relay_response_headers_def refuse_console_session_cookies_def
        fold_append [OF assms(1)] header_lawsD [OF assms(1)])
  have "''set-cookie'' \<notin> set (map (map ascii_lower) hop_by_hop_headers)" by code_simp
  then have "h_get_all ops (strip_hop_by_hop ops (status = 101) h) ''set-cookie'' = h_get_all ops h ''set-cookie''"
    if "\<forall>n k. n_try_from ops n = Some k \<longrightarrow> k = map ascii_lower n"
      "\<forall>value. header_value ops h ''connection'' = Some value \<longrightarrow>
        ''set-cookie'' \<notin> set (map (\<lambda>name. map ascii_lower (trim name)) (split_on (CHR '','') value))"
    using strip_keeps [OF assms(1) that(1) _ that(2)] by blast
  with all show ?thesis by (auto split: option.splits)
qed

theorem device_cannot_set_session_witness:
  "h_get_all list_headers (relay_response_headers list_headers 200
     [(''set-cookie'', ''termexo_relay_session=evil; Path=/''), (''set-cookie'', ''a=b''), (''te'', ''x'')]) ''set-cookie'' = [''a=b'']"
proof -
  let ?h = "[(''set-cookie'', ''termexo_relay_session=evil; Path=/''), (''set-cookie'', ''a=b''), (''te'', ''x'')]"
  have "list_all visible ''termexo_relay_session=evil; Path=/''" "list_all visible ''a=b''"
    by (simp_all add: visible_def graphic_def)
  moreover have "trim ''termexo_relay_session'' = ''termexo_relay_session''" "trim ''a'' = ''a''"
    by (rule trim_graphic; simp add: graphic_def)+
  then have "cookie_name ''termexo_relay_session=evil; Path=/'' = Some session_cookie_name" "cookie_name ''a=b'' = Some ''a''"
    "session_cookie_name \<noteq> ''a''" by (simp_all add: cookie_name_def session_cookie_name_def)
  ultimately have "filter (\<lambda>v. case v_to_str list_headers v of Some s \<Rightarrow> cookie_name s \<noteq> Some session_cookie_name | None \<Rightarrow> False)
      (h_get_all list_headers ?h ''set-cookie'') = [''a=b'']"
    by (simp add: list_headers_def)
  moreover have "\<forall>n k. n_try_from list_headers n = Some k \<longrightarrow> k = map ascii_lower n" by (simp add: list_headers_def)
  moreover have "header_value list_headers ?h ''connection'' = None" by (simp add: list_headers_def header_value_def h_get_def)
  ultimately show ?thesis
    using device_cannot_set_session [OF list_headers_laws refl, of 200 ?h] by simp
qed

end
