(* ===== verification/Relay_State.thy ===== *)
theory Relay_State
  imports Registry_Laws Headers "HOL-Library.List_Lexorder" "HOL-Library.Char_ord"
begin

text \<open>
  The state every handler shares (\<^verbatim>\<open>src/state.rs\<close>), the audit trail (\<^verbatim>\<open>src/audit.rs\<close>), the error shape of the
  API (\<^verbatim>\<open>src/api/error.rs\<close>), the extractors that decide who is calling (\<^verbatim>\<open>src/api/mod.rs\<close>) and the views the
  console reads (\<^verbatim>\<open>src/api/views.rs\<close>). Functions of other crates are collected in \<open>externals\<close>: hashing,
  credentials, random bytes, JSON rendering and the failure throttle, whose state (its own clock
  included) has the type \<open>'l\<close>. Messages to people are constructors, not their Chinese text.
\<close>

section \<open>State\<close>

datatype json = JStr string | JNum nat | JBool bool

record 'l externals =
  x_hash_secret :: "string \<Rightarrow> string"
  x_parse_hash :: "string \<Rightarrow> string option"
  x_argon2_verify :: "string \<Rightarrow> string \<Rightarrow> bool"
  x_hash_password :: "nat \<Rightarrow> string \<Rightarrow> string + string"
  x_credential :: "nat \<Rightarrow> string + string \<times> string"
  x_credential_text :: "string \<times> string \<Rightarrow> string"
  x_parse_credential :: "string \<Rightarrow> (string \<times> string) option"
  x_secret_matches :: "string \<Rightarrow> string \<Rightarrow> bool"
  x_fill :: "nat \<Rightarrow> nat \<Rightarrow> string + 8 word list"
  x_json :: "(string \<times> json) list \<Rightarrow> string"
  x_is_locked :: "'l \<Rightarrow> string \<Rightarrow> bool"
  x_record_failure :: "'l \<Rightarrow> string \<Rightarrow> 'l"
  x_lock_clear :: "'l \<Rightarrow> string \<Rightarrow> 'l"
  x_device_prefix :: string
  x_max_hops :: nat
  x_protocol_version :: u32
  x_close_revoked :: nat
  x_close_going_away :: nat
  x_close_unauthorized :: nat

record 'l relay =
  rl_db :: database
  rl_registry :: registry
  rl_reach :: upstream_reach
  rl_lockout :: 'l
  rl_relay_id :: string
  rl_addressing :: device_addressing
  rl_tls_enabled :: bool
  rl_outbox :: "(tunnel_handle \<times> outgoing) list"

definition device_access_url :: "'l externals \<Rightarrow> 'l relay \<Rightarrow> string \<Rightarrow> string" where
  "device_access_url x s device_id = device_url (x_device_prefix x) (rl_addressing s) device_id"

definition state_addresses :: "'l externals \<Rightarrow> 'l relay \<Rightarrow> string \<Rightarrow> relay_address list" where
  "state_addresses x s device_id =
     device_addresses (x_device_prefix x) (rl_relay_id s) (rl_addressing s) (rl_reach s) device_id"

definition is_public_secure :: "'l relay \<Rightarrow> bool" where
  "is_public_secure s = pu_secure (da_public_url (rl_addressing s))"

text \<open>
  \<open>rl_outbox\<close> holds what is queued for the writer tasks of the tunnels and not yet written. A queue
  takes \<^verbatim>\<open>COMMAND_CAPACITY\<close> messages; what does not fit is dropped. The queue of a tunnel that is gone
  is never read again.
\<close>

definition command_capacity :: nat where
  "command_capacity = 64"

definition pending :: "tunnel_handle \<Rightarrow> 'l relay \<Rightarrow> (tunnel_handle \<times> outgoing) list" where
  "pending h s = filter (\<lambda>(g, _). th_channel g = th_channel h) (rl_outbox s)"

definition try_send :: "tunnel_handle \<Rightarrow> outgoing \<Rightarrow> 'l relay \<Rightarrow> 'l relay" where
  "try_send h m s =
     (if length (pending h s) < command_capacity then s\<lparr>rl_outbox := rl_outbox s @ [(h, m)]\<rparr> else s)"

definition send_frame :: "tunnel_handle \<Rightarrow> control_frame \<Rightarrow> 'l relay \<Rightarrow> 'l relay" where
  "send_frame h frame s = try_send h (Control frame) s"

definition close_tunnel :: "tunnel_handle \<Rightarrow> nat \<Rightarrow> string \<Rightarrow> 'l relay \<Rightarrow> 'l relay" where
  "close_tunnel h code reason s = try_send h (Close code reason) s"

definition revoke_tunnel :: "'l externals \<Rightarrow> tunnel_handle \<Rightarrow> string \<Rightarrow> 'l relay \<Rightarrow> 'l relay" where
  "revoke_tunnel x h reason s =
     close_tunnel h (x_close_revoked x) reason (send_frame h (Revoked reason) s)"

definition disconnect_tunnel :: "'l externals \<Rightarrow> tunnel_handle \<Rightarrow> string \<Rightarrow> 'l relay \<Rightarrow> 'l relay" where
  "disconnect_tunnel x h reason s = close_tunnel h (x_close_going_away x) reason s"

section \<open>Errors\<close>

datatype api_message =
    NotLoggedIn
  | AdminRequired
  | CsrfRequired
  | LockedOut
  | InternalMessage
  | UsernameTakenMessage
  | EmptyField string
  | TooLongField string nat
  | InvalidCode
  | InvalidAccount
  | InvalidLogin
  | WrongCurrentPassword
  | PasswordTooShort nat
  | UnknownUser
  | NothingToUpdate
  | CannotDeleteSelf
  | UsernameHasSpaces
  | UnknownDevice
  | NotYourDevice
  | UnknownAccess
  | UnknownEnrollment
  | AlreadySettled
  | UnknownOwner
  | NoteTooLong
  | InvalidCredential
  | MalformedJson
  | IncompleteJson
  | MissingJsonType
  | UnreadableBody
  | MalformedQuery
  | Opaque string

record api_error =
  ae_status :: nat
  ae_message :: api_message

definition bad_request :: "api_message \<Rightarrow> api_error" where
  "bad_request m = \<lparr>ae_status = 400, ae_message = m\<rparr>"

definition unauthorized :: "api_message \<Rightarrow> api_error" where
  "unauthorized m = \<lparr>ae_status = 401, ae_message = m\<rparr>"

definition forbidden :: "api_message \<Rightarrow> api_error" where
  "forbidden m = \<lparr>ae_status = 403, ae_message = m\<rparr>"

definition not_found :: "api_message \<Rightarrow> api_error" where
  "not_found m = \<lparr>ae_status = 404, ae_message = m\<rparr>"

definition conflict :: "api_message \<Rightarrow> api_error" where
  "conflict m = \<lparr>ae_status = 409, ae_message = m\<rparr>"

definition internal :: api_error where
  "internal = \<lparr>ae_status = 500, ae_message = InternalMessage\<rparr>"

fun api_error_of_db :: "database_error \<Rightarrow> api_error" where
  "api_error_of_db UsernameTaken = conflict UsernameTakenMessage"
| "api_error_of_db (Sqlite e) = internal"
| "api_error_of_db (RandomError e) = internal"
| "api_error_of_db (UnknownValue field v) = internal"

text \<open>A database method inside a handler: its error becomes the handler's.\<close>

definition lift_db :: "(database \<Rightarrow> 'r \<times> database) \<Rightarrow> 'l relay \<Rightarrow> 'r \<times> 'l relay" where
  "lift_db m s = (let (r, db) = m (rl_db s) in (r, s\<lparr>rl_db := db\<rparr>))"

definition in_db ::
  "(database \<Rightarrow> (database_error + 'a) \<times> database) \<Rightarrow> 'l relay \<Rightarrow> (api_error + 'a) \<times> 'l relay" where
  "in_db m = map_err api_error_of_db (lift_db m)"

definition modify :: "('l relay \<Rightarrow> 'l relay) \<Rightarrow> 'l relay \<Rightarrow> (api_error + unit) \<times> 'l relay" where
  "modify f s = (Inr (), f s)"

definition gets :: "('l relay \<Rightarrow> 'a) \<Rightarrow> 'l relay \<Rightarrow> (api_error + 'a) \<times> 'l relay" where
  "gets f s = (Inr (f s), s)"

definition draw :: "'l relay \<Rightarrow> nat \<times> 'l relay" where
  "draw s = (d_draws (rl_db s), s\<lparr>rl_db := (rl_db s)\<lparr>d_draws := d_draws (rl_db s) + 1\<rparr>\<rparr>)"

definition clock :: "'l relay \<Rightarrow> (api_error + int) \<times> 'l relay" where
  "clock s = (let (now, db) = now_millis (rl_db s) in (Inr now, s\<lparr>rl_db := db\<rparr>))"

section \<open>Audit entries\<close>

datatype actor_kind = ActorUser | ActorDevice | ActorSystem

fun actor_str :: "actor_kind \<Rightarrow> string" where
  "actor_str ActorUser = ''user''"
| "actor_str ActorDevice = ''device''"
| "actor_str ActorSystem = ''system''"

record audit_entry =
  ae_actor_kind :: actor_kind
  ae_actor_id :: "string option"
  ae_action :: string
  ae_target_kind :: "string option"
  ae_target_id :: "string option"
  ae_ip :: "string option"
  ae_detail :: "(string \<times> json) list"

definition audit_new :: "actor_kind \<Rightarrow> string \<Rightarrow> audit_entry" where
  "audit_new kind action = \<lparr>ae_actor_kind = kind, ae_actor_id = None, ae_action = action,
     ae_target_kind = None, ae_target_id = None, ae_ip = None, ae_detail = []\<rparr>"

definition audit_actor :: "string \<Rightarrow> audit_entry \<Rightarrow> audit_entry" where
  "audit_actor actor_id e = e\<lparr>ae_actor_id := Some actor_id\<rparr>"

definition audit_target :: "string \<Rightarrow> string \<Rightarrow> audit_entry \<Rightarrow> audit_entry" where
  "audit_target kind ident e = e\<lparr>ae_target_kind := Some kind, ae_target_id := Some ident\<rparr>"

definition audit_from_ip :: "string \<Rightarrow> audit_entry \<Rightarrow> audit_entry" where
  "audit_from_ip ip e = e\<lparr>ae_ip := Some ip\<rparr>"

definition audit_detail :: "string \<Rightarrow> json \<Rightarrow> audit_entry \<Rightarrow> audit_entry" where
  "audit_detail key v e = e\<lparr>ae_detail := AList.update key v (ae_detail e)\<rparr>"

definition by_user :: "string \<Rightarrow> string \<Rightarrow> audit_entry" where
  "by_user user_id action = audit_actor user_id (audit_new ActorUser action)"

definition by_device :: "string \<Rightarrow> string \<Rightarrow> audit_entry" where
  "by_device device_id action =
     audit_target ''device'' device_id (audit_actor device_id (audit_new ActorDevice action))"

definition by_system :: "string \<Rightarrow> audit_entry" where
  "by_system action = audit_new ActorSystem action"

definition into_record :: "'l externals \<Rightarrow> int \<Rightarrow> audit_entry \<Rightarrow> audit_record" where
  "into_record x now e =
     \<lparr>au_id = 0, au_at = now, au_actor_kind = actor_str (ae_actor_kind e), au_actor_id = ae_actor_id e,
      au_action = ae_action e, au_target_kind = ae_target_kind e, au_target_id = ae_target_id e,
      au_ip = ae_ip e, au_detail = (if ae_detail e = [] then None else Some (x_json x (ae_detail e)))\<rparr>"

text \<open>\<^verbatim>\<open>audit::record\<close> swallows a failed write.\<close>

definition audit_write :: "'l externals \<Rightarrow> audit_entry \<Rightarrow> database \<Rightarrow> database" where
  "audit_write x e db = (let (now, db1) = now_millis db in snd (write_audit (into_record x now e) db1))"

definition audit :: "'l externals \<Rightarrow> audit_entry \<Rightarrow> 'l relay \<Rightarrow> (api_error + unit) \<times> 'l relay" where
  "audit x e = modify (\<lambda>s. s\<lparr>rl_db := audit_write x e (rl_db s)\<rparr>)"

section \<open>Who is calling\<close>

definition require_csrf_marker ::
  "string \<Rightarrow> string \<Rightarrow> string \<Rightarrow> string \<Rightarrow> string option \<Rightarrow> (api_error + unit)" where
  "require_csrf_marker enroll_path health_path http_method path marker =
     (let exempt = (\<not> prefix ''/api/'' path \<or> path = enroll_path \<or> path = health_path);
          safe_method = (http_method \<in> {''GET'', ''HEAD'', ''OPTIONS''})
      in if exempt \<or> safe_method then Inr ()
         else if \<not> has_csrf_marker marker then Inl (forbidden CsrfRequired)
         else Inr ())"

text \<open>The loop over the candidates of \<^verbatim>\<open>SessionUser::from_request_parts\<close>.\<close>

fun first_session ::
  "'l externals \<Rightarrow> int \<Rightarrow> string list \<Rightarrow> 'l relay \<Rightarrow> (api_error + user_record \<times> string) \<times> 'l relay" where
  "first_session x now [] = errE (unauthorized NotLoggedIn)"
| "first_session x now (token # tokens) =
     bindE (in_db (resolve_session (x_hash_secret x) token now)) (\<lambda>found.
       case found of
         Some user \<Rightarrow> okE (user, token)
       | None \<Rightarrow> first_session x now tokens)"

definition readable_cookies :: "('h, 'v) header_ops \<Rightarrow> 'h \<Rightarrow> string list" where
  "readable_cookies ops headers = List.map_filter (v_to_str ops) (h_get_all ops headers ''cookie'')"

definition session_user ::
  "'l externals \<Rightarrow> ('h, 'v) header_ops \<Rightarrow> 'h \<Rightarrow> 'l relay \<Rightarrow> (api_error + user_record \<times> string) \<times> 'l relay" where
  "session_user x ops headers =
     bindE clock (\<lambda>now. first_session x now (read_session_cookies (readable_cookies ops headers)))"

definition admin_user ::
  "'l externals \<Rightarrow> ('h, 'v) header_ops \<Rightarrow> 'h \<Rightarrow> 'l relay \<Rightarrow> (api_error + user_record \<times> string) \<times> 'l relay" where
  "admin_user x ops headers =
     bindE (session_user x ops headers) (\<lambda>session.
       if \<not> is_admin (u_role (fst session)) then errE (forbidden AdminRequired) else okE session)"

definition require_text :: "string \<Rightarrow> string \<Rightarrow> nat \<Rightarrow> api_error + string" where
  "require_text v field max_length =
     (let trimmed = trim v
      in if trimmed = [] then Inl (bad_request (EmptyField field))
         else if chars_count trimmed > max_length then Inl (bad_request (TooLongField field max_length))
         else Inr trimmed)"

text \<open>A pure check inside a handler.\<close>

definition check :: "('e + 'a) \<Rightarrow> 's \<Rightarrow> ('e + 'a) \<times> 's" where
  "check r s = (r, s)"

section \<open>Views\<close>

record user_view =
  uv_id :: string
  uv_username :: string
  uv_role :: user_role
  uv_disabled :: bool
  uv_created_at :: int
  uv_last_login_at :: "int option"
  uv_device_count :: nat

record device_view =
  dv_id :: string
  dv_kind :: device_kind
  dv_name :: string
  dv_owner_user_id :: "string option"
  dv_owner_username :: "string option"
  dv_online :: bool
  dv_connected_since :: "int option"
  dv_last_seen_at :: "int option"
  dv_last_ip :: "string option"
  dv_last_version :: "string option"
  dv_via :: "string list"
  dv_via_names :: "string list"
  dv_revoked_at :: "int option"
  dv_note :: "string option"
  dv_access_url :: string
  dv_access :: device_access

record enrollment_view =
  ev_id :: string
  ev_kind :: device_kind
  ev_owner_user_id :: "string option"
  ev_owner_username :: "string option"
  ev_note :: "string option"
  ev_created_by :: string
  ev_created_at :: int
  ev_expires_at :: int
  ev_used_at :: "int option"
  ev_used_by_device_id :: "string option"
  ev_status :: enrollment_status

record view_context =
  vc_usernames :: "(string \<times> string) list"
  vc_online :: "(string \<times> online_device) list"

definition build_context :: "'l relay \<Rightarrow> (api_error + view_context) \<times> 'l relay" where
  "build_context =
     bindE (in_db list_users) (\<lambda>users.
       gets (\<lambda>s.
         \<lparr>vc_usernames = fold (\<lambda>u. AList.update (u_id u) (u_username u)) users [],
          vc_online = fold (\<lambda>d. AList.update (od_device_id d) d) (snapshot (rl_registry s)) []\<rparr>))"

definition username_of :: "view_context \<Rightarrow> string option \<Rightarrow> string option" where
  "username_of c user_id = Option.bind user_id (map_of (vc_usernames c))"

definition view_user :: "user_record \<Rightarrow> nat \<Rightarrow> user_view" where
  "view_user u device_count =
     \<lparr>uv_id = u_id u, uv_username = u_username u, uv_role = u_role u, uv_disabled = u_disabled u,
      uv_created_at = u_created_at u, uv_last_login_at = u_last_login_at u, uv_device_count = device_count\<rparr>"

definition or_else :: "'a option \<Rightarrow> 'a option \<Rightarrow> 'a option" where
  "or_else a b = (case a of Some v \<Rightarrow> Some v | None \<Rightarrow> b)"

definition view_device :: "'l externals \<Rightarrow> 'l relay \<Rightarrow> view_context \<Rightarrow> device_record \<Rightarrow> device_view" where
  "view_device x s c r =
     (let live = map_of (vc_online c) (d_id r);
          hops = (case live of Some d \<Rightarrow> route_hops (od_route d) | None \<Rightarrow> [])
      in \<lparr>dv_id = d_id r, dv_kind = d_kind r, dv_name = d_name r, dv_owner_user_id = d_owner_user_id r,
          dv_owner_username = username_of c (d_owner_user_id r), dv_online = (live \<noteq> None),
          dv_connected_since = map_option od_connected_since live, dv_last_seen_at = d_last_seen_at r,
          dv_last_ip = or_else (Option.bind live od_ip) (d_last_ip r),
          dv_last_version = or_else (Option.bind live od_version) (d_last_version r),
          dv_via = hops, dv_via_names = hop_names (rl_registry s) hops,
          dv_revoked_at = d_revoked_at r, dv_note = d_note r,
          dv_access_url = device_access_url x s (d_id r), dv_access = d_access r\<rparr>)"

definition view_announced_device :: "'l externals \<Rightarrow> 'l relay \<Rightarrow> online_device \<Rightarrow> device_view" where
  "view_announced_device x s d =
     (let hops = route_hops (od_route d)
      in \<lparr>dv_id = od_device_id d, dv_kind = od_kind d, dv_name = od_name d, dv_owner_user_id = None,
          dv_owner_username = None, dv_online = True, dv_connected_since = Some (od_connected_since d),
          dv_last_seen_at = Some (od_connected_since d), dv_last_ip = None, dv_last_version = None,
          dv_via = hops, dv_via_names = hop_names (rl_registry s) hops, dv_revoked_at = None, dv_note = None,
          dv_access_url = device_access_url x s (od_device_id d), dv_access = Public\<rparr>)"

definition announced_only ::
  "'l externals \<Rightarrow> 'l relay \<Rightarrow> view_context \<Rightarrow> device_record list \<Rightarrow> device_view list" where
  "announced_only x s c known =
     sort_key dv_name (map (view_announced_device x s)
       (filter (\<lambda>d. \<not> list_ex (\<lambda>r. d_id r = od_device_id d) known)
         (filter (\<lambda>d. route_hops (od_route d) \<noteq> []) (map snd (vc_online c)))))"

definition view_enrollment :: "view_context \<Rightarrow> int \<Rightarrow> enrollment_record \<Rightarrow> enrollment_view" where
  "view_enrollment c now r =
     \<lparr>ev_id = en_id r, ev_kind = en_kind r, ev_owner_user_id = en_owner_user_id r,
      ev_owner_username = username_of c (en_owner_user_id r), ev_note = en_note r,
      ev_created_by = en_created_by r, ev_created_at = en_created_at r, ev_expires_at = en_expires_at r,
      ev_used_at = en_used_at r, ev_used_by_device_id = en_used_by_device_id r,
      ev_status = enrollment_status r now\<rparr>"

definition live_device_count :: "device_record list \<Rightarrow> nat" where
  "live_device_count devices = length (filter (\<lambda>d. \<not> is_revoked d) devices)"

section \<open>A concrete environment\<close>

text \<open>
  Instances of the parameters, used where a property is applied to a concrete run: hashing is a
  visible marker, credentials are \<open>id:secret\<close>, and the throttle locks a key after five failures.
\<close>

definition sample_x :: "string list externals" where
  "sample_x = \<lparr>x_hash_secret = (\<lambda>s. ''#'' @ s), x_parse_hash = Some, x_argon2_verify = (\<lambda>p h. h = ''#'' @ p),
     x_hash_password = (\<lambda>_ p. Inr (''#'' @ p)), x_credential = (\<lambda>n. Inr (''id'' @ decimal n, ''s'' @ decimal n)),
     x_credential_text = (\<lambda>(i, s). i @ '':'' @ s), x_parse_credential = split_once (CHR '':''),
     x_secret_matches = (\<lambda>s h. h = ''#'' @ s), x_fill = (\<lambda>_ n. Inr (replicate n 0)), x_json = concat \<circ> map fst,
     x_is_locked = (\<lambda>l k. 5 \<le> count_list l k), x_record_failure = (\<lambda>l k. k # l),
     x_lock_clear = (\<lambda>l k. removeAll k l), x_device_prefix = ''/d/'', x_max_hops = 8, x_protocol_version = 1,
     x_close_revoked = 4001, x_close_going_away = 1001, x_close_unauthorized = 4003\<rparr>"

definition sample_device_row :: device_row where
  "sample_device_row = \<lparr>dw_id = ''desk'', dw_kind = ''desktop'', dw_name = ''Study'', dw_owner_user_id = Some ''u1'',
     dw_secret_hash = ''#s'', dw_note = None, dw_created_at = 0, dw_revoked_at = None, dw_last_seen_at = None,
     dw_last_ip = None, dw_last_version = None, dw_access = ''relay-login''\<rparr>"

definition sample_relay :: "string list relay" where
  "sample_relay = \<lparr>rl_db = sample_users_db\<lparr>d_devices := [sample_device_row]\<rparr>, rl_registry = sample_table,
     rl_reach = no_reach, rl_lockout = [], rl_relay_id = ''A'',
     rl_addressing = \<lparr>da_public_url = sample_url, da_subdomain_base = None\<rparr>,
     rl_tls_enabled = True, rl_outbox = []\<rparr>"

definition sample_device_record :: device_record where
  "sample_device_record = \<lparr>d_id = ''desk'', d_kind = Desktop, d_name = ''Study'', d_owner_user_id = Some ''u1'',
     d_secret_hash = ''#s'', d_note = None, d_created_at = 0, d_revoked_at = None, d_last_seen_at = None,
     d_last_ip = None, d_last_version = None, d_access = RelayLogin\<rparr>"

lemma sample_row_found:
  assumes "d_devices db = [sample_device_row]" "d_fail db = (\<lambda>_. False)"
  shows "find_device ''desk'' db = (Inr (Some sample_device_record), db\<lparr>d_stmts := d_stmts db + 1\<rparr>)"
proof -
  have "trim ''relay-login'' = ''relay-login''" by (rule trim_graphic) (simp_all add: graphic_def)
  with assms show ?thesis
    by (simp add: find_device_def flatten_query first_row_def read_device_row_def parse_device_row_def parse_device_kind_def
      device_access_from_str_def sample_device_row_def sample_device_record_def optional_text_def)
qed

lemma sample_device_found:
  "find_device ''desk'' (rl_db sample_relay) = (Inr (Some sample_device_record), (rl_db sample_relay)\<lparr>d_stmts := 1\<rparr>)"
  by (simp add: sample_row_found sample_relay_def sample_users_db_def sample_db_def)

end
