(* ===== verification/Stream_Chain.thy ===== *)
theory Stream_Chain
  imports Registry_Laws
begin

text \<open>
  How a stream reaches a device: the preface the public proxy writes and the connector that opens the
  stream (\<^verbatim>\<open>src/proxy.rs\<close>), the forwarding of a stream that an upstream opened
  (\<^verbatim>\<open>src/upstream/forward.rs\<close>), and the composition of both along a chain of relays. Reading a
  preface and opening a yamux stream are operations of the protocol crate and of the multiplexer:
  they are parameters, as are \<^verbatim>\<open>StreamPreface::new\<close> and \<^verbatim>\<open>with_hop\<close>.
\<close>

section \<open>One relay\<close>

datatype tunnel_error = TunnelClosed | TunnelOffline | InvalidTarget | OpenTimeout | PrefaceIo

datatype 'p stream_rejection =
    RejectPreface 'p
  | RejectLoop
  | RejectBudget nat
  | RejectUnknown string
  | RejectOpen tunnel_error
  | RejectCopy

definition stream_preface_for ::
  "(string \<Rightarrow> 'v stream_preface) \<Rightarrow> ('v stream_preface \<Rightarrow> string \<Rightarrow> 'v stream_preface)
     \<Rightarrow> route_kind \<Rightarrow> string \<Rightarrow> string \<Rightarrow> 'v stream_preface" where
  "stream_preface_for preface_new with_hop rt device_id relay_id =
     (case rt of
        Direct _ \<Rightarrow> preface_new device_id
      | Via _ _ \<Rightarrow> with_hop (preface_new device_id) relay_id)"

text \<open>\<^verbatim>\<open>TunnelConnector::call\<close>, from the device id read back out of the authority.\<close>

definition connector_call ::
  "(string \<Rightarrow> 'v stream_preface) \<Rightarrow> ('v stream_preface \<Rightarrow> string \<Rightarrow> 'v stream_preface)
     \<Rightarrow> (tunnel_handle \<Rightarrow> 'v stream_preface \<Rightarrow> tunnel_error + 's)
     \<Rightarrow> registry \<Rightarrow> string \<Rightarrow> string option \<Rightarrow> tunnel_error + 's" where
  "connector_call preface_new with_hop open_stream r relay_id target =
     (case target of
        None \<Rightarrow> Inl InvalidTarget
      | Some device_id \<Rightarrow>
          (case route r device_id of
             None \<Rightarrow> Inl TunnelOffline
           | Some rt \<Rightarrow>
               open_stream (route_link rt)
                 (stream_preface_for preface_new with_hop rt device_id relay_id)))"

definition extend_preface ::
  "nat \<Rightarrow> 'v stream_preface \<Rightarrow> string \<Rightarrow> 'p stream_rejection + 'v stream_preface" where
  "extend_preface max_hops p relay_id =
     (if relay_id \<in> set (sp_hops p) then Inl RejectLoop
      else if length (sp_hops p) \<ge> max_hops then Inl (RejectBudget (length (sp_hops p)))
      else Inr \<lparr>sp_v = sp_v p, sp_target = sp_target p, sp_hops = sp_hops p @ [relay_id]\<rparr>)"

text \<open>\<^verbatim>\<open>forward::carry\<close> up to the point where bytes are copied; \<open>copy\<close> is the outcome of copying.\<close>

definition carry ::
  "nat \<Rightarrow> (tunnel_handle \<Rightarrow> 'v stream_preface \<Rightarrow> tunnel_error + 's) \<Rightarrow> ('s \<Rightarrow> bool)
     \<Rightarrow> registry \<Rightarrow> 'p + 'v stream_preface \<Rightarrow> 'p stream_rejection + unit" where
  "carry max_hops open_stream copy r preface =
     (case preface of
        Inl e \<Rightarrow> Inl (RejectPreface e)
      | Inr p \<Rightarrow>
          (case extend_preface max_hops p (r_relay_id r) of
             Inl e \<Rightarrow> Inl e
           | Inr forwarded \<Rightarrow>
               (case route r (sp_target forwarded) of
                  None \<Rightarrow> Inl (RejectUnknown (sp_target forwarded))
                | Some rt \<Rightarrow>
                    (case open_stream (route_link rt) forwarded of
                       Inl e \<Rightarrow> Inl (RejectOpen e)
                     | Inr s \<Rightarrow> if copy s then Inr () else Inl RejectCopy))))"

lemma extend_preface_Inr:
  "extend_preface max_hops p relay_id = Inr q \<longleftrightarrow>
     relay_id \<notin> set (sp_hops p) \<and> length (sp_hops p) < max_hops \<and>
     q = \<lparr>sp_v = sp_v p, sp_target = sp_target p, sp_hops = sp_hops p @ [relay_id]\<rparr>"
  by (auto simp: extend_preface_def)

section \<open>A network of relays\<close>

text \<open>
  \<open>net\<close> gives the routing table of each relay and \<open>far\<close> the relay at the other end of a link's
  tunnel. A stream that arrives at a relay is carried: a direct route ends the journey at that
  tunnel, a route through a link hands the extended preface to the next relay. The recursion ends
  because every hop grows the path and \<open>extend_preface\<close> refuses a path that fills the budget.
\<close>

function travel ::
  "nat \<Rightarrow> (string \<Rightarrow> registry) \<Rightarrow> (string \<Rightarrow> tunnel_handle \<Rightarrow> string) \<Rightarrow> string
     \<Rightarrow> 'v stream_preface \<Rightarrow> unit stream_rejection + tunnel_handle \<times> 'v stream_preface" where
  "travel max_hops net far relay p =
     (case extend_preface max_hops p relay of
        Inl e \<Rightarrow> Inl e
      | Inr q \<Rightarrow>
          (case route (net relay) (sp_target q) of
             None \<Rightarrow> Inl (RejectUnknown (sp_target q))
           | Some (Direct h) \<Rightarrow> Inr (h, q)
           | Some (Via h hops) \<Rightarrow> travel max_hops net far (far relay h) q))"
  by pat_completeness auto
termination
  by (relation "measure (\<lambda>(max_hops, net, far, relay, p). max_hops - length (sp_hops p))")
     (auto simp: extend_preface_Inr)

declare travel.simps [simp del]

text \<open>One step of the journey is what \<open>carry\<close> does at that relay.\<close>

lemma carry_opens:
  fixes p :: "'v stream_preface"
  assumes "extend_preface max_hops p (r_relay_id r) = (Inr q :: 'p stream_rejection + 'v stream_preface)"
    and "route r (sp_target p) = Some rt"
  shows "carry max_hops open_stream copy r (Inr p :: 'p + 'v stream_preface) =
    (case open_stream (route_link rt) q of
       Inl e \<Rightarrow> Inl (RejectOpen e) | Inr s \<Rightarrow> if copy s then Inr () else Inl RejectCopy)"
proof -
  have "sp_target q = sp_target p" using assms(1) by (simp add: extend_preface_Inr)
  with assms show ?thesis by (simp add: carry_def)
qed

lemma travel_path:
  assumes "travel max_hops net far relay p = Inr (h, q)" "distinct (sp_hops p)" "length (sp_hops p) \<le> max_hops"
  shows "distinct (sp_hops q) \<and> length (sp_hops q) \<le> max_hops \<and> sp_target q = sp_target p \<and>
    (\<exists>path. path \<noteq> [] \<and> sp_hops q = sp_hops p @ path \<and> hd path = relay \<and>
       route (net (last path)) (sp_target p) = Some (Direct h))"
  using assms
proof (induction max_hops net far relay p rule: travel.induct)
  case (1 max_hops net far relay p)
  from "1.prems"(1) obtain p1 where p1: "extend_preface max_hops p relay = (Inr p1 :: unit stream_rejection + _)"
    by (subst (asm) travel.simps) (auto split: sum.splits)
  then have p1': "p1 = \<lparr>sp_v = sp_v p, sp_target = sp_target p, sp_hops = sp_hops p @ [relay]\<rparr>"
    and ok: "relay \<notin> set (sp_hops p)" "length (sp_hops p) < max_hops" by (simp_all add: extend_preface_Inr)
  show ?case
  proof (cases "route (net relay) (sp_target p1)")
    case None
    with "1.prems"(1) p1 show ?thesis by (subst (asm) travel.simps) simp
  next
    case (Some rt)
    show ?thesis
    proof (cases rt)
      case (Direct h')
      with Some "1.prems" p1 ok show ?thesis
        by (subst (asm) travel.simps) (auto simp: p1')
    next
      case (Via h' hops)
      with Some "1.prems"(1) p1 have "travel max_hops net far (far relay h') p1 = Inr (h, q)"
        by (subst (asm) travel.simps) simp
      from "1.IH" [OF p1 Some Via this] "1.prems"(2,3) ok obtain path where
        "distinct (sp_hops q)" "length (sp_hops q) \<le> max_hops" "sp_target q = sp_target p"
        "path \<noteq> []" "sp_hops q = sp_hops p @ relay # path" "route (net (last path)) (sp_target p) = Some (Direct h)"
        by (auto simp: p1')
      then show ?thesis by (auto intro!: exI [of _ "relay # path"])
    qed
  qed
qed

text \<open>A chain of tables that agree: each relay's route names the rest of the chain, nearest first.\<close>

fun leads_to ::
  "(string \<Rightarrow> registry) \<Rightarrow> (string \<Rightarrow> tunnel_handle \<Rightarrow> string) \<Rightarrow> string \<Rightarrow> string \<Rightarrow> string list
     \<Rightarrow> tunnel_handle \<Rightarrow> bool" where
  "leads_to net far device relay [] h = (route (net relay) device = Some (Direct h))"
| "leads_to net far device relay (nxt # rest) h =
     (\<exists>link. route (net relay) device = Some (Via link (nxt # rest)) \<and> far relay link = nxt \<and>
        leads_to net far device nxt rest h)"

lemma leads_to_route:
  "leads_to net far device relay hops h \<Longrightarrow>
   \<exists>rt. route (net relay) device = Some rt \<and> route_hops rt = hops \<and> (is_direct rt \<longleftrightarrow> hops = [])"
  by (cases hops) auto

lemma leads_to_travel:
  assumes "leads_to net far device relay hops h" "sp_target p = device"
    and "distinct (sp_hops p @ relay # hops)" "length (sp_hops p @ relay # hops) \<le> max_hops"
  shows "travel max_hops net far relay p =
    Inr (h, \<lparr>sp_v = sp_v p, sp_target = device, sp_hops = sp_hops p @ relay # hops\<rparr>)"
  using assms
proof (induction hops arbitrary: relay p)
  case Nil
  then show ?case by (subst travel.simps) (simp add: extend_preface_def)
next
  case (Cons nxt rest)
  then obtain link where link: "route (net relay) device = Some (Via link (nxt # rest))"
    "far relay link = nxt" "leads_to net far device nxt rest h" by auto
  let ?q = "\<lparr>sp_v = sp_v p, sp_target = device, sp_hops = sp_hops p @ [relay]\<rparr>"
  have "travel max_hops net far nxt ?q =
      Inr (h, \<lparr>sp_v = sp_v ?q, sp_target = device, sp_hops = sp_hops ?q @ nxt # rest\<rparr>)"
    by (rule Cons.IH) (use link Cons.prems in auto)
  with link Cons.prems show ?case by (subst travel.simps) (simp add: extend_preface_def)
qed

section \<open>The routing table as the next hop's guarantee\<close>

text \<open>
  What forwarding relies on: a table never routes through the relay that owns it and leaves room for
  that relay's own hop.
\<close>

locale loop_free_tables =
  fixes lookup :: "'t \<Rightarrow> string \<Rightarrow> route_kind option"
    and owner :: "'t \<Rightarrow> string"
    and ok :: "'t \<Rightarrow> bool"
    and max_hops :: nat
  assumes avoids_owner: "ok t \<Longrightarrow> lookup t d = Some rt \<Longrightarrow> owner t \<notin> set (route_hops rt)"
    and leaves_room: "ok t \<Longrightarrow> lookup t d = Some (Via l hops) \<Longrightarrow> length hops < max_hops"
begin

lemma room_for_owner: "ok t \<Longrightarrow> lookup t d = Some (Via l hops) \<Longrightarrow> length (owner t # hops) \<le> max_hops"
  using leaves_room by fastforce

lemma owner_distinct:
  "ok t \<Longrightarrow> lookup t d = Some rt \<Longrightarrow> distinct (route_hops rt) \<Longrightarrow> distinct (owner t # route_hops rt)"
  using avoids_owner by auto

end

lemma registry_inv_route:
  assumes "registry_inv max_hops r" "route r d = Some rt"
  shows "r_relay_id r \<notin> set (route_hops rt)" and "\<not> is_direct rt \<Longrightarrow> length (route_hops rt) < max_hops"
proof -
  from assms obtain e where "map_of (r_entries r) d = Some e" "od_route (e_device e) = rt"
    by (auto simp: route_def)
  with assms(1) have "origin_matches max_hops (r_relay_id r) e" "od_route (e_device e) = rt"
    by (auto simp: registry_inv_def entries_ok_def simp del: origin_matches.simps)
  then show "r_relay_id r \<notin> set (route_hops rt)" "\<not> is_direct rt \<Longrightarrow> length (route_hops rt) < max_hops"
    by (cases rt; auto simp: is_announcement_routable_def split: origin.splits)+
qed

interpretation table: loop_free_tables route r_relay_id "registry_inv max_hops" max_hops
  for max_hops
  by unfold_locales (auto dest: registry_inv_route)

lemma leads_to_distinct:
  assumes "leads_to net far device relay hops h"
    and "\<forall>x \<in> set (relay # hops). registry_inv max_hops (net x) \<and> r_relay_id (net x) = x"
  shows "distinct (relay # hops)"
  using assms
proof (induction hops arbitrary: relay)
  case Nil
  then show ?case by simp
next
  case (Cons nxt rest)
  then have "distinct (nxt # rest)" by auto
  moreover obtain rt where "route (net relay) device = Some rt" "route_hops rt = nxt # rest"
    using leads_to_route [OF Cons.prems(1)] by blast
  ultimately show ?case
    using table.owner_distinct [of max_hops "net relay" device rt] Cons.prems(2) by simp
qed

lemma leads_to_other:
  "A \<notin> set (relay # hops) \<Longrightarrow>
   leads_to (net(A := r)) far device relay hops h = leads_to net far device relay hops h"
  by (induction hops arbitrary: relay) auto

lemma view_via:
  assumes "view r d = Some a" "route r d = Some rt"
  shows "ad_via a = r_relay_id r # route_hops rt"
  using assms by (auto simp: view_def view_of_def route_def announcement_of_def split: if_splits bind_splits)

lemma view_id:
  assumes "registry_inv max_hops r" "view r d = Some a"
  shows "ad_id a = d"
proof -
  from assms(2) obtain e where "map_of (r_entries r) d = Some e" "announcement_of (r_relay_id r) e = Some a"
    by (auto simp: view_def view_of_def split: bind_splits)
  with assms(1) show ?thesis
    by (auto simp: registry_inv_def entries_ok_def announcement_of_id simp del: origin_matches.simps)
qed

section \<open>A sample chain\<close>

text \<open>Relay A routes \<open>far\<close> through its link to relay B, which holds the tunnel of that desktop.\<close>

definition sample_far :: direct_presence where
  "sample_far = \<lparr>dp_device_id = ''far'', dp_name = ''Office'', dp_kind = Desktop,
     dp_relay_id = None, dp_ip = None, dp_version = None,
     dp_handle = \<lparr>th_device_id = ''far'', th_channel = 7\<rparr>\<rparr>"

definition sample_branch :: registry where
  "sample_branch = snd (connect sample_far 5 (new_registry ''B''))"

definition sample_net :: "registry \<Rightarrow> string \<Rightarrow> registry" where
  "sample_net a = (\<lambda>x. new_registry x)(''A'' := a, ''B'' := sample_branch)"

definition sample_far_end :: "string \<Rightarrow> tunnel_handle \<Rightarrow> string" where
  "sample_far_end relay h = (if th_device_id h = ''link'' then ''B'' else ''?'')"

definition preface_new :: "string \<Rightarrow> nat stream_preface" where
  "preface_new d = \<lparr>sp_v = 1, sp_target = d, sp_hops = []\<rparr>"

definition with_hop :: "nat stream_preface \<Rightarrow> string \<Rightarrow> nat stream_preface" where
  "with_hop p x = p\<lparr>sp_hops := sp_hops p @ [x]\<rparr>"

lemma sample_branch_inv: "registry_inv 8 sample_branch"
  unfolding sample_branch_def
  by (rule registry_inv_connect [OF registry_inv_new]) (simp add: new_registry_def)

lemma sample_branch_facts:
  "r_relay_id sample_branch = ''B''" "route sample_branch ''far'' = Some (Direct (dp_handle sample_far))"
  "view sample_branch ''far'' = Some sample_device"
  by (simp_all add: sample_branch_def sample_far_def sample_defs route_def view_def view_of_def
      announcement_of_def Let_def)

lemma sample_routed_route: "route sample_routed ''far'' = Some (Via (dp_handle sample_link) [''B''])"
  by (simp add: route_def sample_routed_entries announced_entry_def sample_device_def)

lemma sample_net_inv:
  "x \<in> {''A'', ''B''} \<Longrightarrow> registry_inv 8 (sample_net sample_routed x) \<and> r_relay_id (sample_net sample_routed x) = x"
  by (auto simp: sample_net_def sample_routed_inv sample_branch_inv sample_branch_facts sample_routed_relay)

lemma sample_chain:
  "leads_to (sample_net sample_routed) sample_far_end ''far'' ''A'' [''B''] (dp_handle sample_far)"
  by (simp add: sample_net_def sample_routed_route sample_branch_facts sample_far_end_def sample_link_def)

section \<open>Properties\<close>

text \<open>C7: whatever the routing tables of the relays say, a stream that is delivered crossed every
  relay of its path at most once and at most \<open>max_hops\<close> of them, keeps its target, and was handed
  over by a relay that holds the target's own tunnel. (That \<open>travel\<close> is a total function is its
  termination: no arrangement of tables makes a stream circulate.)\<close>

theorem delivered_stream_path:
  assumes "travel max_hops net far relay p = Inr (h, q)"
    and "distinct (sp_hops p)" "length (sp_hops p) \<le> max_hops"
  shows "distinct (sp_hops q) \<and> length (sp_hops q) \<le> max_hops \<and> sp_target q = sp_target p \<and>
    (\<exists>path. path \<noteq> [] \<and> sp_hops q = sp_hops p @ path \<and> hd path = relay \<and>
       route (net (last path)) (sp_target p) = Some (Direct h))"
  using assms by (rule travel_path)

theorem delivered_stream_path_witness:
  "\<exists>h q. travel 8 (sample_net sample_routed) sample_far_end ''A'' (preface_new ''far'') = Inr (h, q) \<and>
     distinct (sp_hops q) \<and> sp_target q = ''far''"
proof -
  have t: "travel 8 (sample_net sample_routed) sample_far_end ''A'' (preface_new ''far'') =
      Inr (dp_handle sample_far, \<lparr>sp_v = 1, sp_target = ''far'', sp_hops = [''A'', ''B'']\<rparr>)"
    using leads_to_travel [OF sample_chain, of "preface_new ''far''" 8] by (simp add: preface_new_def)
  from delivered_stream_path [OF t] t show ?thesis by (simp add: preface_new_def)
qed

text \<open>C18: when the tables along a chain agree and each satisfies the table's invariant, a stream the
  first relay opens for the device reaches the tunnel that device holds at the end of the chain, with
  exactly the chain recorded in its preface: neither loop guard can refuse it.\<close>

theorem chain_delivers:
  assumes "leads_to net far device relay (nxt # rest) h"
    and "\<forall>x \<in> set (relay # nxt # rest). registry_inv max_hops (net x) \<and> r_relay_id (net x) = x"
    and "\<forall>d. sp_target (fresh d) = d \<and> sp_hops (fresh d) = []"
    and "\<forall>p x. add_hop p x = p\<lparr>sp_hops := sp_hops p @ [x]\<rparr>"
  shows "\<exists>link p. connector_call fresh add_hop (\<lambda>l q. Inr (l, q)) (net relay) relay (Some device) = Inr (link, p)
    \<and> travel max_hops net far (far relay link) p =
        Inr (h, \<lparr>sp_v = sp_v (fresh device), sp_target = device, sp_hops = relay # nxt # rest\<rparr>)"
proof -
  from assms(1) obtain link where link: "route (net relay) device = Some (Via link (nxt # rest))"
    "far relay link = nxt" and rest: "leads_to net far device nxt rest h" by auto
  let ?p = "(fresh device)\<lparr>sp_hops := [relay]\<rparr>"
  have "distinct (relay # nxt # rest)" using leads_to_distinct [OF assms(1,2)] .
  moreover have "length (relay # nxt # rest) \<le> max_hops"
    using table.room_for_owner [OF _ link(1), of max_hops] assms(2) by simp
  ultimately have "travel max_hops net far nxt ?p =
      Inr (h, \<lparr>sp_v = sp_v ?p, sp_target = device, sp_hops = sp_hops ?p @ nxt # rest\<rparr>)"
    using assms(3) by (intro leads_to_travel [OF rest]) auto
  with link assms(3,4) show ?thesis by (simp add: connector_call_def stream_preface_for_def)
qed

theorem chain_delivers_witness:
  "\<exists>link p. connector_call preface_new with_hop (\<lambda>l q. Inr (l, q)) (sample_net sample_routed ''A'') ''A'' (Some ''far'')
       = Inr (link, p)
    \<and> travel 8 (sample_net sample_routed) sample_far_end (sample_far_end ''A'' link) p =
        Inr (dp_handle sample_far, \<lparr>sp_v = 1, sp_target = ''far'', sp_hops = [''A'', ''B'']\<rparr>)"
  using chain_delivers [OF sample_chain, of 8 preface_new with_hop] sample_net_inv
  by (simp add: preface_new_def with_hop_def)

text \<open>Announcing builds such chains: when the tables lead from relay B to a device, and relay A admits
  B's own announcement of it over the link that ends at B, the tables then lead from A to the device
  through B.\<close>

lemma announcement_extends_chain:
  assumes "leads_to net far device B hops h" "registry_inv max_hops (net B)" "r_relay_id (net B) = B"
    and "view (net B) device = Some a"
    and "registry_inv max_hops (net A)" "r_relay_id (net A) = A" "admits max_hops (net A) a" "far A link = B"
  shows "leads_to (net(A := snd (announce_device max_hops l link now a (net A)))) far device A (B # hops) h"
proof -
  obtain rt where rt: "route (net B) device = Some rt" "route_hops rt = hops"
    using leads_to_route [OF assms(1)] by blast
  have via: "ad_via a = B # hops" using view_via [OF assms(4) rt(1)] assms(3) rt(2) by simp
  have "A \<notin> set (B # hops)"
    using assms(6,7) via by (auto simp: admits_def is_announcement_routable_def)
  moreover have "ad_id a = device" using view_id [OF assms(2,4)] .
  ultimately show ?thesis
    using assms(1,8) via leads_to_other [of A B hops net _ far device h]
    by (simp add: route_def announce_device_accepts [OF assms(5,7)] announced_entry_def)
qed

theorem announcement_extends_chain_witness:
  "leads_to ((sample_net sample_table)(''A'' := sample_routed)) sample_far_end ''far'' ''A'' [''B''] (dp_handle sample_far)"
proof -
  have "r_relay_id sample_table = ''A''" by (simp add: sample_table_def sample_defs Let_def)
  with announcement_extends_chain [of "sample_net sample_table" sample_far_end "''far''" "''B''" "[]"
      "dp_handle sample_far" 8 sample_device "''A''" "dp_handle sample_link" "''link''" 20]
  show ?thesis
    by (simp add: sample_net_def sample_branch_inv sample_branch_facts sample_table_inv sample_admits
        sample_far_end_def sample_link_def sample_routed_def)
qed

end
