(* ===== verification/Proxy.thy ===== *)
theory Proxy
  imports Relay_State Stream_Chain
begin

text \<open>
  The public side of the relay: the gate in front of a device (\<^verbatim>\<open>src/access.rs\<close>), the reverse proxy
  (\<^verbatim>\<open>src/proxy.rs\<close>), the console's assets (\<^verbatim>\<open>src/console.rs\<close>) and the dispatch of a request
  (\<^verbatim>\<open>src/server.rs\<close>). Building a URI, the pooled HTTP client, opening a stream and speaking HTTP on it
  belong to other crates: they are the fields of \<open>proxy_ops\<close>. A response is its status and what tells
  answers apart; texts shown to people are constructors.
\<close>

section \<open>Requests and responses\<close>

record 'h request =
  rq_path :: string
  rq_query :: "string option"
  rq_headers :: 'h
  rq_peer :: "string option"

datatype last_seen = NeverSeen | JustNow | MinutesAgo int | HoursAgo int | DaysAgo int

datatype page = ForbiddenPage | UnknownDevicePage | OfflinePage string last_seen

datatype plain = InternalText | InvalidPathText | ForwardFailedText | MissingPageText | MissingAssetText
  | ConsoleMissingText | UnknownEndpointText

datatype 'h response =
    Redirect string
  | Html nat page
  | Plain nat plain
  | Asset string string
  | Relayed nat 'h

text \<open>What the pooled client reports for one exchange.\<close>

datatype 'h exchange = Answered nat 'h | ConnectFailed | ExchangeFailed

record ('h, 'v, 'u, 's, 'w) proxy_ops =
  po_headers :: "('h, 'v) header_ops"
  po_names :: forward_names
  po_parse_ip :: "string \<Rightarrow> string option"
  po_trusted :: "string \<Rightarrow> bool"
  po_parse_id :: "string \<Rightarrow> string option"
  po_uri_build :: "string \<Rightarrow> string \<Rightarrow> string \<Rightarrow> 'u option"
  po_uri_host :: "'u \<Rightarrow> string option"
  po_request :: "registry \<Rightarrow> 'u \<Rightarrow> 'h \<Rightarrow> 'h exchange"
  po_preface_new :: "string \<Rightarrow> 'w stream_preface"
  po_with_hop :: "'w stream_preface \<Rightarrow> string \<Rightarrow> 'w stream_preface"
  po_open_stream :: "tunnel_handle \<Rightarrow> 'w stream_preface \<Rightarrow> tunnel_error + 's"
  po_handshake :: "'s \<Rightarrow> bool"
  po_send :: "'s \<Rightarrow> 'u \<Rightarrow> 'h \<Rightarrow> (nat \<times> 'h) option"

section \<open>Text that goes into a page or a header\<close>

definition replace_char :: "char \<Rightarrow> string \<Rightarrow> string \<Rightarrow> string" where
  "replace_char c by s = concat (map (\<lambda>a. if a = c then by else [a]) s)"

definition escape_html :: "string \<Rightarrow> string" where
  "escape_html value =
     replace_char (CHR 0x22) ''&quot;'' (replace_char (CHR ''>'') ''&gt;''
       (replace_char (CHR ''<'') ''&lt;'' (replace_char (CHR ''&'') ''&amp;'' value)))"

definition describe_last_seen :: "int option \<Rightarrow> int \<Rightarrow> last_seen" where
  "describe_last_seen last_seen_at now =
     (let minute = 60 * 1000; hour = 60 * minute; day = 24 * hour
      in case last_seen_at of
           None \<Rightarrow> NeverSeen
         | Some at \<Rightarrow>
             (let elapsed = max (now - at) 0
              in if elapsed < minute then JustNow
                 else if elapsed < hour then MinutesAgo (elapsed div minute)
                 else if elapsed < day then HoursAgo (elapsed div hour)
                 else DaysAgo (elapsed div day)))"

definition unreserved :: "char \<Rightarrow> bool" where
  "unreserved c \<longleftrightarrow> is_ascii_alphanumeric c \<or> c = CHR ''-'' \<or> c = CHR ''.'' \<or> c = CHR ''_'' \<or> c = CHR ''~''"

definition hex_digit :: "nat \<Rightarrow> char" where
  "hex_digit n = ''0123456789ABCDEF'' ! n"

definition percent_encode :: "string \<Rightarrow> string" where
  "percent_encode value =
     concat (map (\<lambda>c. if unreserved c then [c]
       else [CHR ''%'', hex_digit (of_char c div 16), hex_digit (of_char c mod 16)]) value)"

definition login_url :: "string \<Rightarrow> string \<Rightarrow> string option \<Rightarrow> string" where
  "login_url base rest qry =
     ''/console/login?next='' @ percent_encode (base @ rest @ query_part qry)"

definition redirect :: "('h, 'v) header_ops \<Rightarrow> string \<Rightarrow> 'h response" where
  "redirect ops location =
     (case v_from_str ops location of
        Some _ \<Rightarrow> Redirect location
      | None \<Rightarrow> Html 403 ForbiddenPage)"

section \<open>The gate in front of a device\<close>

text \<open>The loop of \<^verbatim>\<open>signed_in_user\<close>: a failed lookup counts as not signed in.\<close>

fun first_signed_in ::
  "'l externals \<Rightarrow> int \<Rightarrow> string list \<Rightarrow> 'l relay \<Rightarrow> user_record option \<times> 'l relay" where
  "first_signed_in x now [] s = (None, s)"
| "first_signed_in x now (token # tokens) s =
     (case lift_db (resolve_session (x_hash_secret x) token now) s of
        (Inr (Some user), s1) \<Rightarrow> (Some user, s1)
      | (Inr None, s1) \<Rightarrow> first_signed_in x now tokens s1
      | (Inl _, s1) \<Rightarrow> (None, s1))"

definition signed_in_user ::
  "'l externals \<Rightarrow> ('h, 'v) header_ops \<Rightarrow> 'h \<Rightarrow> 'l relay \<Rightarrow> user_record option \<times> 'l relay" where
  "signed_in_user x ops headers s =
     (let (now, s1) = lift_db now_millis s
      in first_signed_in x now (read_session_cookies (readable_cookies ops headers)) s1)"

definition guard ::
  "'l externals \<Rightarrow> ('h, 'v) header_ops \<Rightarrow> 'h \<Rightarrow> device_record option \<Rightarrow> device_target \<Rightarrow> string option
     \<Rightarrow> 'l relay \<Rightarrow> 'h response option \<times> 'l relay" where
  "guard x ops headers device target qry s =
     (case device of
        None \<Rightarrow> (None, s)
      | Some d \<Rightarrow>
          if \<not> requires_console_session (d_access d) then (None, s)
          else if dt_entry target = SubdomainEntry
          then (Some (redirect ops (path_form_url (x_device_prefix x) (rl_addressing s)
                  (dt_device_id target) (dt_rest target) qry)), s)
          else (case signed_in_user x ops headers s of
                  (None, s1) \<Rightarrow>
                    (Some (redirect ops (login_url (base_path (x_device_prefix x) target) (dt_rest target) qry)), s1)
                | (Some user, s1) \<Rightarrow>
                    if is_reachable_by d (u_id user) (is_admin (u_role user)) then (None, s1)
                    else (Some (Html 403 ForbiddenPage), s1)))"

section \<open>Forwarding one request\<close>

definition tunnel_authority_suffix :: string where
  "tunnel_authority_suffix = ''.termexo-tunnel''"

definition tunnel_uri ::
  "(string \<Rightarrow> string \<Rightarrow> string \<Rightarrow> 'u option) \<Rightarrow> string \<Rightarrow> string \<Rightarrow> string option \<Rightarrow> 'u option" where
  "tunnel_uri build device_id rest qry =
     build ''http'' (device_id @ tunnel_authority_suffix) (''/'' @ rest @ query_part qry)"

definition authority_device_id :: "('u \<Rightarrow> string option) \<Rightarrow> 'u \<Rightarrow> string option" where
  "authority_device_id uri_host uri = Option.bind (uri_host uri) (strip_suffix tunnel_authority_suffix)"

definition offline_page :: "string \<Rightarrow> int option \<Rightarrow> 'l relay \<Rightarrow> 'h response \<times> 'l relay" where
  "offline_page name last_seen_at s =
     (let (now, s1) = lift_db now_millis s
      in (Html 503 (OfflinePage (escape_html name) (describe_last_seen last_seen_at now)), s1))"

definition unreachable_page ::
  "string \<Rightarrow> device_record option \<Rightarrow> 'l relay \<Rightarrow> 'h response \<times> 'l relay" where
  "unreachable_page device_id device s =
     (case device of
        Some d \<Rightarrow> offline_page (d_name d) (d_last_seen_at d) s
      | None \<Rightarrow>
          (case last_known (rl_registry s) device_id of
             Some known \<Rightarrow> offline_page (kd_name known) (Some (kd_last_seen_at known)) s
           | None \<Rightarrow> (Html 404 UnknownDevicePage, s)))"

definition redirect_to_directory :: "'l externals \<Rightarrow> ('h, 'v) header_ops \<Rightarrow> string \<Rightarrow> 'h response" where
  "redirect_to_directory x ops device_id =
     (let location = x_device_prefix x @ device_id @ ''/''
      in case v_from_str ops location of
           Some _ \<Rightarrow> Redirect location
         | None \<Rightarrow> Html 404 UnknownDevicePage)"

definition relay_response :: "('h, 'v) header_ops \<Rightarrow> nat \<Rightarrow> 'h \<Rightarrow> 'h response" where
  "relay_response ops status headers = Relayed status (relay_response_headers ops status headers)"

text \<open>Up to the point where both sides are upgraded and bytes are copied.\<close>

definition bridge_websocket ::
  "('h, 'v, 'u, 's, 'w) proxy_ops \<Rightarrow> 'u \<Rightarrow> 'h \<Rightarrow> 'l relay \<Rightarrow> 'h response \<times> 'l relay" where
  "bridge_websocket p uri headers s =
     (let target = authority_device_id (po_uri_host p) uri;
          device_id = (case target of Some d \<Rightarrow> d | None \<Rightarrow> [])
      in case connector_call (po_preface_new p) (po_with_hop p) (po_open_stream p)
                (rl_registry s) (rl_relay_id s) target of
           Inl _ \<Rightarrow> offline_page device_id None s
         | Inr stream \<Rightarrow>
             if \<not> po_handshake p stream then (Plain 502 ForwardFailedText, s)
             else (case po_send p stream uri headers of
                     None \<Rightarrow> (Plain 502 ForwardFailedText, s)
                   | Some (status, answer) \<Rightarrow> (relay_response (po_headers p) status answer, s)))"

definition forward ::
  "'l externals \<Rightarrow> ('h, 'v, 'u, 's, 'w) proxy_ops \<Rightarrow> client_context \<Rightarrow> device_target \<Rightarrow> 'h request
     \<Rightarrow> 'l relay \<Rightarrow> 'h response \<times> 'l relay" where
  "forward x p client target rq s =
     (let device_id = dt_device_id target
      in case lift_db (find_device device_id) s of
           (Inl _, s1) \<Rightarrow> (Plain 500 InternalText, s1)
         | (Inr device, s1) \<Rightarrow>
             (case guard x (po_headers p) (rq_headers rq) device target (rq_query rq) s1 of
                (Some refusal, s2) \<Rightarrow> (refusal, s2)
              | (None, s2) \<Rightarrow>
                  if \<not> is_online (rl_registry s2) device_id then unreachable_page device_id device s2
                  else
                    (case tunnel_uri (po_uri_build p) device_id (dt_rest target) (rq_query rq) of
                       None \<Rightarrow> (Plain 400 InvalidPathText, s2)
                     | Some uri \<Rightarrow>
                         (let websocket = is_websocket_upgrade (po_headers p) (rq_headers rq);
                              headers = prepare_request_headers (po_headers p) (po_names p) client
                                (base_path (x_device_prefix x) target) websocket (rq_headers rq)
                          in if websocket then bridge_websocket p uri headers s2
                             else (case po_request p (rl_registry s2) uri headers of
                                     Answered status answer \<Rightarrow> (relay_response (po_headers p) status answer, s2)
                                   | ConnectFailed \<Rightarrow> unreachable_page device_id device s2
                                   | ExchangeFailed \<Rightarrow> (Plain 502 ForwardFailedText, s2))))))"

section \<open>The console's assets\<close>

definition console_path_prefix :: string where
  "console_path_prefix = ''/console''"

definition index_document :: string where
  "index_document = ''index.html''"

definition extension_of :: "string \<Rightarrow> string option" where
  "extension_of path =
     (case rsplit_once (CHR ''.'') (last (split_on (CHR ''/'') path)) of
        Some (_, extension) \<Rightarrow> if extension \<noteq> [] then Some extension else None
      | None \<Rightarrow> None)"

definition console_asset_path :: "string \<Rightarrow> string option" where
  "console_asset_path request_path =
     (case strip_prefix console_path_prefix request_path of
        None \<Rightarrow> None
      | Some remainder \<Rightarrow>
          (let relative = trim_start_matches (CHR ''/'') remainder
           in if list_ex (\<lambda>segment. segment = ''..'' \<or> segment = ''.'') (split_on (CHR ''/'') relative) then None
              else if relative = [] \<or> extension_of relative = None then Some index_document
              else Some relative))"

definition content_types :: "(string \<times> string) list" where
  "content_types = [(''html'', ''text/html; charset=utf-8''), (''js'', ''text/javascript; charset=utf-8''),
     (''mjs'', ''text/javascript; charset=utf-8''), (''css'', ''text/css; charset=utf-8''),
     (''json'', ''application/json; charset=utf-8''), (''svg'', ''image/svg+xml''), (''png'', ''image/png''),
     (''jpg'', ''image/jpeg''), (''webp'', ''image/webp''), (''ico'', ''image/x-icon''), (''woff2'', ''font/woff2''),
     (''txt'', ''text/plain; charset=utf-8'')]"

text \<open>\<^verbatim>\<open>Path::extension\<close>: a name that is all extension has none.\<close>

definition path_extension :: "string \<Rightarrow> string option" where
  "path_extension path =
     (case rsplit_once (CHR ''.'') (last (split_on (CHR ''/'') path)) of
        Some (stem, extension) \<Rightarrow> if stem \<noteq> [] then Some extension else None
      | None \<Rightarrow> None)"

definition content_type :: "string \<Rightarrow> string" where
  "content_type path =
     (case Option.bind (path_extension path)
             (\<lambda>extension. find (\<lambda>(known, _). eq_ignore_ascii_case known extension) content_types) of
        Some (_, v) \<Rightarrow> v
      | None \<Rightarrow> ''application/octet-stream'')"

text \<open>\<open>bundle\<close> looks a file up in the directory embedded at build time.\<close>

definition serve_console :: "(string \<Rightarrow> string option) \<Rightarrow> string \<Rightarrow> 'h response" where
  "serve_console bundle request_path =
     (case console_asset_path request_path of
        None \<Rightarrow> Plain 404 MissingAssetText
      | Some asset_path \<Rightarrow>
          (case or_else (bundle asset_path) (bundle index_document) of
             None \<Rightarrow> Plain 503 ConsoleMissingText
           | Some path \<Rightarrow> Asset path (content_type path)))"

section \<open>Dispatch\<close>

definition forward_to_device ::
  "'l externals \<Rightarrow> ('h, 'v, 'u, 's, 'w) proxy_ops \<Rightarrow> device_target \<Rightarrow> 'h request \<Rightarrow> 'l relay
     \<Rightarrow> 'h response \<times> 'l relay" where
  "forward_to_device x p target rq s =
     (case rq_peer rq of
        None \<Rightarrow> (Plain 500 InternalText, s)
      | Some peer \<Rightarrow>
          (let client = resolve_client (po_headers p) (po_names p) (po_parse_ip p) (po_trusted p)
                 (rl_tls_enabled s) (rl_addressing s) (rq_headers rq) peer
           in forward x p client target rq s))"

text \<open>The device a request names with its host, untouched path included.\<close>

definition host_target ::
  "('h, 'v, 'u, 's, 'w) proxy_ops \<Rightarrow> 'h request \<Rightarrow> 'l relay \<Rightarrow> device_target option" where
  "host_target p rq s =
     map_option (\<lambda>device_id.
         \<lparr>dt_device_id = device_id, dt_rest = trim_start_matches (CHR ''/'') (rq_path rq),
          dt_entry = SubdomainEntry\<rparr>)
       (Option.bind (header_value (po_headers p) (rq_headers rq) ''host'')
         (device_from_host (po_parse_id p) (rl_addressing s)))"

text \<open>The outermost layer; \<open>inner\<close> is the rest of the router.\<close>

definition route_device_host ::
  "'l externals \<Rightarrow> ('h, 'v, 'u, 's, 'w) proxy_ops \<Rightarrow> ('h request \<Rightarrow> 'l relay \<Rightarrow> 'h response \<times> 'l relay)
     \<Rightarrow> 'h request \<Rightarrow> 'l relay \<Rightarrow> 'h response \<times> 'l relay" where
  "route_device_host x p inner rq s =
     (case host_target p rq s of
        None \<Rightarrow> inner rq s
      | Some target \<Rightarrow> forward_to_device x p target rq s)"

definition dispatch ::
  "'l externals \<Rightarrow> ('h, 'v, 'u, 's, 'w) proxy_ops \<Rightarrow> (string \<Rightarrow> string option) \<Rightarrow> 'h request \<Rightarrow> 'l relay
     \<Rightarrow> 'h response \<times> 'l relay" where
  "dispatch x p bundle rq s =
     (let path = rq_path rq
      in if prefix ''/api/'' path then (Plain 404 UnknownEndpointText, s)
         else (case parse_device_path (x_device_prefix x) path of
                 Some (NeedsSlash device_id) \<Rightarrow> (redirect_to_directory x (po_headers p) device_id, s)
               | Some (Resource device_id rest) \<Rightarrow>
                   forward_to_device x p \<lparr>dt_device_id = device_id, dt_rest = rest, dt_entry = PathEntry\<rparr> rq s
               | None \<Rightarrow>
                   if prefix console_path_prefix path then (serve_console bundle path, s)
                   else (Plain 404 MissingPageText, s)))"

section \<open>Escaped text: lemmas\<close>

text \<open>Reading the escapes back, as a browser does.\<close>

fun unescape_html :: "string \<Rightarrow> string" where
  "unescape_html [] = []"
| "unescape_html (c # cs) =
     (if prefix ''&lt;'' (c # cs) then CHR ''<'' # unescape_html (drop 3 cs)
      else if prefix ''&gt;'' (c # cs) then CHR ''>'' # unescape_html (drop 3 cs)
      else if prefix ''&amp;'' (c # cs) then CHR ''&'' # unescape_html (drop 4 cs)
      else if prefix ''&quot;'' (c # cs) then CHR 0x22 # unescape_html (drop 5 cs)
      else c # unescape_html cs)"

definition hex_value :: "char \<Rightarrow> nat" where
  "hex_value c = length (takeWhile (\<lambda>d. d \<noteq> c) ''0123456789ABCDEF'')"

fun percent_decode :: "string \<Rightarrow> string" where
  "percent_decode (c # a # b # cs) =
     (if c = CHR ''%'' then char_of (16 * hex_value a + hex_value b) # percent_decode cs
      else c # percent_decode (a # b # cs))"
| "percent_decode cs = cs"

definition escape_char :: "char \<Rightarrow> string" where
  "escape_char c = (if c = CHR ''&'' then ''&amp;'' else if c = CHR ''<'' then ''&lt;''
     else if c = CHR ''>'' then ''&gt;'' else if c = CHR 0x22 then ''&quot;'' else [c])"

lemma replace_char_append: "replace_char c b (xs @ ys) = replace_char c b xs @ replace_char c b ys"
  by (simp add: replace_char_def)

lemma escape_html_chars: "escape_html s = concat (map escape_char s)"
proof (induction s)
  case (Cons a s)
  have "escape_html (xs @ ys) = escape_html xs @ escape_html ys" for xs ys
    by (simp add: escape_html_def replace_char_append)
  from this [of "[a]" s] have "escape_html (a # s) = escape_html [a] @ escape_html s" by simp
  moreover have "escape_html [a] = escape_char a"
    by (simp add: escape_html_def replace_char_def escape_char_def)
  ultimately show ?case using Cons by simp
qed (simp add: escape_html_def replace_char_def)

lemma unescape_escape: "unescape_html (escape_char c @ s) = c # unescape_html s"
  by (auto simp: escape_char_def)

lemma hex_round_trip: "n < 16 \<Longrightarrow> hex_value (hex_digit n) = n"
proof -
  have "list_all (\<lambda>n. hex_value (hex_digit n) = n) [0..<16]" by code_simp
  then show "n < 16 \<Longrightarrow> hex_value (hex_digit n) = n" by (simp add: list_all_iff)
qed

lemma hex_digit_alnum: "n < 16 \<Longrightarrow> is_ascii_alphanumeric (hex_digit n)"
proof -
  have "list_all (\<lambda>n. is_ascii_alphanumeric (hex_digit n)) [0..<16]" by code_simp
  then show "n < 16 \<Longrightarrow> is_ascii_alphanumeric (hex_digit n)" by (simp add: list_all_iff)
qed

lemma char_halves:
  fixes c :: char
  shows "(of_char c :: nat) div 16 < 16" "(of_char c :: nat) mod 16 < 16"
  using nat_of_char_less_256 [of c] by (simp_all add: less_mult_imp_div_less)

lemma percent_decode_plain: "c \<noteq> CHR ''%'' \<Longrightarrow> percent_decode (c # s) = c # percent_decode s"
  by (cases s rule: percent_decode.cases) auto

lemma percent_round_trip: "percent_decode (percent_encode s) = s"
proof (induction s)
  case (Cons c s)
  have "c \<noteq> CHR ''%''" if "unreserved c"
  proof -
    have "\<not> unreserved (CHR ''%'')" by code_simp
    with that show ?thesis by blast
  qed
  moreover have "char_of (16 * ((of_char c :: nat) div 16) + of_char c mod 16) = c" by simp
  ultimately show ?case
    using Cons by (cases "unreserved c") (auto simp: percent_encode_def percent_decode_plain hex_round_trip char_halves)
qed (simp add: percent_encode_def)

lemma percent_encode_chars: "list_all (\<lambda>c. unreserved c \<or> c = CHR ''%'') (percent_encode s)"
  by (induction s) (auto simp: percent_encode_def unreserved_def hex_digit_alnum char_halves)

lemma unreserved_visible: "unreserved c \<or> c = CHR ''%'' \<Longrightarrow> visible c"
  by (auto simp: unreserved_def visible_def graphic_def is_ascii_alphanumeric_def is_upper_def is_lower_def
      is_digit_def)

lemma login_url_visible: "list_all visible (login_url base rest q)"
proof -
  have "list_all visible ''/console/login?next=''" by code_simp
  moreover have "list_all visible (percent_encode s)" for s
    using percent_encode_chars [of s] unreserved_visible by (auto simp: list_all_iff)
  ultimately show ?thesis by (simp add: login_url_def)
qed

section \<open>The gate: lemmas\<close>

lemma resolve_session_frame:
  assumes "resolve_session hash_secret token now db = (r, db')"
  shows "d_users db' = d_users db" "d_devices db' = d_devices db"
    "(\<And>u. r \<noteq> Inr (Some u)) \<Longrightarrow> set (d_sessions db') \<subseteq> set (d_sessions db)"
  using assms
  by (auto simp: resolve_session_def Let_def bindE_def okE_def find_session_def query_def statement_cases
      find_user_def flatten_def when_some_def delete_session_def extend_session_def update_sessions_def
      split: prod.splits sum.splits option.splits if_splits)

text \<open>Who a request's cookies speak for.\<close>

definition speaks_for :: "'l externals \<Rightarrow> database \<Rightarrow> int \<Rightarrow> string list \<Rightarrow> user_record \<Rightarrow> bool" where
  "speaks_for x db now tokens u \<longleftrightarrow>
     (\<exists>token \<in> set tokens. \<exists>se \<in> set (d_sessions db). \<exists>r \<in> set (d_users db).
        s_id_hash se = x_hash_secret x token \<and> now < s_expires_at se \<and>
        uw_id r = s_user_id se \<and> uw_disabled r = 0 \<and> read_user_row r = Inr u)"

lemma first_signed_in_speaks:
  "first_signed_in x now tokens s = (Some u, s') \<Longrightarrow> speaks_for x (rl_db s) now tokens u"
proof (induction x now tokens s rule: first_signed_in.induct)
  case (2 x now token tokens s)
  obtain r db1 where rs: "resolve_session (x_hash_secret x) token now (rl_db s) = (r, db1)" by force
  let ?s1 = "s\<lparr>rl_db := db1\<rparr>"
  have lift: "lift_db (resolve_session (x_hash_secret x) token now) s = (r, ?s1)" by (simp add: lift_db_def rs)
  consider (some) u' where "r = Inr (Some u')" | (none) "r = Inr None" | (err) e where "r = Inl e"
    by (metis obj_sumE option.exhaust)
  then show ?case
  proof cases
    case some
    with 2 lift have "r = Inr (Some u)" by simp
    show ?thesis
      by (rule resolve_session_Some [OF rs [unfolded \<open>r = Inr (Some u)\<close>]]) (unfold speaks_for_def, auto)
  next
    case none
    with 2(2) lift have "first_signed_in x now tokens ?s1 = (Some u, s')" by simp
    from 2(1) [OF lift [symmetric, unfolded none]] this
    have "speaks_for x db1 now tokens u" by simp
    with resolve_session_frame [OF rs] none show ?thesis
      unfolding speaks_for_def by simp blast
  next
    case err
    with 2 lift show ?thesis by simp
  qed
qed simp

lemma lift_db_registry:
  "lift_db m (s\<lparr>rl_registry := g\<rparr>) = (fst (lift_db m s), snd (lift_db m s)\<lparr>rl_registry := g\<rparr>)"
  by (simp add: lift_db_def split: prod.splits)

lemma first_signed_in_registry:
  "first_signed_in x now tokens (s\<lparr>rl_registry := g\<rparr>)
     = (fst (first_signed_in x now tokens s), snd (first_signed_in x now tokens s)\<lparr>rl_registry := g\<rparr>)"
proof (induction tokens arbitrary: s)
  case (Cons token tokens)
  obtain r s1 where r: "lift_db (resolve_session (x_hash_secret x) token now) s = (r, s1)" by fastforce
  then have "lift_db (resolve_session (x_hash_secret x) token now) (s\<lparr>rl_registry := g\<rparr>) = (r, s1\<lparr>rl_registry := g\<rparr>)"
    by (simp only: lift_db_registry fst_conv snd_conv)
  with r Cons [of s1] show ?case by (simp split: sum.split option.split)
qed simp

lemma signed_in_user_registry:
  "signed_in_user x ops headers (s\<lparr>rl_registry := g\<rparr>)
     = (fst (signed_in_user x ops headers s), snd (signed_in_user x ops headers s)\<lparr>rl_registry := g\<rparr>)"
proof -
  obtain now s1 where n: "lift_db now_millis s = (now, s1)" by fastforce
  then have "lift_db now_millis (s\<lparr>rl_registry := g\<rparr>) = (now, s1\<lparr>rl_registry := g\<rparr>)"
    by (simp only: lift_db_registry fst_conv snd_conv)
  with n show ?thesis by (simp add: signed_in_user_def first_signed_in_registry)
qed

lemma guard_registry:
  "guard x ops headers device t q (s\<lparr>rl_registry := g\<rparr>)
     = (fst (guard x ops headers device t q s), snd (guard x ops headers device t q s)\<lparr>rl_registry := g\<rparr>)"
proof -
  obtain u s1 where "signed_in_user x ops headers s = (u, s1)" by fastforce
  moreover from this have "signed_in_user x ops headers (s\<lparr>rl_registry := g\<rparr>) = (u, s1\<lparr>rl_registry := g\<rparr>)"
    by (simp only: signed_in_user_registry fst_conv snd_conv)
  ultimately show ?thesis by (simp add: guard_def split: option.split)
qed

lemma speaks_for_stmts: "speaks_for x (db\<lparr>d_stmts := i\<rparr>) = speaks_for x db"
  by (intro ext) (simp add: speaks_for_def)

lemma guard_passes:
  assumes "guard x ops headers (Some d) t q s = (None, s')" "requires_console_session (d_access d)"
  shows "dt_entry t = PathEntry" "\<exists>u. speaks_for x (rl_db s) (d_clock (rl_db s) (d_ticks (rl_db s)))
      (read_session_cookies (readable_cookies ops headers)) u \<and> is_reachable_by d (u_id u) (is_admin (u_role u))"
proof -
  let ?db = "(rl_db s)\<lparr>d_ticks := d_ticks (rl_db s) + 1\<rparr>" and ?now = "d_clock (rl_db s) (d_ticks (rl_db s))"
    and ?tokens = "read_session_cookies (readable_cookies ops headers)"
  show "dt_entry t = PathEntry" using assms by (cases "dt_entry t") (auto simp: guard_def)
  with assms obtain u where u: "first_signed_in x ?now ?tokens (s\<lparr>rl_db := ?db\<rparr>) = (Some u, s')"
      "is_reachable_by d (u_id u) (is_admin (u_role u))"
    by (auto simp: guard_def signed_in_user_def lift_db_def now_millis_def split: prod.splits option.splits if_splits)
  from first_signed_in_speaks [OF u(1)] have "speaks_for x (rl_db s) ?now ?tokens u" by (simp add: speaks_for_def)
  with u(2) show "\<exists>u. speaks_for x (rl_db s) ?now ?tokens u \<and> is_reachable_by d (u_id u) (is_admin (u_role u))"
    by blast
qed

lemma guard_answers:
  "guard x ops headers device t q s = (Some resp, s') \<Longrightarrow> (\<exists>l. resp = Redirect l) \<or> resp = Html 403 ForbiddenPage"
  by (auto simp: guard_def redirect_def split: option.splits prod.splits if_splits)

definition may_reach ::
  "'l externals \<Rightarrow> ('h, 'v) header_ops \<Rightarrow> 'h \<Rightarrow> database \<Rightarrow> device_target \<Rightarrow> device_record \<Rightarrow> bool" where
  "may_reach x ops headers db t d \<longleftrightarrow> dt_entry t = PathEntry \<and>
     (\<exists>u. speaks_for x db (d_clock db (d_ticks db)) (read_session_cookies (readable_cookies ops headers)) u \<and>
        is_reachable_by d (u_id u) (is_admin (u_role u)))"

lemma find_device_Inr:
  "find_device i db = (Inr r, db') \<Longrightarrow> db' = db\<lparr>d_stmts := d_stmts db + 1\<rparr>"
  by (auto simp: find_device_def flatten_query split: if_splits)

lemma guarded_answer:
  assumes "find_device (dt_device_id t) (rl_db s) = (Inr (Some d), db1)" "d_access d = RelayLogin"
    and "\<not> may_reach x (po_headers p) (rq_headers rq) (rl_db s) t d"
  shows "\<exists>resp s'. (\<forall>r. forward x p client t rq (s\<lparr>rl_registry := r\<rparr>) = (resp, s'\<lparr>rl_registry := r\<rparr>)) \<and>
     ((\<exists>l. resp = Redirect l) \<or> resp = Html 403 ForbiddenPage)"
proof -
  obtain g s2 where g: "guard x (po_headers p) (rq_headers rq) (Some d) t (rq_query rq) (s\<lparr>rl_db := db1\<rparr>) = (g, s2)"
    by fastforce
  have "g \<noteq> None"
  proof
    assume "g = None"
    with guard_passes [OF g [unfolded this]] assms(2)
    have "may_reach x (po_headers p) (rq_headers rq) db1 t d" by (simp add: may_reach_def)
    with assms(3) find_device_Inr [OF assms(1)] show False by (auto simp: may_reach_def speaks_for_stmts)
  qed
  then obtain resp where resp: "g = Some resp" by blast
  have "guard x (po_headers p) (rq_headers rq) (Some d) t (rq_query rq) (s\<lparr>rl_registry := r, rl_db := db1\<rparr>)
      = (Some resp, s2\<lparr>rl_registry := r\<rparr>)" for r
  proof -
    have "s\<lparr>rl_registry := r, rl_db := db1\<rparr> = s\<lparr>rl_db := db1, rl_registry := r\<rparr>" by simp
    then show ?thesis by (simp only: guard_registry g resp fst_conv snd_conv)
  qed
  then have "forward x p client t rq (s\<lparr>rl_registry := r\<rparr>) = (resp, s2\<lparr>rl_registry := r\<rparr>)" for r
    using assms(1) by (simp add: forward_def lift_db_def)
  with guard_answers [OF g [unfolded resp]] show ?thesis by blast
qed

lemma restricted_at_home:
  assumes "find_device (dt_device_id t) (rl_db s) = (Inr (Some d), db1)" "d_access d = RelayLogin"
    and "\<not> may_reach x (po_headers p) (rq_headers rq) (rl_db s) t d"
  shows "(\<exists>l. fst (forward x p client t rq s) = Redirect l) \<or> fst (forward x p client t rq s) = Html 403 ForbiddenPage"
proof -
  obtain resp s' where a: "\<And>r. forward x p client t rq (s\<lparr>rl_registry := r\<rparr>) = (resp, s'\<lparr>rl_registry := r\<rparr>)"
    and r: "(\<exists>l. resp = Redirect l) \<or> resp = Html 403 ForbiddenPage"
    using guarded_answer [OF assms] by blast
  from a [of "rl_registry s"] r show ?thesis by simp
qed

section \<open>Properties\<close>

text \<open>C8: at the relay whose store holds the row of a device that requires a console session, a request for it that enters there and
  does not present, on the path form of the address, a live session of an enabled account that owns the device or administrates
  the relay is answered by a redirect or the refusal page, and the answer is the same whatever the routing table
  says: not even whether the device is online is revealed. A request that enters at an upstream relay, which knows the device only
  as announced, is not covered: the policy is not enforced there (\<open>upstream_entry_skips_policy\<close>).\<close>

theorem restricted_device_is_guarded:
  assumes "find_device (dt_device_id t) (rl_db s) = (Inr (Some d), db1)" "d_access d = RelayLogin"
    and "\<not> may_reach x (po_headers p) (rq_headers rq) (rl_db s) t d"
  shows "\<exists>resp s'. (\<forall>r. forward x p client t rq (s\<lparr>rl_registry := r\<rparr>) = (resp, s'\<lparr>rl_registry := r\<rparr>)) \<and>
     ((\<exists>l. resp = Redirect l) \<or> resp = Html 403 ForbiddenPage)"
  using assms by (rule guarded_answer)

definition sample_ops :: "((string \<times> string) list, string, string, unit, nat) proxy_ops" where
  "sample_ops = \<lparr>po_headers = list_headers, po_names = sample_names, po_parse_ip = Some, po_trusted = (\<lambda>_. False),
     po_parse_id = Some, po_uri_build = (\<lambda>_ authority _. Some authority), po_uri_host = Some,
     po_request = (\<lambda>_ _ h. Answered 200 h), po_preface_new = preface_new, po_with_hop = with_hop,
     po_open_stream = (\<lambda>_ _. Inr ()), po_handshake = (\<lambda>_. True), po_send = (\<lambda>_ _ h. Some (200, h))\<rparr>"

definition sample_target :: device_target where
  "sample_target = \<lparr>dt_device_id = ''desk'', dt_rest = ''ws'', dt_entry = PathEntry\<rparr>"

definition sample_request :: "(string \<times> string) list request" where
  "sample_request = \<lparr>rq_path = ''/d/desk/ws'', rq_query = None, rq_headers = [(''upgrade'', ''websocket'')],
     rq_peer = Some ''192.0.2.7''\<rparr>"

theorem restricted_device_is_guarded_witness:
  "\<exists>resp s'. (\<forall>r. forward sample_x sample_ops sample_client sample_target sample_request
        (sample_relay\<lparr>rl_registry := r\<rparr>) = (resp, s'\<lparr>rl_registry := r\<rparr>)) \<and>
     ((\<exists>l. resp = Redirect l) \<or> resp = Html 403 ForbiddenPage)"
proof (rule restricted_device_is_guarded)
  show "find_device (dt_device_id sample_target) (rl_db sample_relay)
      = (Inr (Some sample_device_record), (rl_db sample_relay)\<lparr>d_stmts := 1\<rparr>)"
    using sample_device_found by (simp add: sample_target_def)
  show "\<not> may_reach sample_x (po_headers sample_ops) (rq_headers sample_request) (rl_db sample_relay)
      sample_target sample_device_record"
    by (simp add: may_reach_def speaks_for_def readable_cookies_def read_session_cookies_def sample_ops_def
        sample_request_def list_headers_def map_filter_def)
qed (simp add: sample_device_record_def)

text \<open>The sign-in redirect can always be sent, its parameter contains nothing but unreserved characters and
  escapes, so no crafted path adds a header or a parameter, and decoding it gives back exactly the
  address that was asked for.\<close>

lemma login_redirect_returns:
  assumes "header_laws ops"
  shows "\<exists>enc. redirect ops (login_url base rest q) = Redirect (''/console/login?next='' @ enc) \<and>
       list_all (\<lambda>c. unreserved c \<or> c = CHR ''%'') enc \<and> percent_decode enc = base @ rest @ query_part q"
proof -
  obtain v where "v_from_str ops (login_url base rest q) = Some v"
    using assms login_url_visible [of base rest q] unfolding header_laws_def by blast
  then have "redirect ops (login_url base rest q) = Redirect (login_url base rest q)"
    by (simp add: redirect_def)
  then show ?thesis
    by (intro exI [of _ "percent_encode (base @ rest @ query_part q)"])
       (simp add: login_url_def percent_encode_chars percent_round_trip)
qed

theorem login_redirect_returns_witness:
  "\<exists>enc. redirect list_headers (login_url ''/d/desk/'' ''a b'' (Some ''x=1&y'')) = Redirect (''/console/login?next='' @ enc) \<and>
     list_all (\<lambda>c. unreserved c \<or> c = CHR ''%'') enc \<and> percent_decode enc = ''/d/desk/a b?x=1&y''"
  using login_redirect_returns [OF list_headers_laws, of "''/d/desk/''" "''a b''" "Some ''x=1&y''"]
  by (simp add: query_part_def)

text \<open>C37: the four replacements that \<^verbatim>\<open>escape_html\<close> makes one after the other over the whole text equal one pass
  that replaces each character on its own, so nothing is escaped twice; the device name on the offline
  page contains no markup, and a browser shows exactly the name.\<close>

theorem escaped_name_is_inert:
  "escape_html name = concat (map escape_char name) \<and>
   set (escape_html name) \<inter> {CHR ''<'', CHR ''>'', CHR 0x22} = {} \<and> unescape_html (escape_html name) = name"
proof (induction name)
  case (Cons c name)
  then show ?case by (auto simp: escape_html_chars unescape_escape escape_char_def split: if_splits)
qed (simp add: escape_html_chars)

end
