(* ===== verification/Federation.thy ===== *)
theory Federation
  imports Proxy
begin

text \<open>
  Relays behind relays: a request that enters at an upstream relay (\<^verbatim>\<open>src/proxy.rs\<close>, \<^verbatim>\<open>src/access.rs\<close>) and
  is carried to the device by the relays below it (\<^verbatim>\<open>src/upstream/forward.rs\<close>), and what becomes of the
  device's access policy on the way.
\<close>

section \<open>A stream through a chain of relays\<close>

text \<open>Opening a stream on a link of \<open>relay\<close>: the relays behind it carry it on, and what comes back is the
  stream that the last one opened on the device's own tunnel, since the others only copy bytes.\<close>

definition chain_stream ::
  "nat \<Rightarrow> (string \<Rightarrow> registry) \<Rightarrow> (string \<Rightarrow> tunnel_handle \<Rightarrow> string) \<Rightarrow> string
     \<Rightarrow> (tunnel_handle \<Rightarrow> 'v stream_preface \<Rightarrow> tunnel_error + 's)
     \<Rightarrow> tunnel_handle \<Rightarrow> 'v stream_preface \<Rightarrow> tunnel_error + 's" where
  "chain_stream max_hops net far relay open_stream link preface =
     (case travel max_hops net far (far relay link) preface of
        Inl _ \<Rightarrow> Inl TunnelClosed
      | Inr (h, q) \<Rightarrow> open_stream h q)"

lemma chain_stream_opens:
  assumes "leads_to net far device relay (nxt # rest) h"
    and "\<forall>x \<in> set (relay # nxt # rest). registry_inv max_hops (net x) \<and> r_relay_id (net x) = x"
    and "\<forall>d. sp_target (fresh d) = d \<and> sp_hops (fresh d) = []"
    and "\<forall>p x. add_hop p x = p\<lparr>sp_hops := sp_hops p @ [x]\<rparr>"
  shows "connector_call fresh add_hop (chain_stream max_hops net far relay open_stream) (net relay) relay (Some device) =
    open_stream h \<lparr>sp_v = sp_v (fresh device), sp_target = device, sp_hops = relay # nxt # rest\<rparr>"
proof -
  from assms(1) obtain link where link: "route (net relay) device = Some (Via link (nxt # rest))"
    "far relay link = nxt" and rest: "leads_to net far device nxt rest h" by auto
  let ?p = "(fresh device)\<lparr>sp_hops := [relay]\<rparr>"
  have "distinct (relay # nxt # rest)" using leads_to_distinct [OF assms(1,2)] .
  moreover have "length (relay # nxt # rest) \<le> max_hops"
    using table.room_for_owner [OF _ link(1), of max_hops] assms(2) by simp
  ultimately have "travel max_hops net far nxt ?p =
      Inr (h, \<lparr>sp_v = sp_v ?p, sp_target = device, sp_hops = sp_hops ?p @ nxt # rest\<rparr>)"
    using assms(3) by (intro leads_to_travel [OF rest]) auto
  with link assms(3,4) show ?thesis by (simp add: connector_call_def stream_preface_for_def chain_stream_def)
qed

lemma forward_bridges:
  assumes "find_device (dt_device_id t) (rl_db s) = (Inr None, db1)" "is_online (rl_registry s) (dt_device_id t)"
    and "tunnel_uri (po_uri_build p) (dt_device_id t) (dt_rest t) (rq_query rq) = Some uri"
    and "is_websocket_upgrade (po_headers p) (rq_headers rq)"
  shows "forward x p client t rq s = bridge_websocket p uri (prepare_request_headers (po_headers p) (po_names p) client
      (base_path (x_device_prefix x) t) True (rq_headers rq)) (s\<lparr>rl_db := db1\<rparr>)"
  using assms by (simp add: forward_def lift_db_def guard_def)

section \<open>Properties\<close>

text \<open>A device that its own relay shows only to its owner is open to everyone at a relay further up. The
  upstream has no row for it and lets every request pass, and the relays on the way, the device's own
  included, carry the stream without asking who it is for: an upgrade request without any session is
  answered by the device, while the same request at the device's own relay is refused.\<close>

lemma upstream_entry_skips_policy:
  assumes chain: "leads_to net far (dt_device_id t) A (nxt # rest) h"
    and inv: "\<forall>r \<in> set (A # nxt # rest). registry_inv max_hops (net r) \<and> r_relay_id (net r) = r"
    and top: "rl_registry s = net A" "rl_relay_id s = A" "find_device (dt_device_id t) (rl_db s) = (Inr None, db1)"
    and home: "rl_registry s' = net (last (nxt # rest))"
      "find_device (dt_device_id t) (rl_db s') = (Inr (Some d), db2)" "d_access d = RelayLogin"
      "\<not> may_reach x (po_headers p) (rq_headers rq) (rl_db s') t d"
    and preface: "\<forall>i. sp_target (po_preface_new p i) = i \<and> sp_hops (po_preface_new p i) = []"
      "\<forall>q r. po_with_hop p q r = q\<lparr>sp_hops := sp_hops q @ [r]\<rparr>"
    and uri: "tunnel_uri (po_uri_build p) (dt_device_id t) (dt_rest t) (rq_query rq) = Some uri"
      "authority_device_id (po_uri_host p) uri = Some (dt_device_id t)"
    and upgrade: "is_websocket_upgrade (po_headers p) (rq_headers rq)"
    and link: "po_open_stream p = chain_stream max_hops net far A open_stream"
      "\<forall>q. sp_target q = dt_device_id t \<longrightarrow> open_stream h q = Inr stream" "po_handshake p stream"
    and device: "po_send p stream uri (prepare_request_headers (po_headers p) (po_names p) client
        (base_path (x_device_prefix x) t) True (rq_headers rq)) = Some (status, answer)"
  shows "fst (forward x p client t rq s) = relay_response (po_headers p) status answer \<and>
    (\<exists>resp. fst (forward x p client t rq s') = resp \<and> ((\<exists>l. resp = Redirect l) \<or> resp = Html 403 ForbiddenPage))"
proof
  have "is_online (rl_registry s) (dt_device_id t)"
    using leads_to_route [OF chain] top(1) by (auto simp: is_online_def route_def)
  note fwd = forward_bridges [OF top(3) this uri(1) upgrade]
  have "connector_call (po_preface_new p) (po_with_hop p) (po_open_stream p) (net A) A (Some (dt_device_id t)) = Inr stream"
    unfolding link(1) chain_stream_opens [OF chain inv preface] using link(2) by simp
  with top link(3) device show "fst (forward x p client t rq s) = relay_response (po_headers p) status answer"
    by (simp add: fwd bridge_websocket_def uri(2))
  from restricted_at_home [OF home(2,3,4)]
  show "\<exists>resp. fst (forward x p client t rq s') = resp \<and> ((\<exists>l. resp = Redirect l) \<or> resp = Html 403 ForbiddenPage)"
    by blast
qed


definition chain_ops :: "((string \<times> string) list, string, string, unit, nat) proxy_ops" where
  "chain_ops = sample_ops\<lparr>po_open_stream :=
     chain_stream 8 (sample_net sample_routed) sample_far_end ''A'' (\<lambda>_ _. Inr ())\<rparr>"

definition far_target :: device_target where
  "far_target = \<lparr>dt_device_id = ''far'', dt_rest = ''ws'', dt_entry = PathEntry\<rparr>"

definition far_row :: device_row where
  "far_row = sample_device_row\<lparr>dw_id := ''far''\<rparr>"

definition upstream_relay_state :: "string list relay" where
  "upstream_relay_state = sample_relay\<lparr>rl_registry := sample_routed\<rparr>"

definition home_relay_state :: "string list relay" where
  "home_relay_state = sample_relay\<lparr>rl_db := (rl_db sample_relay)\<lparr>d_devices := [far_row]\<rparr>,
     rl_registry := sample_branch, rl_relay_id := ''B''\<rparr>"

lemma far_found:
  "find_device ''far'' (rl_db home_relay_state) = (Inr (Some (sample_device_record\<lparr>d_id := ''far''\<rparr>)),
     (rl_db home_relay_state)\<lparr>d_stmts := 1\<rparr>)"
proof -
  have "trim ''relay-login'' = ''relay-login''" by (rule trim_graphic) (simp_all add: graphic_def)
  then show ?thesis
    by (simp add: find_device_def flatten_query first_row_def read_device_row_def parse_device_row_def parse_device_kind_def
      device_access_from_str_def home_relay_state_def far_row_def sample_relay_def sample_device_row_def
      sample_users_db_def sample_db_def sample_device_record_def optional_text_def)
qed

theorem upstream_entry_skips_policy_witness:
  "fst (forward sample_x chain_ops sample_client far_target sample_request upstream_relay_state) =
     relay_response list_headers 200 (prepare_request_headers list_headers sample_names sample_client
       (base_path ''/d/'' far_target) True (rq_headers sample_request)) \<and>
   (\<exists>resp. fst (forward sample_x chain_ops sample_client far_target sample_request home_relay_state) = resp \<and>
      ((\<exists>l. resp = Redirect l) \<or> resp = Html 403 ForbiddenPage))"
proof -
  have far: "dt_device_id far_target = ''far''" by (simp add: far_target_def)
  have ops: "po_headers chain_ops = list_headers" "po_names chain_ops = sample_names" "x_device_prefix sample_x = ''/d/''"
    by (simp_all add: chain_ops_def sample_ops_def sample_x_def)
  have host: "authority_device_id (po_uri_host chain_ops) (''far'' @ tunnel_authority_suffix) = Some ''far''"
    unfolding chain_ops_def sample_ops_def by code_simp
  show ?thesis
    unfolding ops(1,2) [symmetric] unfolding ops(3) [symmetric]
  proof (rule upstream_entry_skips_policy [of "sample_net sample_routed" sample_far_end far_target "''A''" "''B''" "[]"
        "dp_handle sample_far" 8 upstream_relay_state "(rl_db upstream_relay_state)\<lparr>d_stmts := 1\<rparr>" home_relay_state
        "sample_device_record\<lparr>d_id := ''far''\<rparr>" "(rl_db home_relay_state)\<lparr>d_stmts := 1\<rparr>" sample_x chain_ops
        sample_request "''far'' @ tunnel_authority_suffix" "\<lambda>_ _. Inr ()" "()" sample_client 200])
    show "leads_to (sample_net sample_routed) sample_far_end (dt_device_id far_target) ''A'' [''B''] (dp_handle sample_far)"
      unfolding far by (rule sample_chain)
    show "find_device (dt_device_id far_target) (rl_db upstream_relay_state) =
        (Inr None, (rl_db upstream_relay_state)\<lparr>d_stmts := 1\<rparr>)"
      by (simp add: far find_device_def flatten_query first_row_def upstream_relay_state_def sample_relay_def
          sample_users_db_def sample_db_def sample_device_row_def)
    show "find_device (dt_device_id far_target) (rl_db home_relay_state) =
        (Inr (Some (sample_device_record\<lparr>d_id := ''far''\<rparr>)), (rl_db home_relay_state)\<lparr>d_stmts := 1\<rparr>)"
      unfolding far by (rule far_found)
    show "\<not> may_reach sample_x (po_headers chain_ops) (rq_headers sample_request) (rl_db home_relay_state) far_target
        (sample_device_record\<lparr>d_id := ''far''\<rparr>)"
      by (simp add: may_reach_def speaks_for_def readable_cookies_def read_session_cookies_def ops
          sample_request_def list_headers_def map_filter_def)
    show "is_websocket_upgrade (po_headers chain_ops) (rq_headers sample_request)"
      unfolding ops sample_request_def by code_simp
    show "authority_device_id (po_uri_host chain_ops) (''far'' @ tunnel_authority_suffix) = Some (dt_device_id far_target)"
      unfolding far by (rule host)
  qed (use sample_net_inv in \<open>simp_all add: upstream_relay_state_def home_relay_state_def sample_relay_def sample_net_def
      sample_device_record_def chain_ops_def sample_ops_def preface_new_def with_hop_def tunnel_uri_def far\<close>)
qed

end
