(* ===== verification/Api.thy ===== *)
theory Api
  imports Relay_State
begin

text \<open>
  The handlers of the JSON API (\<^verbatim>\<open>src/api/*.rs\<close>) and the first administrator (\<^verbatim>\<open>src/bootstrap.rs\<close>). A
  handler is a function on the shared state that returns the Rust \<^verbatim>\<open>Result\<close>; its extractors run first,
  as axum does, and its parsed body and its client address are arguments. The envelopes around a
  response body carry nothing and are left out.
\<close>

section \<open>Shared steps\<close>

definition require_some :: "api_error \<Rightarrow> 'a option \<Rightarrow> 's \<Rightarrow> (api_error + 'a) \<times> 's" where
  "require_some e v = (case v of Some a \<Rightarrow> okE a | None \<Rightarrow> errE e)"

definition ensure :: "bool \<Rightarrow> api_error \<Rightarrow> 's \<Rightarrow> (api_error + unit) \<times> 's" where
  "ensure ok e = (if ok then okE () else errE e)"

text \<open>A fallible function of another crate that consumes randomness.\<close>

definition drawn :: "(nat \<Rightarrow> 'e + 'a) \<Rightarrow> ('e \<Rightarrow> api_error) \<Rightarrow> 'l relay \<Rightarrow> (api_error + 'a) \<times> 'l relay" where
  "drawn f on_error s =
     (let (n, s1) = draw s
      in (case f n of Inl e \<Rightarrow> Inl (on_error e) | Inr a \<Rightarrow> Inr a, s1))"

definition hash_password :: "'l externals \<Rightarrow> string \<Rightarrow> 'l relay \<Rightarrow> (api_error + string) \<times> 'l relay" where
  "hash_password x password = drawn (\<lambda>n. x_hash_password x n password) (\<lambda>e. bad_request (Opaque e))"

definition password_matches :: "'l externals \<Rightarrow> string \<Rightarrow> string \<Rightarrow> bool" where
  "password_matches x = verify_password (x_parse_hash x) (x_argon2_verify x)"

definition record_failure :: "'l externals \<Rightarrow> string \<Rightarrow> 'l relay \<Rightarrow> (api_error + unit) \<times> 'l relay" where
  "record_failure x ip = modify (\<lambda>s. s\<lparr>rl_lockout := x_record_failure x (rl_lockout s) ip\<rparr>)"

definition clear_failures :: "'l externals \<Rightarrow> string \<Rightarrow> 'l relay \<Rightarrow> (api_error + unit) \<times> 'l relay" where
  "clear_failures x ip = modify (\<lambda>s. s\<lparr>rl_lockout := x_lock_clear x (rl_lockout s) ip\<rparr>)"

definition refuse_locked :: "'l externals \<Rightarrow> string \<Rightarrow> 'l relay \<Rightarrow> (api_error + unit) \<times> 'l relay" where
  "refuse_locked x ip =
     bindE (gets (\<lambda>s. x_is_locked x (rl_lockout s) ip)) (\<lambda>locked.
       ensure (\<not> locked) (unauthorized LockedOut))"

text \<open>A transposed option: the check runs when there is a value.\<close>

definition check_some :: "('a \<Rightarrow> 's \<Rightarrow> ('e + 'b) \<times> 's) \<Rightarrow> 'a option \<Rightarrow> 's \<Rightarrow> ('e + 'b option) \<times> 's" where
  "check_some f v = (case v of None \<Rightarrow> okE None | Some a \<Rightarrow> bindE (f a) (\<lambda>b. okE (Some b)))"

fun traverse :: "('a \<Rightarrow> 's \<Rightarrow> ('e + 'b) \<times> 's) \<Rightarrow> 'a list \<Rightarrow> 's \<Rightarrow> ('e + 'b list) \<times> 's" where
  "traverse f [] = okE []"
| "traverse f (a # as) = bindE (f a) (\<lambda>b. bindE (traverse f as) (\<lambda>bs. okE (b # bs)))"

section \<open>Enrolling a device\<close>

datatype enroll_request =
    EnrollByCode string string
  | EnrollByPassword string string string

record enroll_response =
  er_credential :: string
  er_device_id :: string
  er_relay_id :: string

definition max_device_name_length :: nat where
  "max_device_name_length = 64"

definition issue_device ::
  "'l externals \<Rightarrow> device_kind \<Rightarrow> string option \<Rightarrow> string \<Rightarrow> 'l relay
     \<Rightarrow> (api_error + string \<times> string) \<times> 'l relay" where
  "issue_device x kind owner_user_id name =
     bindE (drawn (x_credential x) (\<lambda>_. internal)) (\<lambda>credential.
       bindE (in_db (create_device
           \<lparr>nd_id = fst credential, nd_kind = kind, nd_name = name, nd_owner_user_id = owner_user_id,
            nd_secret_hash = x_hash_secret x (snd credential), nd_note = None\<rparr>))
         (\<lambda>_. okE credential))"

definition response_for :: "'l externals \<Rightarrow> string \<times> string \<Rightarrow> 'l relay \<Rightarrow> enroll_response" where
  "response_for x credential s =
     \<lparr>er_credential = x_credential_text x credential, er_device_id = fst credential, er_relay_id = rl_relay_id s\<rparr>"

text \<open>\<^verbatim>\<open>enroll_with_code\<close> in its two halves: finding the code and issuing a device, then burning the code.
  Other requests may run in between.\<close>

definition claim_code ::
  "'l externals \<Rightarrow> string \<Rightarrow> string \<Rightarrow> 'l relay
     \<Rightarrow> (api_error + enrollment_record \<times> string \<times> string) \<times> 'l relay" where
  "claim_code x code name0 =
     bindE (check (require_text name0 ''name'' max_device_name_length)) (\<lambda>name.
     bindE (require_some (unauthorized InvalidCode) (normalize_code code)) (\<lambda>canonical.
     bindE (in_db (find_enrollment_by_hash (x_hash_secret x canonical))) (\<lambda>found.
     bindE (require_some (unauthorized InvalidCode) found) (\<lambda>enrollment.
     bindE clock (\<lambda>now.
     bindE (ensure (is_redeemable enrollment now) (unauthorized InvalidCode)) (\<lambda>_.
     bindE (issue_device x (en_kind enrollment) (en_owner_user_id enrollment) name) (\<lambda>credential.
       okE (enrollment, credential))))))))"

definition burn_code ::
  "'l externals \<Rightarrow> string \<Rightarrow> string \<times> string \<Rightarrow> 'l relay \<Rightarrow> (api_error + enroll_response) \<times> 'l relay" where
  "burn_code x enrollment_id credential =
     bindE (in_db (mark_enrollment_used enrollment_id (fst credential))) (\<lambda>marked.
       if \<not> marked
       then bindE (in_db (revoke_device (fst credential))) (\<lambda>_. errE (unauthorized InvalidCode))
       else gets (response_for x credential))"

definition enroll_with_code ::
  "'l externals \<Rightarrow> string \<Rightarrow> string \<Rightarrow> 'l relay \<Rightarrow> (api_error + enroll_response) \<times> 'l relay" where
  "enroll_with_code x code name =
     bindE (claim_code x code name) (\<lambda>(enrollment, credential). burn_code x (en_id enrollment) credential)"

definition enroll_with_password ::
  "'l externals \<Rightarrow> string \<Rightarrow> string \<Rightarrow> string \<Rightarrow> 'l relay \<Rightarrow> (api_error + enroll_response) \<times> 'l relay" where
  "enroll_with_password x username password name0 =
     bindE (check (require_text name0 ''name'' max_device_name_length)) (\<lambda>name.
     bindE (in_db (find_user_by_username (trim username))) (\<lambda>found.
     bindE (require_some (unauthorized InvalidAccount) found) (\<lambda>user.
     bindE (ensure (\<not> u_disabled user \<and> password_matches x password (u_password_hash user))
         (unauthorized InvalidAccount)) (\<lambda>_.
     bindE (issue_device x Desktop (Some (u_id user)) name) (\<lambda>credential.
       gets (response_for x credential))))))"

definition enroll ::
  "'l externals \<Rightarrow> string \<Rightarrow> enroll_request \<Rightarrow> 'l relay \<Rightarrow> (api_error + enroll_response) \<times> 'l relay" where
  "enroll x ip request =
     bindE (refuse_locked x ip) (\<lambda>_ s.
       let (outcome, s1) =
         (case request of
            EnrollByCode code name \<Rightarrow> enroll_with_code x code name
          | EnrollByPassword username password name \<Rightarrow> enroll_with_password x username password name) s
       in case outcome of
            Inr response \<Rightarrow>
              bindE (clear_failures x ip) (\<lambda>_.
              bindE (audit x (audit_from_ip ip (audit_target ''device'' (er_device_id response)
                  (audit_actor (er_device_id response) (audit_new ActorDevice ''enroll''))))) (\<lambda>_.
                okE response)) s1
          | Inl error \<Rightarrow>
              (if ae_status error = 401
               then bindE (record_failure x ip) (\<lambda>_.
                    bindE (audit x (audit_from_ip ip (audit_new ActorDevice ''enroll-failed''))) (\<lambda>_.
                      errE error))
               else errE error) s1)"

section \<open>Enrollment codes\<close>

record create_enrollment_request =
  ce_kind :: device_kind
  ce_owner_user_id :: "string option"
  ce_ttl_minutes :: "u32 option"
  ce_note :: "string option"

definition max_note_length :: nat where
  "max_note_length = 200"

definition non_blank :: "string option \<Rightarrow> string option" where
  "non_blank v = (case v of Some t \<Rightarrow> if trim t = [] then None else Some (trim t) | None \<Rightarrow> None)"

definition normalized_owner ::
  "string option \<Rightarrow> 'l relay \<Rightarrow> (api_error + string option) \<times> 'l relay" where
  "normalized_owner owner =
     (case non_blank owner of
        None \<Rightarrow> okE None
      | Some owner \<Rightarrow>
          bindE (in_db (find_user owner)) (\<lambda>found.
            require_some (bad_request UnknownOwner) (map_option (\<lambda>u. Some (u_id u)) found)))"

definition bounded_enrollment_note :: "string option \<Rightarrow> api_error + string option" where
  "bounded_enrollment_note note =
     (case non_blank note of
        None \<Rightarrow> Inr None
      | Some note \<Rightarrow> if chars_count note > max_note_length then Inl (bad_request NoteTooLong) else Inr (Some note))"

definition view_enrollment_now ::
  "view_context \<Rightarrow> enrollment_record \<Rightarrow> 'l relay \<Rightarrow> (api_error + enrollment_view) \<times> 'l relay" where
  "view_enrollment_now c r = bindE clock (\<lambda>now. okE (view_enrollment c now r))"

definition list_enrollments_api ::
  "'l externals \<Rightarrow> ('h, 'v) header_ops \<Rightarrow> 'h \<Rightarrow> 'l relay \<Rightarrow> (api_error + enrollment_view list) \<times> 'l relay" where
  "list_enrollments_api x ops headers =
     bindE (admin_user x ops headers) (\<lambda>_.
     bindE (in_db list_enrollments) (\<lambda>records.
     bindE build_context (\<lambda>c.
       traverse (view_enrollment_now c) records)))"

definition create_enrollment_api ::
  "'l externals \<Rightarrow> ('h, 'v) header_ops \<Rightarrow> 'h \<Rightarrow> string \<Rightarrow> create_enrollment_request \<Rightarrow> 'l relay
     \<Rightarrow> (api_error + enrollment_view \<times> string) \<times> 'l relay" where
  "create_enrollment_api x ops headers ip request =
     bindE (admin_user x ops headers) (\<lambda>admin.
     bindE (normalized_owner (ce_owner_user_id request)) (\<lambda>owner.
     bindE (check (bounded_enrollment_note (ce_note request))) (\<lambda>note.
     let ttl_minutes = clamp_ttl_minutes (ce_ttl_minutes request) in
     bindE (drawn (\<lambda>n. generate_code (x_fill x n)) (\<lambda>e. bad_request (Opaque e))) (\<lambda>code.
     bindE clock (\<lambda>now.
     bindE (in_db (create_enrollment
         \<lparr>ne_code_hash = x_hash_secret x code, ne_kind = ce_kind request, ne_owner_user_id = owner,
          ne_created_by = u_id (fst admin), ne_note = note,
          ne_expires_at = now + int (unat ttl_minutes) * (60 * 1000)\<rparr>)) (\<lambda>record.
     bindE (audit x (audit_detail ''ttlMinutes'' (JNum (unat ttl_minutes))
         (audit_detail ''kind'' (JStr (device_kind_label (ce_kind request)))
         (audit_from_ip ip (audit_target ''enrollment'' (en_id record)
           (by_user (u_id (fst admin)) ''enrollment-created'')))))) (\<lambda>_.
     bindE build_context (\<lambda>c.
     bindE (view_enrollment_now c record) (\<lambda>view. okE (view, code))))))))))"

definition cancel_enrollment_api ::
  "'l externals \<Rightarrow> ('h, 'v) header_ops \<Rightarrow> 'h \<Rightarrow> string \<Rightarrow> string \<Rightarrow> 'l relay \<Rightarrow> (api_error + unit) \<times> 'l relay" where
  "cancel_enrollment_api x ops headers ip ident =
     bindE (admin_user x ops headers) (\<lambda>admin.
     bindE (in_db (find_enrollment ident)) (\<lambda>found.
     bindE (require_some (not_found UnknownEnrollment) found) (\<lambda>record.
     bindE (in_db (cancel_enrollment (en_id record))) (\<lambda>cancelled.
     bindE (ensure cancelled (conflict AlreadySettled)) (\<lambda>_.
       audit x (audit_from_ip ip (audit_target ''enrollment'' (en_id record)
         (by_user (u_id (fst admin)) ''enrollment-cancelled''))))))))"

section \<open>Devices\<close>

record device_update_request =
  dr_name :: "string option"
  dr_note :: "string option"
  dr_access :: "string option"

definition revoked_reason :: string where
  "revoked_reason = ''revoked''"

definition disconnected_reason :: string where
  "disconnected_reason = ''disconnected''"

definition require_device :: "string \<Rightarrow> 'l relay \<Rightarrow> (api_error + device_record) \<times> 'l relay" where
  "require_device device_id =
     bindE (in_db (find_device device_id)) (require_some (not_found UnknownDevice))"

definition find_own_device ::
  "user_record \<Rightarrow> string \<Rightarrow> 'l relay \<Rightarrow> (api_error + device_record) \<times> 'l relay" where
  "find_own_device user device_id =
     bindE (require_device device_id) (\<lambda>device.
       if d_owner_user_id device \<noteq> Some (u_id user) then errE (forbidden NotYourDevice) else okE device)"

definition device_envelope ::
  "'l externals \<Rightarrow> string \<Rightarrow> 'l relay \<Rightarrow> (api_error + device_view) \<times> 'l relay" where
  "device_envelope x device_id =
     bindE (require_device device_id) (\<lambda>device.
     bindE build_context (\<lambda>c.
       gets (\<lambda>s. view_device x s c device)))"

text \<open>\<^verbatim>\<open>devices::revoke\<close>.\<close>

definition revoke ::
  "'l externals \<Rightarrow> string \<Rightarrow> string \<Rightarrow> string \<Rightarrow> 'l relay \<Rightarrow> (api_error + unit) \<times> 'l relay" where
  "revoke x device_id actor_id ip =
     bindE (in_db (revoke_device device_id)) (\<lambda>changed.
     bindE (modify (\<lambda>s. case route (rl_registry s) device_id of
         Some rt \<Rightarrow> revoke_tunnel x (route_link rt) revoked_reason s
       | None \<Rightarrow> s)) (\<lambda>_.
       if changed
       then audit x (audit_from_ip ip (audit_target ''device'' device_id (by_user actor_id ''device-revoked'')))
       else okE ()))"

definition bounded_note :: "string \<Rightarrow> api_error + string" where
  "bounded_note note =
     (if chars_count (trim note) > max_note_length then Inl (bad_request (TooLongField ''note'' max_note_length))
      else Inr (trim note))"

definition requested_access :: "string \<Rightarrow> api_error + device_access" where
  "requested_access v =
     (case device_access_from_str v of Some a \<Rightarrow> Inr a | None \<Rightarrow> Inl (bad_request UnknownAccess))"

definition record_update ::
  "'l externals \<Rightarrow> device_record \<Rightarrow> device_update \<Rightarrow> string \<Rightarrow> string \<Rightarrow> 'l relay \<Rightarrow> (api_error + unit) \<times> 'l relay" where
  "record_update x device u actor_id ip =
     bindE (if du_name u \<noteq> None \<or> du_note u \<noteq> None
         then audit x (audit_from_ip ip (audit_target ''device'' (d_id device) (by_user actor_id ''device-updated'')))
         else okE ()) (\<lambda>_.
       case du_access u of
         Some access \<Rightarrow>
           if access \<noteq> d_access device
           then audit x (audit_detail ''access'' (JStr (access_str access))
             (audit_from_ip ip (audit_target ''device'' (d_id device) (by_user actor_id ''device-access-changed''))))
           else okE ()
       | None \<Rightarrow> okE ())"

definition apply_update ::
  "'l externals \<Rightarrow> device_record \<Rightarrow> device_update_request \<Rightarrow> string \<Rightarrow> string \<Rightarrow> 'l relay
     \<Rightarrow> (api_error + device_view) \<times> 'l relay" where
  "apply_update x device request actor_id ip =
     bindE (check_some (\<lambda>name. check (require_text name ''name'' max_device_name_length)) (dr_name request)) (\<lambda>name.
     bindE (check_some (\<lambda>note. check (bounded_note note)) (dr_note request)) (\<lambda>note.
     bindE (check_some (\<lambda>access. check (requested_access access)) (dr_access request)) (\<lambda>access.
     let u = \<lparr>du_name = name, du_note = note, du_access = access\<rparr> in
     bindE (ensure (\<not> device_update_is_empty u) (bad_request NothingToUpdate)) (\<lambda>_.
     bindE (in_db (update_device (d_id device) u)) (\<lambda>_.
     bindE (record_update x device u actor_id ip) (\<lambda>_.
       device_envelope x (d_id device)))))))"

definition list_all_devices ::
  "'l externals \<Rightarrow> ('h, 'v) header_ops \<Rightarrow> 'h \<Rightarrow> 'l relay \<Rightarrow> (api_error + device_view list) \<times> 'l relay" where
  "list_all_devices x ops headers =
     bindE (admin_user x ops headers) (\<lambda>_.
     bindE (in_db list_devices) (\<lambda>records.
     bindE build_context (\<lambda>c.
       gets (\<lambda>s. map (view_device x s c) records @ announced_only x s c records))))"

definition list_own_devices ::
  "'l externals \<Rightarrow> ('h, 'v) header_ops \<Rightarrow> 'h \<Rightarrow> 'l relay \<Rightarrow> (api_error + device_view list) \<times> 'l relay" where
  "list_own_devices x ops headers =
     bindE (session_user x ops headers) (\<lambda>session.
     bindE (in_db (list_devices_owned_by (u_id (fst session)))) (\<lambda>records.
     bindE build_context (\<lambda>c.
       gets (\<lambda>s. map (view_device x s c) records))))"

definition update_any ::
  "'l externals \<Rightarrow> ('h, 'v) header_ops \<Rightarrow> 'h \<Rightarrow> string \<Rightarrow> string \<Rightarrow> device_update_request \<Rightarrow> 'l relay
     \<Rightarrow> (api_error + device_view) \<times> 'l relay" where
  "update_any x ops headers ip ident request =
     bindE (admin_user x ops headers) (\<lambda>admin.
     bindE (require_device ident) (\<lambda>device.
       apply_update x device request (u_id (fst admin)) ip))"

definition update_own ::
  "'l externals \<Rightarrow> ('h, 'v) header_ops \<Rightarrow> 'h \<Rightarrow> string \<Rightarrow> string \<Rightarrow> device_update_request \<Rightarrow> 'l relay
     \<Rightarrow> (api_error + device_view) \<times> 'l relay" where
  "update_own x ops headers ip ident request =
     bindE (session_user x ops headers) (\<lambda>session.
     bindE (find_own_device (fst session) ident) (\<lambda>device.
       apply_update x device \<lparr>dr_name = dr_name request, dr_note = None, dr_access = dr_access request\<rparr>
         (u_id (fst session)) ip))"

definition revoke_any ::
  "'l externals \<Rightarrow> ('h, 'v) header_ops \<Rightarrow> 'h \<Rightarrow> string \<Rightarrow> string \<Rightarrow> 'l relay \<Rightarrow> (api_error + device_view) \<times> 'l relay" where
  "revoke_any x ops headers ip ident =
     bindE (admin_user x ops headers) (\<lambda>admin.
     bindE (require_device ident) (\<lambda>device.
     bindE (revoke x (d_id device) (u_id (fst admin)) ip) (\<lambda>_.
       device_envelope x (d_id device))))"

definition revoke_own ::
  "'l externals \<Rightarrow> ('h, 'v) header_ops \<Rightarrow> 'h \<Rightarrow> string \<Rightarrow> string \<Rightarrow> 'l relay \<Rightarrow> (api_error + device_view) \<times> 'l relay" where
  "revoke_own x ops headers ip ident =
     bindE (session_user x ops headers) (\<lambda>session.
     bindE (find_own_device (fst session) ident) (\<lambda>device.
     bindE (revoke x (d_id device) (u_id (fst session)) ip) (\<lambda>_.
       device_envelope x (d_id device))))"

definition disconnect_any ::
  "'l externals \<Rightarrow> ('h, 'v) header_ops \<Rightarrow> 'h \<Rightarrow> string \<Rightarrow> string \<Rightarrow> 'l relay \<Rightarrow> (api_error + unit) \<times> 'l relay" where
  "disconnect_any x ops headers ip ident =
     bindE (admin_user x ops headers) (\<lambda>admin.
     bindE (require_device ident) (\<lambda>device.
     bindE (modify (\<lambda>s. case route (rl_registry s) (d_id device) of
         Some rt \<Rightarrow> disconnect_tunnel x (route_link rt) disconnected_reason s
       | None \<Rightarrow> s)) (\<lambda>_.
       audit x (audit_from_ip ip (audit_target ''device'' (d_id device)
         (by_user (u_id (fst admin)) ''device-disconnected''))))))"

end
