(* ===== verification/Api_Accounts.thy ===== *)
theory Api_Accounts
  imports Api
begin

text \<open>
  The handlers for accounts: signing in and out, changing a password (\<^verbatim>\<open>src/api/sessions.rs\<close>), the
  administration of users (\<^verbatim>\<open>src/api/users.rs\<close>), reading the audit trail and the settings, and the
  first administrator (\<^verbatim>\<open>src/bootstrap.rs\<close>).
\<close>

section \<open>Signing in\<close>

record login_request =
  lr_username :: string
  lr_password :: string

record password_change_request =
  pc_current_password :: string
  pc_new_password :: string

definition validated_password :: "string \<Rightarrow> api_error + string" where
  "validated_password password =
     (if chars_count password < min_password_length then Inl (bad_request (PasswordTooShort min_password_length))
      else Inr password)"

definition user_envelope :: "user_record \<Rightarrow> 'l relay \<Rightarrow> (api_error + user_view) \<times> 'l relay" where
  "user_envelope user =
     bindE (in_db (list_devices_owned_by (u_id user))) (\<lambda>devices.
     bindE build_context (\<lambda>_. okE (view_user user (live_device_count devices))))"

text \<open>A response with a cookie; a cookie that cannot be a header value is left out.\<close>

definition with_session_cookie :: "('h, 'v) header_ops \<Rightarrow> nat \<Rightarrow> string \<Rightarrow> 'b \<Rightarrow> nat \<times> 'v option \<times> 'b" where
  "with_session_cookie ops status cookie body = (status, v_from_str ops cookie, body)"

definition login_refused ::
  "'l externals \<Rightarrow> string \<Rightarrow> login_request \<Rightarrow> 'l relay \<Rightarrow> (api_error + 'a) \<times> 'l relay" where
  "login_refused x ip request =
     bindE (record_failure x ip) (\<lambda>_.
     bindE (audit x (audit_detail ''username'' (JStr (trim (lr_username request)))
         (audit_from_ip ip (audit_new ActorUser ''login-failed'')))) (\<lambda>_.
       errE (unauthorized InvalidLogin)))"

definition login ::
  "'l externals \<Rightarrow> ('h, 'v) header_ops \<Rightarrow> string \<Rightarrow> login_request \<Rightarrow> 'l relay
     \<Rightarrow> (api_error + nat \<times> 'v option \<times> user_view) \<times> 'l relay" where
  "login x ops ip request =
     bindE (refuse_locked x ip) (\<lambda>_.
     bindE (in_db (find_user_by_username (trim (lr_username request)))) (\<lambda>candidate.
       case candidate of
         Some user \<Rightarrow>
           if \<not> u_disabled user \<and> password_matches x (lr_password request) (u_password_hash user)
           then
             bindE (clear_failures x ip) (\<lambda>_.
             bindE (in_db (record_user_login (u_id user))) (\<lambda>_.
             bindE (in_db (create_session (x_hash_secret x) (u_id user) (Some ip))) (\<lambda>token.
             bindE (audit x (audit_from_ip ip (audit_target ''user'' (u_id user) (by_user (u_id user) ''login''))))
               (\<lambda>_.
             bindE (user_envelope user) (\<lambda>view.
               gets (\<lambda>s. with_session_cookie ops 200 (session_cookie token (is_public_secure s)) view))))))
           else login_refused x ip request
       | None \<Rightarrow> login_refused x ip request))"

definition logout ::
  "'l externals \<Rightarrow> ('h, 'v) header_ops \<Rightarrow> 'h \<Rightarrow> 'l relay
     \<Rightarrow> (api_error + nat \<times> 'v option \<times> unit) \<times> 'l relay" where
  "logout x ops headers =
     bindE (session_user x ops headers) (\<lambda>session.
     bindE (in_db (destroy_session (x_hash_secret x) (snd session))) (\<lambda>_.
       gets (\<lambda>s. with_session_cookie ops 204 (cleared_session_cookie (is_public_secure s)) ())))"

definition me ::
  "'l externals \<Rightarrow> ('h, 'v) header_ops \<Rightarrow> 'h \<Rightarrow> 'l relay \<Rightarrow> (api_error + user_view) \<times> 'l relay" where
  "me x ops headers = bindE (session_user x ops headers) (\<lambda>session. user_envelope (fst session))"

definition change_password ::
  "'l externals \<Rightarrow> ('h, 'v) header_ops \<Rightarrow> 'h \<Rightarrow> string \<Rightarrow> password_change_request \<Rightarrow> 'l relay
     \<Rightarrow> (api_error + nat \<times> 'v option \<times> unit) \<times> 'l relay" where
  "change_password x ops headers ip request =
     bindE (session_user x ops headers) (\<lambda>session.
     let user = fst session in
     bindE (ensure (password_matches x (pc_current_password request) (u_password_hash user))
         (unauthorized WrongCurrentPassword)) (\<lambda>_.
     bindE (check (validated_password (pc_new_password request))) (\<lambda>password.
     bindE (hash_password x password) (\<lambda>hash.
     bindE (in_db (update_user (u_id user) (no_user_update\<lparr>uu_password_hash := Some hash\<rparr>))) (\<lambda>_.
     bindE (in_db (delete_sessions_of_user (u_id user))) (\<lambda>_.
     bindE (in_db (create_session (x_hash_secret x) (u_id user) (Some ip))) (\<lambda>token.
     bindE (audit x (audit_detail ''change'' (JStr ''password'') (audit_from_ip ip
         (audit_target ''user'' (u_id user) (by_user (u_id user) ''user-updated''))))) (\<lambda>_.
       gets (\<lambda>s. with_session_cookie ops 204 (session_cookie token (is_public_secure s)) ())))))))))"

section \<open>Administration of accounts\<close>

record create_user_request =
  cu_username :: string
  cu_password :: string
  cu_role :: user_role

record update_user_request =
  ur_disabled :: "bool option"
  ur_role :: "user_role option"
  ur_password :: "string option"

definition max_username_length :: nat where
  "max_username_length = 64"

definition validated_username :: "string \<Rightarrow> api_error + string" where
  "validated_username username =
     (case require_text username ''username'' max_username_length of
        Inl e \<Rightarrow> Inl e
      | Inr name \<Rightarrow>
          if list_ex (\<lambda>w. sublist w name) whitespace then Inl (bad_request UsernameHasSpaces) else Inr name)"

definition require_user :: "string \<Rightarrow> 'l relay \<Rightarrow> (api_error + user_record) \<times> 'l relay" where
  "require_user ident = bindE (in_db (find_user ident)) (require_some (not_found UnknownUser))"

definition count_devices :: "string \<Rightarrow> 'l relay \<Rightarrow> (api_error + nat) \<times> 'l relay" where
  "count_devices user_id =
     bindE (in_db (list_devices_owned_by user_id)) (\<lambda>devices. okE (live_device_count devices))"

definition admin_user_envelope :: "user_record \<Rightarrow> 'l relay \<Rightarrow> (api_error + user_view) \<times> 'l relay" where
  "admin_user_envelope user =
     bindE build_context (\<lambda>_. bindE (count_devices (u_id user)) (\<lambda>n. okE (view_user user n)))"

definition revoke_devices_of ::
  "'l externals \<Rightarrow> user_record \<Rightarrow> string \<Rightarrow> string \<Rightarrow> 'l relay \<Rightarrow> (api_error + unit) \<times> 'l relay" where
  "revoke_devices_of x user actor_id ip =
     bindE (in_db (list_devices_owned_by (u_id user))) (\<lambda>devices.
       for_each (\<lambda>device. revoke x (d_id device) actor_id ip) devices)"

definition describe_changes :: "user_update \<Rightarrow> string" where
  "describe_changes u =
     join '','' ((if uu_disabled u \<noteq> None then [''disabled''] else [])
       @ (if uu_role u \<noteq> None then [''role''] else [])
       @ (if uu_password_hash u \<noteq> None then [''password''] else []))"

definition list_users_api ::
  "'l externals \<Rightarrow> ('h, 'v) header_ops \<Rightarrow> 'h \<Rightarrow> 'l relay \<Rightarrow> (api_error + user_view list) \<times> 'l relay" where
  "list_users_api x ops headers =
     bindE (admin_user x ops headers) (\<lambda>_.
     bindE (in_db list_users) (\<lambda>users.
     bindE build_context (\<lambda>_.
       traverse (\<lambda>user. bindE (count_devices (u_id user)) (\<lambda>n. okE (view_user user n))) users)))"

definition create_user_api ::
  "'l externals \<Rightarrow> ('h, 'v) header_ops \<Rightarrow> 'h \<Rightarrow> string \<Rightarrow> create_user_request \<Rightarrow> 'l relay
     \<Rightarrow> (api_error + user_view) \<times> 'l relay" where
  "create_user_api x ops headers ip request =
     bindE (admin_user x ops headers) (\<lambda>admin.
     bindE (check (validated_username (cu_username request))) (\<lambda>username.
     bindE (check (validated_password (cu_password request))) (\<lambda>password.
     bindE (hash_password x password) (\<lambda>hash.
     bindE (in_db (create_user username hash (cu_role request))) (\<lambda>user.
     bindE (audit x (audit_detail ''role'' (JStr (role_str (cu_role request)))
         (audit_detail ''username'' (JStr username) (audit_from_ip ip
           (audit_target ''user'' (u_id user) (by_user (u_id (fst admin)) ''user-created'')))))) (\<lambda>_.
       admin_user_envelope user))))))"

definition update_user_api ::
  "'l externals \<Rightarrow> ('h, 'v) header_ops \<Rightarrow> 'h \<Rightarrow> string \<Rightarrow> string \<Rightarrow> update_user_request \<Rightarrow> 'l relay
     \<Rightarrow> (api_error + user_view) \<times> 'l relay" where
  "update_user_api x ops headers ip ident request =
     bindE (admin_user x ops headers) (\<lambda>admin.
     bindE (require_user ident) (\<lambda>user.
     bindE (check_some (\<lambda>password.
         bindE (check (validated_password password)) (hash_password x)) (ur_password request)) (\<lambda>password_hash.
     let u = \<lparr>uu_disabled = ur_disabled request, uu_role = ur_role request, uu_password_hash = password_hash\<rparr> in
     bindE (ensure (\<not> user_update_is_empty u) (bad_request NothingToUpdate)) (\<lambda>_.
     bindE (in_db (update_user (u_id user) u)) (\<lambda>_.
     bindE (if uu_password_hash u \<noteq> None \<or> uu_disabled u = Some True
         then in_db (delete_sessions_of_user (u_id user)) else okE ()) (\<lambda>_.
     bindE (if uu_disabled u = Some True
         then revoke_devices_of x user (u_id (fst admin)) ip else okE ()) (\<lambda>_.
     bindE (audit x (audit_detail ''changed'' (JStr (describe_changes u)) (audit_from_ip ip
         (audit_target ''user'' (u_id user) (by_user (u_id (fst admin)) ''user-updated''))))) (\<lambda>_.
     bindE (require_user ident) (\<lambda>updated.
       admin_user_envelope updated)))))))))"

definition delete_user_api ::
  "'l externals \<Rightarrow> ('h, 'v) header_ops \<Rightarrow> 'h \<Rightarrow> string \<Rightarrow> string \<Rightarrow> 'l relay \<Rightarrow> (api_error + unit) \<times> 'l relay" where
  "delete_user_api x ops headers ip ident =
     bindE (admin_user x ops headers) (\<lambda>admin.
     bindE (ensure (ident \<noteq> u_id (fst admin)) (bad_request CannotDeleteSelf)) (\<lambda>_.
     bindE (require_user ident) (\<lambda>user.
     bindE (revoke_devices_of x user (u_id (fst admin)) ip) (\<lambda>_.
     bindE (in_db (disown_devices_of (u_id user))) (\<lambda>_.
     bindE (in_db (delete_sessions_of_user (u_id user))) (\<lambda>_.
     bindE (in_db (delete_user (u_id user))) (\<lambda>_.
       audit x (audit_detail ''username'' (JStr (u_username user)) (audit_from_ip ip
         (audit_target ''user'' (u_id user) (by_user (u_id (fst admin)) ''user-deleted'')))))))))))"

section \<open>Audit trail and settings\<close>

record audit_parameters =
  ap_limit :: "u32 option"
  ap_before :: "int option"
  ap_target_id :: "string option"

definition list_audit_api ::
  "'l externals \<Rightarrow> ('h, 'v) header_ops \<Rightarrow> 'h \<Rightarrow> audit_parameters \<Rightarrow> 'l relay
     \<Rightarrow> (api_error + audit_record list) \<times> 'l relay" where
  "list_audit_api x ops headers parameters =
     bindE (admin_user x ops headers) (\<lambda>_.
       in_db (list_audit
         \<lparr>aq_limit = min (case ap_limit parameters of Some l \<Rightarrow> l | None \<Rightarrow> 100) max_audit_page,
          aq_before_id = ap_before parameters, aq_target_id = non_blank (ap_target_id parameters)\<rparr>))"

definition settings_api ::
  "'l externals \<Rightarrow> ('h, 'v) header_ops \<Rightarrow> 'h \<Rightarrow> 'l relay \<Rightarrow> (api_error + string \<times> string) \<times> 'l relay" where
  "settings_api x ops headers =
     bindE (admin_user x ops headers) (\<lambda>_.
       gets (\<lambda>s. (rl_relay_id s, pu_origin (da_public_url (rl_addressing s)))))"

section \<open>The first administrator\<close>

text \<open>
  On the database alone: nothing else exists yet. The printed password is the result. A failure is
  a message, whose text is opaque; \<open>fill\<close> and \<open>hash\<close> are the random source and argon2.
\<close>

definition default_admin_username :: string where
  "default_admin_username = ''admin''"

definition ensure_admin_exists ::
  "'l externals \<Rightarrow> (nat \<Rightarrow> string + 8 word list) \<Rightarrow> (string \<Rightarrow> string + string) \<Rightarrow> database
     \<Rightarrow> (unit + string option) \<times> database" where
  "ensure_admin_exists x fill hash =
     bindE (map_err (\<lambda>_. ()) count_users) (\<lambda>count.
       if count > 0 then okE None
       else
         bindE (check (case generate_password fill of Inl _ \<Rightarrow> Inl () | Inr p \<Rightarrow> Inr p)) (\<lambda>password.
         bindE (check (case hash password of Inl _ \<Rightarrow> Inl () | Inr h \<Rightarrow> Inr h)) (\<lambda>password_hash.
         bindE (map_err (\<lambda>_. ()) (create_user default_admin_username password_hash Admin)) (\<lambda>user db.
           (Inr (Some password), audit_write x (audit_detail ''username'' (JStr default_admin_username)
              (audit_target ''user'' (u_id user) (by_system ''bootstrap-admin''))) db)))))"

definition reset_password ::
  "'l externals \<Rightarrow> (nat \<Rightarrow> string + 8 word list) \<Rightarrow> (string \<Rightarrow> string + string) \<Rightarrow> string \<Rightarrow> database
     \<Rightarrow> (unit + string \<times> string) \<times> database" where
  "reset_password x fill hash username =
     bindE (map_err (\<lambda>_. ()) (find_user_by_username username)) (\<lambda>found.
     bindE (check (case found of None \<Rightarrow> Inl () | Some u \<Rightarrow> Inr u)) (\<lambda>user.
     bindE (check (case generate_password fill of Inl _ \<Rightarrow> Inl () | Inr p \<Rightarrow> Inr p)) (\<lambda>password.
     bindE (check (case hash password of Inl _ \<Rightarrow> Inl () | Inr h \<Rightarrow> Inr h)) (\<lambda>password_hash.
     bindE (map_err (\<lambda>_. ()) (update_user (u_id user) (no_user_update\<lparr>uu_password_hash := Some password_hash\<rparr>)))
       (\<lambda>_ db.
         let db1 = snd (delete_sessions_of_user (u_id user) db)
         in (Inr (u_username user, password), audit_write x (audit_detail ''change'' (JStr ''password-reset'')
              (audit_target ''user'' (u_id user) (by_system ''user-updated''))) db1))))))"

end
