(* ===== verification/Api_Laws.thy ===== *)
theory Api_Laws
  imports Api_Accounts
begin

text \<open>
  What holds of every handler, and of the handlers that decide access. The laws of the store are an
  interface, \<open>store_relation\<close>: a relation that every writing method of the database obeys. A handler
  obeys it lifted to the shared state (\<open>handler_relation\<close>), proved once for all of them.
\<close>

section \<open>Interfaces\<close>

context step_relation
begin

lemma obeys_if: "obeys m \<Longrightarrow> obeys n \<Longrightarrow> obeys (if b then m else n)"
  by simp

lemma obeys_option: "obeys m \<Longrightarrow> (\<And>a. obeys (f a)) \<Longrightarrow> obeys (case v of None \<Rightarrow> m | Some a \<Rightarrow> f a)"
  by (cases v) simp_all

lemma obeys_sum: "(\<And>a. obeys (f a)) \<Longrightarrow> (\<And>b. obeys (g b)) \<Longrightarrow> obeys (case v of Inl a \<Rightarrow> f a | Inr b \<Rightarrow> g b)"
  by (cases v) simp_all

lemma obeys_pair: "(\<And>a b. obeys (f a b)) \<Longrightarrow> obeys (case p of (a, b) \<Rightarrow> f a b)"
  by (cases p) simp

lemma obeys_pure: "obeys (check r)" "obeys (require_some e v)" "obeys (ensure b e)"
  by (simp_all add: obeys_def check_def require_some_def ensure_def okE_def errE_def R_refl split: option.split)

lemma obeys_check_some: "(\<And>a. obeys (f a)) \<Longrightarrow> obeys (check_some f v)"
  unfolding check_some_def by (intro obeys_option obeys_intros)

lemma obeys_traverse: "(\<And>a. obeys (f a)) \<Longrightarrow> obeys (traverse f as)"
  by (induction as) (simp_all add: obeys_ok obeys_bind)

lemmas obeys_control = obeys_if obeys_option obeys_sum obeys_pair obeys_pure obeys_check_some obeys_traverse

end

text \<open>What a request that only reads still writes: a session is renewed or dropped, and the trail grows.\<close>

locale session_relation = db_relation R for R :: "database \<Rightarrow> database \<Rightarrow> bool" +
  assumes obeys_resolve: "obeys (resolve_session hash_secret token now)"
    and obeys_trail: "obeys (write_audit a)"
begin

lemma R_audit: "R db (audit_write x e db)"
proof -
  have "R db1 (snd (write_audit a db1))" for a db1 using obeys_trail by (simp add: obeys_def)
  then show ?thesis unfolding audit_write_def now_millis_def Let_def prod.case by (rule R_trans [OF R_env(2)])
qed

end

locale store_relation = db_relation R for R :: "database \<Rightarrow> database \<Rightarrow> bool" +
  assumes R_exec: "leaves_identity op \<Longrightarrow> R db (exec_db op db)"
begin

lemma obeys_methods:
  "k \<noteq> setting_relay_id \<Longrightarrow> obeys (write_setting k v)" "k \<noteq> setting_relay_id \<Longrightarrow> obeys (delete_setting k)"
  "obeys (create_user n h role)" "obeys (update_user i u)" "obeys (record_user_login i)" "obeys (delete_user i)"
  "obeys (create_device nd)" "obeys (update_device i du)" "obeys (revoke_device i)" "obeys (disown_devices_of i)"
  "obeys (record_device_connection i ip ver)" "obeys (record_device_disconnection i)"
  "obeys (create_enrollment ne)" "obeys (mark_enrollment_used i d)" "obeys (cancel_enrollment i)"
  "obeys (insert_session s)" "obeys (extend_session i e)" "obeys (delete_session i)"
  "obeys (delete_sessions_of_user i)" "obeys (write_audit a)"
  using R_exec [of "OpWriteSetting k v"] R_exec [of "OpDeleteSetting k"] R_exec [of "OpCreateUser n h role"]
    R_exec [of "OpUpdateUser i u"] R_exec [of "OpUserLogin i"] R_exec [of "OpDeleteUser i"]
    R_exec [of "OpCreateDevice nd"] R_exec [of "OpUpdateDevice i du"] R_exec [of "OpRevokeDevice i"]
    R_exec [of "OpDisown i"] R_exec [of "OpDeviceConnected i ip ver"] R_exec [of "OpDeviceDisconnected i"]
    R_exec [of "OpCreateEnrollment ne"] R_exec [of "OpMarkUsed i d"] R_exec [of "OpCancel i"]
    R_exec [of "OpCreateSession s"] R_exec [of "OpExtendSession i e"] R_exec [of "OpDeleteSession i"]
    R_exec [of "OpDeleteSessionsOf i"] R_exec [of "OpAudit a"]
  by (simp_all add: obeys_def)

lemma obeys_sessions:
  "obeys (create_session hash_secret i ip)" "obeys (resolve_session hash_secret token now)"
  "obeys (destroy_session hash_secret token)"
proof -
  have "obeys (random_base64url n)" for n using R_env(3) by (simp add: obeys_def random_base64url_def)
  then show "obeys (create_session hash_secret i ip)"
    unfolding create_session_def by (intro obeys_db_intros obeys_methods)
  show "obeys (resolve_session hash_secret token now)"
    unfolding resolve_session_def Let_def
    by (intro obeys_control obeys_db_intros obeys_methods)
  show "obeys (destroy_session hash_secret token)" unfolding destroy_session_def by (rule obeys_methods)
qed

end

sublocale store_relation \<subseteq> session_relation
  by unfold_locales (rule obeys_sessions obeys_methods)+

text \<open>A request that reads: it looks up the store, renews sessions, counts failures and writes to the trail.\<close>

locale reader_relation = step_relation S + store: session_relation R
  for S :: "'l relay \<Rightarrow> 'l relay \<Rightarrow> bool" and R +
  assumes S_db: "R (rl_db s) db' \<Longrightarrow> S s (s\<lparr>rl_db := db'\<rparr>)"
    and S_lockout: "S s (s\<lparr>rl_lockout := l\<rparr>)"
begin

lemma obeys_lift_db: "store.obeys m \<Longrightarrow> obeys (lift_db m)"
  using S_db by (auto simp: obeys_def store.obeys_def lift_db_def split: prod.splits) (metis snd_conv)

lemma obeys_in_db: "store.obeys m \<Longrightarrow> obeys (in_db m)"
  unfolding in_db_def by (intro obeys_map_err obeys_lift_db)

lemma obeys_env: "obeys clock" "obeys (drawn f e)" "obeys (gets g)"
  using S_db [OF store.R_env(2)] S_db [OF store.R_env(3)]
  by (simp_all add: obeys_def clock_def drawn_def gets_def draw_def now_millis_def R_refl)

lemma obeys_audit: "obeys (audit x e)"
  by (simp add: obeys_def audit_def modify_def S_db [OF store.R_audit])

lemma obeys_modify: "(\<And>s. S s (f s)) \<Longrightarrow> obeys (modify f)"
  by (simp add: obeys_def modify_def)

lemma obeys_lockout: "obeys (record_failure x ip)" "obeys (clear_failures x ip)" "obeys (refuse_locked x ip)"
proof -
  show "obeys (record_failure x ip)" "obeys (clear_failures x ip)"
    unfolding record_failure_def clear_failures_def by (intro obeys_modify S_lockout)+
  show "obeys (refuse_locked x ip)"
    unfolding refuse_locked_def by (intro obeys_intros obeys_env obeys_pure)
qed

lemmas obeys_reader_intros = obeys_control obeys_intros obeys_env obeys_in_db obeys_audit obeys_lockout
  store.obeys_reads store.obeys_resolve

lemma obeys_session: "obeys (first_session x now tokens)" "obeys (session_user x ops headers)"
  "obeys (admin_user x ops headers)"
proof -
  show first: "obeys (first_session x now tokens)" for now tokens
    by (induction tokens) (auto intro!: obeys_reader_intros)
  then show user: "obeys (session_user x ops headers)"
    unfolding session_user_def by (intro obeys_reader_intros)
  show "obeys (admin_user x ops headers)"
    unfolding admin_user_def by (intro obeys_reader_intros user)
qed

lemma obeys_build_context: "obeys build_context"
  unfolding build_context_def by (intro obeys_reader_intros)

lemma obeys_lookups:
  "obeys (require_device i)" "obeys (find_own_device user i)" "obeys (device_envelope x i)"
  "obeys (require_user i)" "obeys (count_devices i)" "obeys (admin_user_envelope user)"
  "obeys (user_envelope user)" "obeys (normalized_owner owner)" "obeys (view_enrollment_now vc r)"
  "obeys (hash_password x p)"
proof -
  show req: "obeys (require_device i)" unfolding require_device_def by (intro obeys_reader_intros)
  then show "obeys (find_own_device user i)" unfolding find_own_device_def by (intro obeys_reader_intros)
  from req show "obeys (device_envelope x i)"
    unfolding device_envelope_def by (intro obeys_reader_intros obeys_build_context)
  show "obeys (require_user i)" unfolding require_user_def by (intro obeys_reader_intros)
  show count: "obeys (count_devices i)" for i unfolding count_devices_def by (intro obeys_reader_intros)
  show "obeys (admin_user_envelope user)"
    unfolding admin_user_envelope_def by (intro obeys_reader_intros obeys_build_context count)
  show "obeys (user_envelope user)"
    unfolding user_envelope_def by (intro obeys_reader_intros obeys_build_context)
  show "obeys (normalized_owner owner)" unfolding normalized_owner_def by (intro obeys_reader_intros)
  show "obeys (view_enrollment_now vc r)" unfolding view_enrollment_now_def by (intro obeys_reader_intros)
  show "obeys (hash_password x p)" unfolding hash_password_def by (intro obeys_reader_intros)
qed

lemma obeys_queries:
  "obeys (me x ops headers)" "obeys (list_own_devices x ops headers)" "obeys (list_all_devices x ops headers)"
  "obeys (list_enrollments_api x ops headers)" "obeys (list_users_api x ops headers)"
  "obeys (list_audit_api x ops headers ap)" "obeys (settings_api x ops headers)"
  unfolding me_def list_own_devices_def list_all_devices_def list_enrollments_api_def list_users_api_def
    list_audit_api_def settings_api_def
  by (intro obeys_reader_intros obeys_session obeys_build_context obeys_lookups)+

end

text \<open>A handler changes the store through its methods and queues frames as well.\<close>

locale handler_relation = reader_relation S R + store: store_relation R
  for S :: "'l relay \<Rightarrow> 'l relay \<Rightarrow> bool" and R +
  assumes S_send: "S s (try_send h m s)"
begin

lemma S_tunnel: "S s (revoke_tunnel x h reason s)" "S s (disconnect_tunnel x h reason s)"
proof -
  show "S s (disconnect_tunnel x h reason s)" by (simp add: disconnect_tunnel_def close_tunnel_def S_send)
  show "S s (revoke_tunnel x h reason s)"
    unfolding revoke_tunnel_def close_tunnel_def send_frame_def by (rule R_trans [OF S_send S_send])
qed

lemmas obeys_handler_intros = obeys_reader_intros store.obeys_methods store.obeys_sessions

lemma obeys_route: "obeys (modify (\<lambda>s. case route (rl_registry s) i of
    Some rt \<Rightarrow> revoke_tunnel x (route_link rt) reason s | None \<Rightarrow> s))"
  "obeys (modify (\<lambda>s. case route (rl_registry s) i of
    Some rt \<Rightarrow> disconnect_tunnel x (route_link rt) reason s | None \<Rightarrow> s))"
  by (rule obeys_modify; simp add: S_tunnel R_refl split: option.split)+

lemma obeys_revoke: "obeys (revoke x i actor ip)"
  unfolding revoke_def by (intro obeys_handler_intros obeys_route)

lemma obeys_shared:
  "obeys (issue_device x kind owner name)" "obeys (claim_code x code name)" "obeys (burn_code x i c)"
  "obeys (enroll_with_code x code name)" "obeys (enroll_with_password x un p name)"
  "obeys (record_update x device u actor ip)" "obeys (revoke_devices_of x user actor ip)"
proof -
  show issue: "obeys (issue_device x kind owner name)" for kind owner name
    unfolding issue_device_def by (intro obeys_handler_intros)
  show claim: "obeys (claim_code x code name)" unfolding claim_code_def by (intro obeys_handler_intros issue)
  show burn: "obeys (burn_code x i c)" for i c unfolding burn_code_def by (intro obeys_handler_intros)
  show "obeys (enroll_with_code x code name)"
    unfolding enroll_with_code_def by (intro obeys_handler_intros claim burn)
  show "obeys (enroll_with_password x un p name)"
    unfolding enroll_with_password_def by (intro obeys_handler_intros issue)
  show "obeys (record_update x device u actor ip)" unfolding record_update_def by (intro obeys_handler_intros)
  show "obeys (revoke_devices_of x user actor ip)"
    unfolding revoke_devices_of_def by (intro obeys_handler_intros obeys_revoke)
qed

lemmas obeys_all = obeys_handler_intros obeys_session obeys_build_context obeys_lookups obeys_route obeys_revoke obeys_shared

lemma obeys_outcome:
  assumes "obeys m" "\<And>a. obeys (f a)" "\<And>e. obeys (g e)"
  shows "obeys (\<lambda>s. let (r, s1) = m s in case r of Inr a \<Rightarrow> f a s1 | Inl e \<Rightarrow> g e s1)"
  unfolding obeys_def
proof
  fix s
  obtain r s1 where m: "m s = (r, s1)" by fastforce
  have "S s s1" using assms(1) m by (rule obeysD)
  with m assms(2,3) show "S s (snd (let (r, s1) = m s in case r of Inr a \<Rightarrow> f a s1 | Inl e \<Rightarrow> g e s1))"
    by (auto simp: obeys_def split: sum.split intro: R_trans)
qed

lemma obeys_enroll: "obeys (enroll x ip request)"
  unfolding enroll_def
  by (intro obeys_handler_intros obeys_outcome; (cases request; simp)?) (intro obeys_all)+

lemma obeys_device_handlers:
  "obeys (apply_update x device ur actor ip)" "obeys (update_any x ops headers ip i ur)"
  "obeys (update_own x ops headers ip i ur)" "obeys (revoke_any x ops headers ip i)"
  "obeys (revoke_own x ops headers ip i)" "obeys (disconnect_any x ops headers ip i)"
proof -
  show upd: "obeys (apply_update x device ur actor ip)" for device ur actor
    unfolding apply_update_def Let_def by (intro obeys_all)
  show "obeys (update_any x ops headers ip i ur)" "obeys (update_own x ops headers ip i ur)"
    unfolding update_any_def update_own_def by (intro obeys_all upd)+
qed (unfold revoke_any_def revoke_own_def disconnect_any_def,
    (intro obeys_all)+)

lemma obeys_enrollment_handlers:
  "obeys (create_enrollment_api x ops headers ip cr)" "obeys (cancel_enrollment_api x ops headers ip i)"
  unfolding create_enrollment_api_def cancel_enrollment_api_def Let_def
  by (intro obeys_all)+

lemma obeys_account_handlers:
  "obeys (login x ops ip lr)" "obeys (logout x ops headers)" "obeys (change_password x ops headers ip pr)"
  "obeys (create_user_api x ops headers ip cu)" "obeys (update_user_api x ops headers ip i uu)"
  "obeys (delete_user_api x ops headers ip i)"
  unfolding login_def login_refused_def logout_def change_password_def create_user_api_def update_user_api_def
    delete_user_api_def Let_def
  by (intro obeys_all)+

end

section \<open>Every request\<close>

text \<open>A request whose later extractors fail has still run its guard: \<open>CallSession\<close> and \<open>CallAdmin\<close>.\<close>

datatype 'h api_call =
    CallSession 'h
  | CallAdmin 'h
  | CallEnroll string enroll_request
  | CallLogin string login_request
  | CallLogout 'h
  | CallMe 'h
  | CallChangePassword 'h string password_change_request
  | CallListDevices 'h
  | CallListOwnDevices 'h
  | CallUpdateAny 'h string string device_update_request
  | CallUpdateOwn 'h string string device_update_request
  | CallRevokeAny 'h string string
  | CallRevokeOwn 'h string string
  | CallDisconnect 'h string string
  | CallListEnrollments 'h
  | CallCreateEnrollment 'h string create_enrollment_request
  | CallCancelEnrollment 'h string string
  | CallListUsers 'h
  | CallCreateUser 'h string create_user_request
  | CallUpdateUser 'h string string update_user_request
  | CallDeleteUser 'h string string
  | CallListAudit 'h audit_parameters
  | CallSettings 'h

fun exec_api :: "'l externals \<Rightarrow> ('h, 'v) header_ops \<Rightarrow> 'h api_call \<Rightarrow> 'l relay \<Rightarrow> 'l relay" where
  "exec_api x ops (CallSession h) s = snd (session_user x ops h s)"
| "exec_api x ops (CallAdmin h) s = snd (admin_user x ops h s)"
| "exec_api x ops (CallEnroll ip r) s = snd (enroll x ip r s)"
| "exec_api x ops (CallLogin ip r) s = snd (login x ops ip r s)"
| "exec_api x ops (CallLogout h) s = snd (logout x ops h s)"
| "exec_api x ops (CallMe h) s = snd (me x ops h s)"
| "exec_api x ops (CallChangePassword h ip r) s = snd (change_password x ops h ip r s)"
| "exec_api x ops (CallListDevices h) s = snd (list_all_devices x ops h s)"
| "exec_api x ops (CallListOwnDevices h) s = snd (list_own_devices x ops h s)"
| "exec_api x ops (CallUpdateAny h ip i r) s = snd (update_any x ops h ip i r s)"
| "exec_api x ops (CallUpdateOwn h ip i r) s = snd (update_own x ops h ip i r s)"
| "exec_api x ops (CallRevokeAny h ip i) s = snd (revoke_any x ops h ip i s)"
| "exec_api x ops (CallRevokeOwn h ip i) s = snd (revoke_own x ops h ip i s)"
| "exec_api x ops (CallDisconnect h ip i) s = snd (disconnect_any x ops h ip i s)"
| "exec_api x ops (CallListEnrollments h) s = snd (list_enrollments_api x ops h s)"
| "exec_api x ops (CallCreateEnrollment h ip r) s = snd (create_enrollment_api x ops h ip r s)"
| "exec_api x ops (CallCancelEnrollment h ip i) s = snd (cancel_enrollment_api x ops h ip i s)"
| "exec_api x ops (CallListUsers h) s = snd (list_users_api x ops h s)"
| "exec_api x ops (CallCreateUser h ip r) s = snd (create_user_api x ops h ip r s)"
| "exec_api x ops (CallUpdateUser h ip i r) s = snd (update_user_api x ops h ip i r s)"
| "exec_api x ops (CallDeleteUser h ip i) s = snd (delete_user_api x ops h ip i s)"
| "exec_api x ops (CallListAudit h p) s = snd (list_audit_api x ops h p s)"
| "exec_api x ops (CallSettings h) s = snd (settings_api x ops h s)"

text \<open>What a request may do: it keeps the invariant, the history and the identity in the store and leaves the routing
  table and the configuration alone, and what it queues for the tunnels comes after what was queued before.\<close>

definition store_kept :: "database \<Rightarrow> database \<Rightarrow> bool" where
  "store_kept db db' \<longleftrightarrow> keeps_inv db db' \<and> history db db' \<and> identity_kept db db'"

definition api_effect :: "'l relay \<Rightarrow> 'l relay \<Rightarrow> bool" where
  "api_effect s s' \<longleftrightarrow> store_kept (rl_db s) (rl_db s') \<and> rl_registry s' = rl_registry s \<and>
     rl_reach s' = rl_reach s \<and> rl_relay_id s' = rl_relay_id s \<and> rl_addressing s' = rl_addressing s \<and>
     rl_tls_enabled s' = rl_tls_enabled s \<and> prefix (rl_outbox s) (rl_outbox s')"

interpretation kept: store_relation store_kept
  by unfold_locales
     (auto simp: store_kept_def exec_db_inv exec_db_hist exec_db_ident inv.R_refl hist.R_refl ident.R_refl
       inv.R_env hist.R_env ident.R_env intro: inv.R_trans hist.R_trans ident.R_trans)

interpretation handlers: handler_relation api_effect store_kept
  by unfold_locales (auto simp: api_effect_def kept.R_refl try_send_def intro: kept.R_trans prefix_order.trans)

lemma exec_api_effect: "api_effect s (exec_api x ops call s)"
  by (cases call)
     (simp_all add: handlers.obeys_enroll handlers.obeys_device_handlers handlers.obeys_enrollment_handlers
       handlers.obeys_account_handlers handlers.obeys_session handlers.obeys_queries handlers.obeys_def [THEN iffD1, rule_format])

lemma exec_apis_effect: "api_effect s (fold (exec_api x ops) calls s)"
  using exec_api_effect by (rule handlers.obeys_fold)

section \<open>Redeeming a code\<close>

lemma in_db_eq: "in_db m s = (r, s') \<longleftrightarrow>
    (\<exists>r' db'. m (rl_db s) = (r', db') \<and> s' = s\<lparr>rl_db := db'\<rparr> \<and> r = map_sum api_error_of_db (\<lambda>a. a) r')"
  by (auto simp: in_db_def map_err_def lift_db_def split: prod.splits sum.splits)

lemma in_db_Inr: "in_db m s = (Inr a, s') \<longleftrightarrow> (\<exists>db'. m (rl_db s) = (Inr a, db') \<and> s' = s\<lparr>rl_db := db'\<rparr>)"
  by (auto simp: in_db_def map_err_def lift_db_def split: prod.splits sum.splits)

lemma burn_code_Inr:
  assumes "burn_code x c cred s = (Inr resp, s')"
  shows "mark_enrollment_used c (fst cred) (rl_db s) = (Inr True, rl_db s')" "rl_outbox s' = rl_outbox s"
  using assms by (auto simp: burn_code_def bindE_Inr in_db_Inr gets_def errE_def split: if_splits)

lemma revoke_device_Inr:
  assumes "revoke_device i db = (Inr b, db')"
  obtains now where "d_devices db' = update_where (\<lambda>r. dw_id r = i \<and> dw_revoked_at r = None)
      (\<lambda>r. r\<lparr>dw_revoked_at := Some now\<rparr>) (d_devices db)"
    "d_users db' = d_users db" "d_sessions db' = d_sessions db"
  using assms by (auto simp: revoke_device_def with_now_def now_millis_def update_devices_def statement_cases
      split: if_splits)

lemma revoked_rows:
  assumes "revoke_device i db = (Inr b, db')" "d \<in> set (d_devices db')" "dw_id d = i"
  shows "dw_revoked_at d \<noteq> None"
proof (rule revoke_device_Inr [OF assms(1)])
  fix now
  assume "d_devices db' = update_where (\<lambda>r. dw_id r = i \<and> dw_revoked_at r = None)
      (\<lambda>r. r\<lparr>dw_revoked_at := Some now\<rparr>) (d_devices db)"
  with assms(2) obtain r where "d = (if dw_id r = i \<and> dw_revoked_at r = None then r\<lparr>dw_revoked_at := Some now\<rparr> else r)"
    by (auto simp only: set_update_where)
  with assms(3) show "dw_revoked_at d \<noteq> None" by (simp split: if_splits)
qed

lemma burn_code_lost:
  assumes "fst (mark_enrollment_used c (fst cred) (rl_db s)) \<noteq> Inr True" "\<forall>n. \<not> d_fail (rl_db s) n"
    and burn: "burn_code x c cred s = (r, s')"
  shows "r = Inl (unauthorized InvalidCode)" "\<forall>d \<in> set (d_devices (rl_db s')). dw_id d = fst cred \<longrightarrow> dw_revoked_at d \<noteq> None"
    "map dw_id (d_devices (rl_db s')) = map dw_id (d_devices (rl_db s))"
proof -
  obtain db1 where m: "mark_enrollment_used c (fst cred) (rl_db s) = (Inr False, db1)"
    and f1: "d_fail db1 = d_fail (rl_db s)"
    using assms(1,2) by (auto simp: mark_enrollment_used_def with_now_def now_millis_def update_enrollments_def
        statement_cases Let_def)
  obtain b db2 where v: "revoke_device (fst cred) db1 = (Inr b, db2)"
    using assms(2) by (auto simp: revoke_device_def with_now_def now_millis_def update_devices_def statement_cases f1)
  from burn m v have r: "r = Inl (unauthorized InvalidCode)" "s' = s\<lparr>rl_db := db2\<rparr>"
    by (simp_all add: burn_code_def bindE_def in_db_def map_err_def lift_db_def errE_def)
  then show "r = Inl (unauthorized InvalidCode)" by simp
  show "\<forall>d \<in> set (d_devices (rl_db s')). dw_id d = fst cred \<longrightarrow> dw_revoked_at d \<noteq> None"
    using r(2) revoked_rows [OF v] by simp
  have "d_devices db1 = d_devices (rl_db s)"
    using m by (auto simp: mark_enrollment_used_def with_now_def now_millis_def update_enrollments_def
        statement_cases Let_def split: if_splits)
  moreover have "map dw_id (d_devices db2) = map dw_id (d_devices db1)"
    by (rule revoke_device_Inr [OF v]) (auto simp: update_where_def)
  ultimately show "map dw_id (d_devices (rl_db s')) = map dw_id (d_devices (rl_db s))" by (simp add: r(2))
qed

lemma open_code:
  assumes "e \<in> set (d_enrollments db)" "ew_id e = c" "ew_used_at e = None" "ew_cancelled_at e = None" "\<forall>n. \<not> d_fail db n"
  shows "\<exists>db'. mark_enrollment_used c i db = (Inr True, db') \<and> d_devices db' = d_devices db"
proof -
  have "list_ex (\<lambda>r. ew_id r = c \<and> ew_used_at r = None \<and> ew_cancelled_at r = None) (d_enrollments db)"
    using assms(1-4) by (auto simp: list_ex_iff)
  then show ?thesis
    using assms(5) by (simp add: mark_enrollment_used_def with_now_def now_millis_def update_enrollments_def statement_cases Let_def)
qed

lemma first_burn:
  assumes "e \<in> set (d_enrollments (rl_db s))" "ew_id e = c" "ew_used_at e = None" "ew_cancelled_at e = None"
    and "\<forall>n. \<not> d_fail (rl_db s) n"
  shows "\<exists>s1. burn_code x c winner s = (Inr (response_for x winner s), s1) \<and> d_devices (rl_db s1) = d_devices (rl_db s)"
proof -
  from open_code [OF assms, of "fst winner"] obtain db' where
    "mark_enrollment_used c (fst winner) (rl_db s) = (Inr True, db')" "d_devices db' = d_devices (rl_db s)" by blast
  then show ?thesis
    by (simp add: burn_code_def bindE_def in_db_def map_err_def lift_db_def gets_def response_for_def)
qed

section \<open>Ending access\<close>

text \<open>Reading changes no table.\<close>

definition same_tables :: "database \<Rightarrow> database \<Rightarrow> bool" where
  "same_tables db db' \<longleftrightarrow> d_users db' = d_users db \<and> d_sessions db' = d_sessions db \<and> d_devices db' = d_devices db"

interpretation same: db_relation same_tables
  by unfold_locales (auto simp: same_tables_def)

text \<open>Revoking and recording: accounts, sessions and the routing table stay, a device row keeps its id and
  its owner and is never restored, and frames are only added.\<close>

definition row_kept :: "device_row \<Rightarrow> device_row \<Rightarrow> bool" where
  "row_kept d d' \<longleftrightarrow> dw_id d' = dw_id d \<and> dw_owner_user_id d' = dw_owner_user_id d \<and>
     (dw_revoked_at d \<noteq> None \<longrightarrow> dw_revoked_at d' \<noteq> None)"

definition revoking :: "'l relay \<Rightarrow> 'l relay \<Rightarrow> bool" where
  "revoking s s' \<longleftrightarrow> d_users (rl_db s') = d_users (rl_db s) \<and> d_sessions (rl_db s') = d_sessions (rl_db s) \<and>
     rl_registry s' = rl_registry s \<and> list_all2 row_kept (d_devices (rl_db s)) (d_devices (rl_db s')) \<and>
     prefix (rl_outbox s) (rl_outbox s')"

lemma row_kept_order: "row_kept d d" "row_kept d d1 \<Longrightarrow> row_kept d1 d2 \<Longrightarrow> row_kept d d2"
  by (auto simp: row_kept_def)

interpretation rv: step_relation revoking
proof
  show "revoking s s" for s :: "'a relay" by (simp add: revoking_def list.rel_refl row_kept_order)
  show "revoking s t \<Longrightarrow> revoking t u \<Longrightarrow> revoking s u" for s t u :: "'a relay"
    unfolding revoking_def using list_all2_trans [of row_kept row_kept row_kept] row_kept_order(2)
    by (metis prefix_order.trans)
qed

lemma list_all2_refl_rows: "list_all2 row_kept ds ds"
  by (simp add: list.rel_refl row_kept_order)

lemma list_all2_row: "list_all2 P xs ys \<Longrightarrow> y \<in> set ys \<Longrightarrow> \<exists>x \<in> set xs. P x y"
  by (induction rule: list_all2_induct) auto

lemma rv_reads:
  assumes "same.obeys m"
  shows "rv.obeys (in_db m :: 'l relay \<Rightarrow> (api_error + 'a) \<times> 'l relay)"
  unfolding rv.obeys_def
proof
  fix s :: "'l relay"
  obtain r db' where m: "m (rl_db s) = (r, db')" by fastforce
  with assms have "same_tables (rl_db s) db'" by (rule same.obeysD)
  with m show "revoking s (snd (in_db m s))"
    by (simp add: in_db_def map_err_def lift_db_def revoking_def same_tables_def list_all2_refl_rows split: sum.split)
qed

lemma same_audit: "same_tables db (audit_write x e db)"
  by (simp add: audit_write_def now_millis_def write_audit_def statement_cases same_tables_def)

lemma rv_audit: "rv.obeys (audit x e)"
  using same_audit by (auto simp: rv.obeys_def audit_def modify_def revoking_def same_tables_def list_all2_refl_rows)

lemma rv_build_context: "rv.obeys build_context"
  unfolding build_context_def
  by (intro rv.obeys_intros rv_reads same.obeys_reads) (simp add: rv.obeys_def gets_def rv.R_refl)

lemma rv_revoke_device: "rv.obeys (in_db (revoke_device i))"
proof -
  have "list_all2 row_kept ds (update_where (\<lambda>r. dw_id r = i \<and> dw_revoked_at r = None)
      (\<lambda>r. r\<lparr>dw_revoked_at := Some now\<rparr>) ds)" for ds now
    by (induction ds) (simp_all add: update_where_def row_kept_def)
  then show ?thesis
    by (simp add: rv.obeys_def in_db_def map_err_def lift_db_def revoke_device_def with_now_def now_millis_def
        update_devices_def statement_cases revoking_def list_all2_refl_rows)
qed

lemma rv_revoke: "rv.obeys (revoke x i actor ip)"
proof -
  have "revoking s (revoke_tunnel x h reason s)" for s h reason
    by (simp add: revoking_def revoke_tunnel_def close_tunnel_def send_frame_def try_send_def list_all2_refl_rows)
  then have "rv.obeys (modify (\<lambda>s. case route (rl_registry s) i of
      Some rt \<Rightarrow> revoke_tunnel x (route_link rt) reason s | None \<Rightarrow> s))" for reason
    by (simp add: rv.obeys_def modify_def rv.R_refl split: option.split)
  then show ?thesis
    unfolding revoke_def by (intro rv.obeys_intros rv.obeys_control rv_revoke_device rv_audit)
qed

text \<open>What revoking a device leaves: its row is revoked, and whatever tunnel it is reached through, its own or that of a
  downstream relay, has been sent the revocation and the close, unless the queue of that tunnel is full.\<close>

definition told_to_close :: "'l externals \<Rightarrow> 'l relay \<Rightarrow> tunnel_handle \<Rightarrow> bool" where
  "told_to_close x s h \<longleftrightarrow> (length (pending h s) < command_capacity \<longrightarrow>
     {(h, Control (Revoked revoked_reason)), (h, Close (x_close_revoked x) revoked_reason)} \<subseteq> set (rl_outbox s))"

definition revoked_told :: "'l externals \<Rightarrow> 'l relay \<Rightarrow> string \<Rightarrow> bool" where
  "revoked_told x s i \<longleftrightarrow> (\<forall>d \<in> set (d_devices (rl_db s)). dw_id d = i \<longrightarrow> dw_revoked_at d \<noteq> None) \<and>
     (\<forall>rt. route (rl_registry s) i = Some rt \<longrightarrow> told_to_close x s (route_link rt))"

lemma told_to_close_mono: "prefix (rl_outbox s) (rl_outbox s') \<Longrightarrow> told_to_close x s h \<Longrightarrow> told_to_close x s' h"
  by (auto simp: told_to_close_def pending_def prefix_def)

lemma revoke_tunnel_tells: "told_to_close x (revoke_tunnel x h revoked_reason s) h"
  by (auto simp: told_to_close_def revoke_tunnel_def close_tunnel_def send_frame_def try_send_def pending_def)

lemma revoked_told_mono:
  assumes "revoking s s'" "revoked_told x s i"
  shows "revoked_told x s' i"
proof -
  have "dw_revoked_at d \<noteq> None" if d: "d \<in> set (d_devices (rl_db s'))" "dw_id d = i" for d
  proof -
    from assms(1) d(1) obtain r where "r \<in> set (d_devices (rl_db s))" "row_kept r d"
      unfolding revoking_def by (meson list_all2_row)
    with assms(2) d(2) show ?thesis by (auto simp: revoked_told_def row_kept_def)
  qed
  moreover have "prefix (rl_outbox s) (rl_outbox s')" "rl_registry s' = rl_registry s"
    using assms(1) by (auto simp: revoking_def)
  ultimately show ?thesis using assms(2) told_to_close_mono by (auto simp: revoked_told_def)
qed

lemma revoke_tells:
  assumes "revoke x i actor ip s = (Inr u, s')"
  shows "revoked_told x s' i"
proof -
  define cut where "cut s = (case route (rl_registry s) i of
      Some rt \<Rightarrow> revoke_tunnel x (route_link rt) revoked_reason s | None \<Rightarrow> s)" for s :: "'a relay"
  from assms obtain b db1 where v: "revoke_device i (rl_db s) = (Inr b, db1)"
    and rest: "(if b then audit x (audit_from_ip ip (audit_target ''device'' i (by_user actor ''device-revoked'')))
        else okE ()) (cut (s\<lparr>rl_db := db1\<rparr>)) = (Inr u, s')"
    by (auto simp: revoke_def bindE_Inr in_db_Inr modify_def cut_def)
  have "rl_db (cut (s\<lparr>rl_db := db1\<rparr>)) = db1" "rl_registry (cut (s\<lparr>rl_db := db1\<rparr>)) = rl_registry s"
    by (simp_all add: cut_def revoke_tunnel_def close_tunnel_def send_frame_def try_send_def split: option.split)
  moreover have "told_to_close x (cut (s\<lparr>rl_db := db1\<rparr>)) (route_link rt)" if "route (rl_registry s) i = Some rt" for rt
    using that by (simp add: cut_def revoke_tunnel_tells)
  ultimately have "revoked_told x (cut (s\<lparr>rl_db := db1\<rparr>)) i" using revoked_rows [OF v] by (simp add: revoked_told_def)
  moreover have "revoking (cut (s\<lparr>rl_db := db1\<rparr>)) s'"
    using rest by (intro rv.obeysD [of "if b then audit x _ else okE ()"] rv.obeys_if rv_audit rv.obeys_ok)
  ultimately show ?thesis by (rule revoked_told_mono [rotated])
qed

lemma for_each_tells:
  "for_each (\<lambda>d. revoke x (d_id d) actor ip) ds s = (Inr u, s') \<Longrightarrow> d \<in> set ds \<Longrightarrow> revoked_told x s' (d_id d)"
proof (induction ds arbitrary: s)
  case (Cons a ds)
  then obtain u1 s1 where s1: "revoke x (d_id a) actor ip s = (Inr u1, s1)"
    and rest: "for_each (\<lambda>d. revoke x (d_id d) actor ip) ds s1 = (Inr u, s')" by (auto simp: bindE_Inr)
  have "rv.obeys (for_each (\<lambda>d. revoke x (d_id d) actor ip) ds)" by (intro rv.obeys_for_each rv_revoke)
  then have "revoking s1 s'" using rest by (rule rv.obeysD)
  with revoke_tells [OF s1] revoked_told_mono Cons.IH [OF rest] Cons.prems(2) show ?case by auto
qed simp

lemma collect_covers: "collect f rs = Inr xs \<Longrightarrow> r \<in> set rs \<Longrightarrow> \<exists>x \<in> set xs. f r = Inr x"
  by (induction rs arbitrary: xs) (auto split: sum.splits)

lemma owned_devices_listed:
  assumes "list_devices_owned_by i db = (Inr ds, db')" "r \<in> set (d_devices db)" "dw_owner_user_id r = Some i"
  shows "\<exists>d \<in> set ds. d_id d = dw_id r"
proof -
  from assms(1) have "collect read_device_row (sort_key (\<lambda>r. - dw_created_at r)
      (filter (\<lambda>r. dw_owner_user_id r = Some i) (d_devices db))) = Inr ds"
    by (auto simp: list_devices_owned_by_def query_devices_def flatten_query split: if_splits)
  from collect_covers [OF this, of r] assms(2,3) obtain d where "d \<in> set ds" "read_device_row r = Inr d" by auto
  moreover from this(2) have "d_id d = dw_id r" by (auto simp: read_device_row_def split: sum.splits prod.splits)
  ultimately show ?thesis by blast
qed

lemma revoke_devices_of_tells:
  assumes "revoke_devices_of x user actor ip s = (Inr u, s')"
    and "d \<in> set (d_devices (rl_db s'))" "dw_owner_user_id d = Some (u_id user)"
  shows "revoked_told x s' (dw_id d)"
proof -
  from assms(1) obtain ds db1 where ds: "list_devices_owned_by (u_id user) (rl_db s) = (Inr ds, db1)"
    and loop: "for_each (\<lambda>d. revoke x (d_id d) actor ip) ds (s\<lparr>rl_db := db1\<rparr>) = (Inr u, s')"
    by (auto simp: revoke_devices_of_def bindE_Inr in_db_Inr)
  have "rv.obeys (revoke_devices_of x user actor ip)"
    unfolding revoke_devices_of_def by (intro rv.obeys_intros rv_reads same.obeys_reads rv_revoke)
  then have "revoking s s'" using assms(1) by (rule rv.obeysD)
  with assms(2,3) obtain r where "r \<in> set (d_devices (rl_db s))" "row_kept r d"
    unfolding revoking_def by (meson list_all2_row)
  with owned_devices_listed [OF ds, of r] assms(3) obtain dr where "dr \<in> set ds" "d_id dr = dw_id d"
    by (auto simp: row_kept_def)
  with for_each_tells [OF loop] show ?thesis by metis
qed

lemma ball_update_where:
  "(\<And>r. r \<in> set rs \<Longrightarrow> P r \<Longrightarrow> Q (f r)) \<Longrightarrow> (\<And>r. r \<in> set rs \<Longrightarrow> \<not> P r \<Longrightarrow> Q r) \<Longrightarrow>
   \<forall>r \<in> set (update_where P f rs). Q r"
  by (auto simp: update_where_def)

lemma update_users_Inr: "update_users P f db = (Inr v, db') \<Longrightarrow> d_users db' = update_where P f (d_users db)"
  by (auto simp: update_users_def statement_cases split: if_splits)

definition disabled_rows :: "string \<Rightarrow> database \<Rightarrow> bool" where
  "disabled_rows i db \<longleftrightarrow> (\<forall>r \<in> set (d_users db). uw_id r = i \<longrightarrow> uw_disabled r \<noteq> 0)"

lemma disabled_rows_update:
  assumes "update_users P f db = (Inr v, db')" "disabled_rows i db"
    and "\<And>r. uw_id (f r) = uw_id r" "\<And>r. uw_disabled (f r) = uw_disabled r"
  shows "disabled_rows i db'"
  using assms(2-4) by (auto simp: disabled_rows_def update_users_Inr [OF assms(1)] set_update_where)

lemma update_user_disables:
  assumes "update_user i u db = (Inr v, db')" "uu_disabled u = Some True"
  shows "disabled_rows i db'"
proof -
  from assms obtain db1 db2 v1 v2 where
    1: "update_users (\<lambda>r. uw_id r = i) (\<lambda>r. r\<lparr>uw_disabled := 1\<rparr>) db = (Inr v1, db1)" and
    2: "when_some (uu_role u) (\<lambda>role. update_users (\<lambda>r. uw_id r = i) (\<lambda>r. r\<lparr>uw_role := role_str role\<rparr>)) db1 = (Inr v2, db2)" and
    3: "when_some (uu_password_hash u) (\<lambda>h. update_users (\<lambda>r. uw_id r = i) (\<lambda>r. r\<lparr>uw_password_hash := h\<rparr>)) db2 = (Inr v, db')"
    by (auto simp: update_user_def bindE_Inr when_some_def)
  have "disabled_rows i db1"
    unfolding disabled_rows_def update_users_Inr [OF 1] by (rule ball_update_where) simp_all
  with 2 have "disabled_rows i db2"
    by (cases "uu_role u") (auto simp: when_some_def okE_def intro: disabled_rows_update)
  with 3 show ?thesis
    by (cases "uu_password_hash u") (auto simp: when_some_def okE_def intro: disabled_rows_update)
qed

lemma delete_sessions_Inr:
  assumes "delete_sessions_of_user i db = (Inr v, db')"
  shows "d_sessions db' = filter (\<lambda>se. s_user_id se \<noteq> i) (d_sessions db)" "d_users db' = d_users db"
  using assms by (auto simp: delete_sessions_of_user_def update_sessions_def statement_cases split: if_splits)

lemma require_user_Inr:
  assumes "require_user i s = (Inr user, s')"
  shows "u_id user = i"
proof -
  from assms obtain db' where "find_user i (rl_db s) = (Inr (Some user), db')"
    by (auto simp: require_user_def bindE_Inr in_db_Inr require_some_def okE_def errE_def split: option.splits)
  then obtain r where "uw_id r = i" "read_user_row r = Inr user" by (rule find_user_Inr)
  then show ?thesis by (auto simp: read_user_row_def split: sum.splits)
qed

text \<open>What a handler that succeeds leaves behind, reasoned backwards.\<close>

definition yields :: "('s \<Rightarrow> ('e + 'a) \<times> 's) \<Rightarrow> ('a \<Rightarrow> 's \<Rightarrow> bool) \<Rightarrow> 's \<Rightarrow> bool" where
  "yields m Q s \<longleftrightarrow> (\<forall>a s'. m s = (Inr a, s') \<longrightarrow> Q a s')"

lemma yields_bind: "yields m (\<lambda>a. yields (f a) Q) s \<Longrightarrow> yields (bindE m f) Q s"
  by (auto simp: yields_def bindE_Inr)

lemma yields_any: "(\<And>a s'. Q a s') \<Longrightarrow> yields m Q s"
  by (simp add: yields_def)

lemma yields_mono: "yields m P s \<Longrightarrow> (\<And>a s'. P a s' \<Longrightarrow> Q a s') \<Longrightarrow> yields m Q s"
  by (auto simp: yields_def)

lemma yields_in_db:
  "(\<And>a db'. m (rl_db s) = (Inr a, db') \<Longrightarrow> Q a (s\<lparr>rl_db := db'\<rparr>)) \<Longrightarrow> yields (in_db m) Q s"
  by (auto simp: yields_def in_db_Inr)

lemma yields_obeys: "rv.obeys m \<Longrightarrow> (\<And>s'. revoking s s' \<Longrightarrow> Q s') \<Longrightarrow> yields m (\<lambda>_. Q) s"
  by (auto simp: yields_def dest: rv.obeysD)

definition ended :: "'l externals \<Rightarrow> string \<Rightarrow> 'l relay \<Rightarrow> bool" where
  "ended x i s \<longleftrightarrow> disabled_rows i (rl_db s) \<and> (\<forall>se \<in> set (d_sessions (rl_db s)). s_user_id se \<noteq> i) \<and>
     (\<forall>d \<in> set (d_devices (rl_db s)). dw_owner_user_id d = Some i \<longrightarrow> revoked_told x s (dw_id d))"

lemma ended_mono:
  assumes "revoking s s'" "ended x i s"
  shows "ended x i s'"
proof -
  have "revoked_told x s' (dw_id d)" if "d \<in> set (d_devices (rl_db s'))" "dw_owner_user_id d = Some i" for d
  proof -
    from assms(1) that(1) obtain r where "r \<in> set (d_devices (rl_db s))" "row_kept r d"
      unfolding revoking_def by (meson list_all2_row)
    with assms(2) that(2) have "revoked_told x s (dw_id d)" by (auto simp: ended_def row_kept_def)
    with assms(1) show ?thesis by (rule revoked_told_mono)
  qed
  with assms show ?thesis by (simp add: ended_def revoking_def disabled_rows_def)
qed

lemma revoke_devices_of_ends:
  assumes "disabled_rows (u_id user) (rl_db s)" "\<forall>se \<in> set (d_sessions (rl_db s)). s_user_id se \<noteq> u_id user"
  shows "yields (revoke_devices_of x user actor ip) (\<lambda>_. ended x (u_id user)) s"
  unfolding yields_def
proof (intro allI impI)
  fix a s' assume rev: "revoke_devices_of x user actor ip s = (Inr a, s')"
  have "rv.obeys (revoke_devices_of x user actor ip)"
    unfolding revoke_devices_of_def by (intro rv.obeys_intros rv_reads same.obeys_reads rv_revoke)
  then have "revoking s s'" using rev by (rule rv.obeysD)
  with assms revoke_devices_of_tells [OF rev] show "ended x (u_id user) s'"
    by (simp add: ended_def revoking_def disabled_rows_def)
qed

lemma rv_require_user: "rv.obeys (require_user i)"
  unfolding require_user_def by (intro rv.obeys_intros rv_reads same.obeys_reads rv.obeys_pure)

lemma rv_admin_user_envelope: "rv.obeys (admin_user_envelope user)"
  unfolding admin_user_envelope_def count_devices_def
  by (intro rv.obeys_intros rv_build_context rv_reads same.obeys_reads)

section \<open>Counting failures\<close>

text \<open>Everything but the lockout calls leaves the failure counter alone.\<close>

definition same_lockout :: "'l relay \<Rightarrow> 'l relay \<Rightarrow> bool" where
  "same_lockout s s' \<longleftrightarrow> rl_lockout s' = rl_lockout s"

interpretation lk: step_relation same_lockout
  by unfold_locales (simp_all add: same_lockout_def)

lemma lk_basic: "lk.obeys (in_db m)" "lk.obeys clock" "lk.obeys (drawn f e)" "lk.obeys (gets g)" "lk.obeys (audit x en)"
  by (simp_all add: lk.obeys_def same_lockout_def in_db_def map_err_def lift_db_def clock_def drawn_def draw_def
      gets_def audit_def modify_def split: prod.split sum.split)

lemma lk_enroll: "lk.obeys (enroll_with_code x code name)" "lk.obeys (enroll_with_password x un p name)"
  unfolding enroll_with_code_def claim_code_def burn_code_def enroll_with_password_def issue_device_def
  by (intro lk.obeys_intros lk.obeys_control lk_basic)+

lemma lk_user_envelope: "lk.obeys (user_envelope user)"
  unfolding user_envelope_def build_context_def by (intro lk.obeys_intros lk_basic)

lemma lockout_after: "lk.obeys m \<Longrightarrow> m s = (r, s') \<Longrightarrow> rl_lockout s' = rl_lockout s"
  using lk.obeysD [of m s r s'] by (simp add: same_lockout_def)

lemma refuse_locked_eq:
  "refuse_locked x ip s =
     (if x_is_locked x (rl_lockout s) ip then Inl (unauthorized LockedOut) else Inr (), s)"
  by (simp add: refuse_locked_def bindE_def gets_def ensure_def okE_def errE_def)

lemma audit_lockout: "rl_lockout (snd (audit x e s)) = rl_lockout s" "fst (audit x e s) = Inr ()"
  by (simp_all add: audit_def modify_def)

text \<open>Ending every session of an account and starting a new one.\<close>

definition renewed ::
  "'l externals \<Rightarrow> ('h, 'v) header_ops \<Rightarrow> string \<Rightarrow> nat \<times> 'v option \<times> 'b \<Rightarrow> 'l relay \<Rightarrow> bool" where
  "renewed x ops i r s \<longleftrightarrow> (\<exists>token se. filter (\<lambda>e. s_user_id e = i) (d_sessions (rl_db s)) = [se] \<and>
     s_id_hash se = x_hash_secret x token \<and> fst (snd r) = v_from_str ops (session_cookie token (is_public_secure s)))"

lemma renewal_yields:
  "yields (bindE (in_db (delete_sessions_of_user i)) (\<lambda>_.
     bindE (in_db (create_session (x_hash_secret x) i ip)) (\<lambda>token.
     bindE (audit x e) (\<lambda>_.
       gets (\<lambda>s. with_session_cookie ops status (session_cookie token (is_public_secure s)) b)))))
   (renewed x ops i) s"
  unfolding yields_def
proof (intro allI impI)
  fix r s'
  assume "bindE (in_db (delete_sessions_of_user i)) (\<lambda>_. bindE (in_db (create_session (x_hash_secret x) i ip)) (\<lambda>token.
     bindE (audit x e) (\<lambda>_.
       gets (\<lambda>s. with_session_cookie ops status (session_cookie token (is_public_secure s)) b)))) s = (Inr r, s')"
  then obtain u db1 token db2 where
    del: "delete_sessions_of_user i (rl_db s) = (Inr u, db1)" and
    new: "create_session (x_hash_secret x) i ip db1 = (Inr token, db2)" and
    s': "s' = s\<lparr>rl_db := audit_write x e db2\<rparr>" and
    r: "r = with_session_cookie ops status (session_cookie token (is_public_secure s')) b"
    by (auto simp: bindE_Inr in_db_Inr audit_def modify_def gets_def is_public_secure_def)
  obtain se where se: "d_sessions db2 = d_sessions db1 @ [se]" "s_id_hash se = x_hash_secret x token" "s_user_id se = i"
    using create_session_Inr [OF new] by metis
  have "filter (\<lambda>e. s_user_id e = i) (d_sessions (rl_db s')) = [se]"
    using se(3) by (simp add: s' same_audit [unfolded same_tables_def] se(1) delete_sessions_Inr [OF del] filter_empty_conv)
  with se(2) r show "renewed x ops i r s'" by (auto simp: renewed_def with_session_cookie_def)
qed

section \<open>Handlers that succeed\<close>

text \<open>The dual of \<open>yields\<close>, for runs on a concrete state.\<close>

definition signed_in_relay :: "string list relay" where
  "signed_in_relay = sample_relay\<lparr>rl_db := (rl_db sample_relay)\<lparr>d_sessions := [\<lparr>s_id_hash = ''#t'',
     s_user_id = ''u1'', s_created_at = 0, s_expires_at = 604801000, s_ip = None\<rparr>]\<rparr>\<rparr>"

definition signed_in_headers :: "(string \<times> string) list" where
  "signed_in_headers = [(''cookie'', ''termexo_relay_session=t'')]"

lemma signed_in_cookie: "read_session_cookies (readable_cookies list_headers signed_in_headers) = [''t'']"
proof -
  have v: "list_all visible ''termexo_relay_session=t''" by code_simp
  have t: "trim ''termexo_relay_session=t'' = ''termexo_relay_session=t''"
    by (rule trim_graphic) (simp_all add: graphic_def)
  have r: "readable_cookies list_headers signed_in_headers = [''termexo_relay_session=t'']"
    using v by (simp add: readable_cookies_def list_headers_def signed_in_headers_def map_filter_def)
  show ?thesis unfolding r by (simp add: read_session_cookies_def session_entry_def t session_cookie_name_def map_filter_def)
qed

lemmas relay_samples = signed_in_relay_def sample_relay_def sample_users_db_def sample_db_def sample_x_def
  sample_user_def sample_device_row_def

text \<open>The same relay with the desktop of the account connected.\<close>

definition desk_connected_relay :: "string list relay" where
  "desk_connected_relay = signed_in_relay\<lparr>rl_registry := snd (connect sample_desktop 20 sample_table)\<rparr>"

lemma signed_in_admin:
  "admin_user sample_x list_headers signed_in_headers desk_connected_relay
     = (Inr (sample_user, ''t''), desk_connected_relay\<lparr>rl_db := (rl_db signed_in_relay)\<lparr>d_ticks := 1, d_stmts := 2\<rparr>\<rparr>)"
  by (simp add: desk_connected_relay_def admin_user_def session_user_def signed_in_cookie bindE_def clock_def now_millis_def okE_def
      in_db_def map_err_def lift_db_def run_session relay_samples Let_def)
lemma audit_eq: "audit x e s = (Inr (), s\<lparr>rl_db := audit_write x e (rl_db s)\<rparr>)"
  by (simp add: audit_def modify_def)

lemma audit_write_simps [simp]:
  "d_users (audit_write x e db) = d_users db" "d_devices (audit_write x e db) = d_devices db"
  "d_sessions (audit_write x e db) = d_sessions db" "d_fail (audit_write x e db) = d_fail db"
  by (simp_all add: audit_write_def now_millis_def write_audit_def statement_cases)

definition disable_request :: update_user_request where
  "disable_request = \<lparr>ur_disabled = Some True, ur_role = None, ur_password = None\<rparr>"

lemma find_user_step:
  "find (\<lambda>r. uw_id r = i) (d_users db) = Some r \<Longrightarrow> read_user_row r = Inr u \<Longrightarrow> d_fail db = (\<lambda>_. False) \<Longrightarrow>
   find_user i db = (Inr (Some u), db\<lparr>d_stmts := d_stmts db + 1\<rparr>)"
  by (simp add: find_user_def flatten_query first_row_def)

definition succeeds :: "('s \<Rightarrow> ('e + 'a) \<times> 's) \<Rightarrow> ('a \<Rightarrow> 's \<Rightarrow> bool) \<Rightarrow> 's \<Rightarrow> bool" where
  "succeeds m Q s \<longleftrightarrow> (\<exists>a s'. m s = (Inr a, s') \<and> Q a s')"

lemma succeeds_bind: "succeeds m (\<lambda>a. succeeds (f a) Q) s \<Longrightarrow> succeeds (bindE m f) Q s"
  by (auto simp: succeeds_def bindE_Inr)

lemma succeedsI: "m s = (Inr a, s') \<Longrightarrow> Q a s' \<Longrightarrow> succeeds m Q s"
  by (auto simp: succeeds_def)

lemma succeeds_ok: "Q a s \<Longrightarrow> succeeds (okE a) Q s"
  by (simp add: succeeds_def okE_def)

definition calm :: "user_row list \<Rightarrow> device_row list \<Rightarrow> 'l relay \<Rightarrow> bool" where
  "calm us ds s \<longleftrightarrow> d_fail (rl_db s) = (\<lambda>_. False) \<and> d_users (rl_db s) = us \<and> d_devices (rl_db s) = ds"

lemma succeeds_find_user:
  "calm us ds s \<Longrightarrow> find (\<lambda>r. uw_id r = i) us = Some r \<Longrightarrow> read_user_row r = Inr u \<Longrightarrow>
   (\<And>s'. calm us ds s' \<Longrightarrow> Q u s') \<Longrightarrow> succeeds (require_user i) Q s"
  by (rule succeedsI [of _ _ u "s\<lparr>rl_db := (rl_db s)\<lparr>d_stmts := d_stmts (rl_db s) + 1\<rparr>\<rparr>"])
     (simp_all add: require_user_def bindE_def in_db_def map_err_def lift_db_def find_user_step calm_def
       require_some_def okE_def)

lemma succeeds_owned:
  "calm us ds s \<Longrightarrow> collect read_device_row (sort_key (\<lambda>r. - dw_created_at r) (filter (\<lambda>r. dw_owner_user_id r = Some i) ds)) = Inr rs \<Longrightarrow>
   (\<And>s'. calm us ds s' \<Longrightarrow> Q rs s') \<Longrightarrow> succeeds (in_db (list_devices_owned_by i)) Q s"
  by (rule succeedsI [of _ _ rs "s\<lparr>rl_db := (rl_db s)\<lparr>d_stmts := d_stmts (rl_db s) + 1\<rparr>\<rparr>"])
     (simp_all add: list_devices_owned_by_def query_devices_def flatten_query in_db_def map_err_def lift_db_def calm_def)

lemma succeeds_context:
  assumes "calm us ds s" "collect read_user_row (sort_key uw_created_at us) = Inr xs" "\<And>c s'. calm us ds s' \<Longrightarrow> Q c s'"
  shows "succeeds build_context Q s"
proof -
  let ?s = "s\<lparr>rl_db := (rl_db s)\<lparr>d_stmts := d_stmts (rl_db s) + 1\<rparr>\<rparr>"
  have "in_db list_users s = (Inr xs, ?s)"
    using assms(1,2) by (simp add: in_db_Inr list_users_def flatten_query calm_def)
  then show ?thesis
    unfolding build_context_def
    by (intro succeeds_bind succeedsI [of _ s xs ?s] succeedsI [of _ _ _ ?s]) (simp_all add: gets_def assms(3) calm_def assms(1) [unfolded calm_def])
qed
lemma succeeds_revoke:
  assumes "calm us ds s"
    and "\<And>now s'. calm us (update_where (\<lambda>r. dw_id r = i \<and> dw_revoked_at r = None) (\<lambda>r. r\<lparr>dw_revoked_at := Some now\<rparr>) ds) s' \<Longrightarrow> Q () s'"
  shows "succeeds (revoke x i actor ip) Q s"
  unfolding succeeds_def
  using assms
  by (simp add: revoke_def bindE_def in_db_def map_err_def lift_db_def revoke_device_def with_now_def now_millis_def calm_def
      update_devices_def statement_cases modify_def audit_eq okE_def revoke_tunnel_def close_tunnel_def send_frame_def
      try_send_def split: option.split)

lemma succeeds_audit: "calm us ds s \<Longrightarrow> (\<And>s'. calm us ds s' \<Longrightarrow> Q () s') \<Longrightarrow> succeeds (audit x e) Q s"
  by (rule succeedsI [OF audit_eq]) (simp add: calm_def)

lemma read_sample_device:
  "read_device_row (sample_device_row\<lparr>dw_revoked_at := v\<rparr>) = Inr (sample_device_record\<lparr>d_revoked_at := v\<rparr>)"
proof -
  have "trim ''relay-login'' = ''relay-login''" by (rule trim_graphic) (simp_all add: graphic_def)
  then show ?thesis
    by (simp add: read_device_row_def parse_device_row_def parse_device_kind_def device_access_from_str_def
      sample_device_row_def sample_device_record_def optional_text_def)
qed

lemma disabling_runs:
  "succeeds (update_user_api sample_x list_headers signed_in_headers ''192.0.2.7'' ''u1'' disable_request)
     (\<lambda>_ s'. \<exists>now. d_devices (rl_db s') = [sample_device_row\<lparr>dw_revoked_at := Some now\<rparr>]) desk_connected_relay"
proof -
  define row where "row = hd (d_users sample_users_db)"
  have row: "uw_id row = ''u1''" "read_user_row row = Inr sample_user"
      "read_user_row (row\<lparr>uw_disabled := 1\<rparr>) = Inr (sample_user\<lparr>u_disabled := True\<rparr>)" "u_id sample_user = ''u1''"
    by (simp_all add: row_def sample_users_db_def read_user_row_def parse_role_def sample_user_def)
  have dev: "sample_device_row\<lparr>dw_revoked_at := None\<rparr> = sample_device_row" "dw_owner_user_id sample_device_row = Some ''u1''"
     "dw_id sample_device_row = ''desk''" "dw_revoked_at sample_device_row = None" "d_id sample_device_record = ''desk''"
    by (simp_all add: sample_device_row_def sample_device_record_def)
  have rd: "read_device_row sample_device_row = Inr (sample_device_record\<lparr>d_revoked_at := None\<rparr>)"
    using read_sample_device [of None] by (simp only: dev(1))
  have upd: "succeeds (in_db (update_user ''u1'' \<lparr>uu_disabled = Some True, uu_role = None, uu_password_hash = None\<rparr>)) Q s"
    if "calm [row] ds s" "\<And>s'. calm [row\<lparr>uw_disabled := 1\<rparr>] ds s' \<Longrightarrow> Q () s'" for Q ds and s :: "string list relay"
    using that row(1)
    by (simp add: succeeds_def in_db_Inr update_user_def bindE_def when_some_def update_users_def statement_cases
        okE_def calm_def update_where_def)
  have del: "succeeds (in_db (delete_sessions_of_user i)) Q s" if "calm us ds s" "\<And>s'. calm us ds s' \<Longrightarrow> Q () s'"
    for Q i us ds and s :: "string list relay"
    using that by (simp add: succeeds_def in_db_Inr delete_sessions_of_user_def update_sessions_def statement_cases calm_def)
  have s1: "calm [row] [sample_device_row] (desk_connected_relay\<lparr>rl_db := (rl_db signed_in_relay)\<lparr>d_ticks := 1, d_stmts := 2\<rparr>\<rparr>)"
    by (simp add: calm_def relay_samples row_def desk_connected_relay_def)
  show ?thesis
    unfolding update_user_api_def Let_def disable_request_def check_some_def
    apply (rule succeeds_bind, rule succeedsI, rule signed_in_admin, rule succeeds_bind)
    apply (rule succeeds_find_user [OF s1], simp add: row, rule row(2))
    apply (simp add: row ensure_def user_update_is_empty_def)
    apply (rule succeeds_bind, rule succeeds_ok, rule succeeds_bind, rule succeeds_ok)
    apply (rule succeeds_bind, erule upd, rule succeeds_bind, erule del)
    apply (rule succeeds_bind, simp add: revoke_devices_of_def, rule succeeds_bind, erule succeeds_owned)
     apply (simp add: dev(2) rd row(4))
    apply simp
    apply (rule succeeds_bind, erule succeeds_revoke, rule succeeds_ok)
    apply (simp add: update_where_def dev)
    apply (rule succeeds_bind, erule succeeds_audit, rule succeeds_bind, erule succeeds_find_user)
      apply (simp add: row)
     apply (rule row(3))
    apply (simp add: admin_user_envelope_def count_devices_def row)
    apply (rule succeeds_bind, erule succeeds_context)
     apply (simp add: row)
    apply (rule succeeds_bind, rule succeeds_bind, erule succeeds_owned)
     apply (simp add: dev row read_sample_device)
    apply (rule succeeds_ok, rule succeeds_ok, auto simp: calm_def)
    done
qed

section \<open>Properties\<close>

text \<open>Whatever requests arrive, in whatever order and with whatever failures of the store, the schema
  invariant is kept, nothing of the permanent history is undone, and no request changes the routing
  table or the relay's identity.\<close>

lemma api_requests_keep_store:
  assumes "s' = fold (exec_api x ops) calls s"
  shows "(db_inv (rl_db s) \<longrightarrow> db_inv (rl_db s')) \<and> history (rl_db s) (rl_db s') \<and>
     rl_registry s' = rl_registry s \<and> rl_relay_id s' = rl_relay_id s \<and> rl_addressing s' = rl_addressing s"
  using exec_apis_effect [of s x ops calls] assms by (simp add: api_effect_def store_kept_def keeps_inv_def)

theorem api_requests_keep_store_witness:
  "rl_registry (fold (exec_api sample_x list_headers)
      [CallEnroll ''192.0.2.7'' (EnrollByCode ''2222-2222-2222'' ''Study''), CallLogout []] sample_relay) = sample_table"
  using api_requests_keep_store [OF refl, where x = sample_x and ops = list_headers and s = sample_relay and calls =
      "[CallEnroll ''192.0.2.7'' (EnrollByCode ''2222-2222-2222'' ''Study''), CallLogout []]"]
  by (simp add: sample_relay_def)

text \<open>C24: of the requests that redeem an open code, the first to burn it gets its credential if the store answers,
  and its device stays as it is. Whatever other requests the console and devices make in between, a later one to burn the
  code is refused as if the code were wrong, and the device it had already created is revoked, provided that no call of the store
  fails for it: nothing undoes the device if the revocation itself fails.\<close>

theorem redeem_race_one_winner:
  assumes "db_inv (rl_db s)" "e \<in> set (d_enrollments (rl_db s))" "ew_id e = c" "ew_used_at e = None" "ew_cancelled_at e = None"
    and "\<forall>n. \<not> d_fail (rl_db s) n"
  shows "\<exists>s1. burn_code x c winner s = (Inr (response_for x winner s), s1) \<and> d_devices (rl_db s1) = d_devices (rl_db s) \<and>
    (\<forall>calls s2 loser r s3. s2 = fold (exec_api x ops) calls s1 \<longrightarrow> (\<forall>n. \<not> d_fail (rl_db s2) n) \<longrightarrow>
       burn_code x c loser s2 = (r, s3) \<longrightarrow>
         r = Inl (unauthorized InvalidCode) \<and>
         (\<forall>d \<in> set (d_devices (rl_db s3)). dw_id d = fst loser \<longrightarrow> dw_revoked_at d \<noteq> None) \<and>
         map dw_id (d_devices (rl_db s3)) = map dw_id (d_devices (rl_db s2)))"
proof -
  from first_burn [OF assms(2-6)] obtain s1 where s1: "burn_code x c winner s = (Inr (response_for x winner s), s1)"
    "d_devices (rl_db s1) = d_devices (rl_db s)" by blast
  note marked = burn_code_Inr(1) [OF s1(1)]
  have "keeps_inv (rl_db s) (rl_db s1)" using inv.obeysD [OF inv_methods(11) marked] .
  then have inv1: "db_inv (rl_db s1)" using assms(1) by (simp add: keeps_inv_def)
  obtain e1 where e1: "e1 \<in> set (d_enrollments (rl_db s1))" "ew_id e1 = c" "ew_used_at e1 \<noteq> None"
    using mark_used_True [OF marked] .
  have "r = Inl (unauthorized InvalidCode) \<and>
      (\<forall>d \<in> set (d_devices (rl_db s3)). dw_id d = fst loser \<longrightarrow> dw_revoked_at d \<noteq> None) \<and>
      map dw_id (d_devices (rl_db s3)) = map dw_id (d_devices (rl_db s2))"
    if "s2 = fold (exec_api x ops) calls s1" "\<forall>n. \<not> d_fail (rl_db s2) n" "burn_code x c loser s2 = (r, s3)"
    for calls s2 loser r s3
  proof -
    have eff: "store_kept (rl_db s1) (rl_db s2)"
      using exec_apis_effect [of s1 x ops calls] that(1) by (simp add: api_effect_def)
    then have inv2: "db_inv (rl_db s2)" using inv1 by (simp add: store_kept_def keeps_inv_def)
    from eff e1 obtain e2 where "e2 \<in> set (d_enrollments (rl_db s2))" "ew_id e2 = c" "ew_used_at e2 \<noteq> None"
      unfolding store_kept_def history_def code_kept_def by metis
    from settled_stays(1) [OF inv2 this] burn_code_lost [OF _ that(2,3)] show ?thesis by blast
  qed
  with s1 show ?thesis by blast
qed

theorem redeem_race_one_winner_witness:
  "\<exists>resp s1 s3. burn_code sample_x ''c1'' (''first'', ''s'') sample_relay = (Inr resp, s1) \<and>
     burn_code sample_x ''c1'' (''desk'', ''s'') s1 = (Inl (unauthorized InvalidCode), s3) \<and>
     map dw_id (d_devices (rl_db s3)) = [''desk''] \<and> (\<forall>d \<in> set (d_devices (rl_db s3)). dw_revoked_at d \<noteq> None)"
proof -
  have inv: "db_inv (rl_db sample_relay)"
    using sample_db_inv by (simp add: relay_samples db_inv_def users_ok_def devices_ok_def owners_ok_def)
      (metis access_str.simps device_kind_label.simps role_str.simps)
  let ?e = "hd (d_enrollments (rl_db sample_relay))"
  have e: "?e \<in> set (d_enrollments (rl_db sample_relay))" "ew_id ?e = ''c1''" "ew_used_at ?e = None" "ew_cancelled_at ?e = None"
    "\<forall>n. \<not> d_fail (rl_db sample_relay) n" by (simp_all add: relay_samples)
  from redeem_race_one_winner [OF inv e, of sample_x "(''first'', ''s'')" list_headers]
  obtain s1 where s1: "burn_code sample_x ''c1'' (''first'', ''s'') sample_relay = (Inr (response_for sample_x (''first'', ''s'') sample_relay), s1)"
    "d_devices (rl_db s1) = d_devices (rl_db sample_relay)"
    and late: "\<forall>calls s2 loser r s3. s2 = fold (exec_api sample_x list_headers) calls s1 \<longrightarrow> (\<forall>n. \<not> d_fail (rl_db s2) n) \<longrightarrow>
       burn_code sample_x ''c1'' loser s2 = (r, s3) \<longrightarrow> r = Inl (unauthorized InvalidCode) \<and>
         (\<forall>d \<in> set (d_devices (rl_db s3)). dw_id d = fst loser \<longrightarrow> dw_revoked_at d \<noteq> None) \<and>
         map dw_id (d_devices (rl_db s3)) = map dw_id (d_devices (rl_db s2))"
    by (elim exE conjE)
  have calm: "\<forall>n. \<not> d_fail (rl_db s1) n"
    using s1(1) by (auto simp: burn_code_def bindE_def in_db_def map_err_def lift_db_def mark_enrollment_used_def with_now_def
        now_millis_def update_enrollments_def statement_cases gets_def relay_samples)
  obtain r s3 where burn: "burn_code sample_x ''c1'' (''desk'', ''s'') s1 = (r, s3)" by fastforce
  have lost: "r = Inl (unauthorized InvalidCode)" "\<forall>d \<in> set (d_devices (rl_db s3)). dw_id d = ''desk'' \<longrightarrow> dw_revoked_at d \<noteq> None"
    "map dw_id (d_devices (rl_db s3)) = map dw_id (d_devices (rl_db s1))"
    using late [THEN spec [of _ "[]"], THEN spec [of _ s1], THEN spec [of _ "(''desk'', ''s'')"], THEN spec [of _ r], THEN spec [of _ s3]]
      calm burn by simp_all
  then have ids: "map dw_id (d_devices (rl_db s3)) = [''desk'']" by (simp add: s1(2) relay_samples)
  then have "dw_id ` set (d_devices (rl_db s3)) = {''desk''}" by (metis list.set(1) list.set(2) list.set_map)
  with s1(1) burn lost ids show ?thesis by auto
qed

text \<open>C25: when disabling an account succeeds, the account is disabled, none of its sessions is left, and the row of every
  device it owns is revoked. A device of it that is directly connected has been sent the revocation and the close of its tunnel,
  unless the tunnel's queue is full of frames that wait to be written: then both may have been dropped. Of a
  device that is reached through a downstream relay only the row is claimed.\<close>

theorem disabling_ends_access:
  assumes "update_user_api x ops headers ip ident req s = (Inr v, s')" "ur_disabled req = Some True"
  shows "(\<forall>r \<in> set (d_users (rl_db s')). uw_id r = ident \<longrightarrow> uw_disabled r \<noteq> 0) \<and>
    (\<forall>se \<in> set (d_sessions (rl_db s')). s_user_id se \<noteq> ident) \<and>
    (\<forall>d \<in> set (d_devices (rl_db s')). dw_owner_user_id d = Some ident \<longrightarrow> dw_revoked_at d \<noteq> None \<and>
       (\<forall>h. route (rl_registry s') (dw_id d) = Some (Direct h) \<longrightarrow> length (pending h s') < command_capacity \<longrightarrow>
          (h, Control (Revoked revoked_reason)) \<in> set (rl_outbox s') \<and>
          (h, Close (x_close_revoked x) revoked_reason) \<in> set (rl_outbox s')))"
proof -
  have "yields (bindE (in_db (update_user ident u)) (\<lambda>_.
      bindE (if uu_password_hash u \<noteq> None \<or> uu_disabled u = Some True
         then in_db (delete_sessions_of_user ident) else okE ()) (\<lambda>_.
      bindE (if uu_disabled u = Some True then revoke_devices_of x user actor ip else okE ()) rest)))
      (\<lambda>_. ended x ident) s0"
    if u: "uu_disabled u = Some True" "u_id user = ident" "\<And>a. rv.obeys (rest a)"
    for u user actor s0 and rest :: "unit \<Rightarrow> _ \<Rightarrow> (api_error + user_view) \<times> _"
  proof (rule yields_bind, rule yields_in_db, rule yields_bind, simp only: u(1) simp_thms if_True, rule yields_in_db,
      rule yields_bind, rule yields_mono [OF revoke_devices_of_ends [of user, unfolded u(2)]])
    fix a db1 b db2
    assume upd: "update_user ident u (rl_db s0) = (Inr a, db1)"
      and del: "delete_sessions_of_user ident (rl_db (s0\<lparr>rl_db := db1\<rparr>)) = (Inr b, db2)"
    from update_user_disables [OF upd u(1)] delete_sessions_Inr(2) [OF del]
    show "disabled_rows ident (rl_db (s0\<lparr>rl_db := db1, rl_db := db2\<rparr>))" by (simp add: disabled_rows_def)
    from delete_sessions_Inr(1) [OF del]
    show "\<forall>se \<in> set (d_sessions (rl_db (s0\<lparr>rl_db := db1, rl_db := db2\<rparr>))). s_user_id se \<noteq> ident" by simp
  qed (auto intro: yields_obeys [OF u(3)] ended_mono)
  note core = this
  have "yields (update_user_api x ops headers ip ident req) (\<lambda>_. ended x ident) s"
    unfolding update_user_api_def Let_def
  proof (rule yields_bind, rule yields_any, rule yields_bind, rule yields_mono [of _ "\<lambda>user _. u_id user = ident"])
    show "yields (require_user ident) (\<lambda>user _. u_id user = ident) s1" for s1
      by (simp add: yields_def require_user_Inr)
  qed (rule yields_bind, rule yields_any, rule yields_bind, rule yields_any, simp only:, rule core,
      simp_all add: assms(2), intro rv.obeys_intros rv_audit rv_require_user rv_admin_user_envelope)
  with assms(1) have "ended x ident s'" by (simp add: yields_def)
  then show ?thesis unfolding ended_def disabled_rows_def revoked_told_def told_to_close_def by force
qed

theorem disabling_ends_access_witness:
  "\<exists>v s'. update_user_api sample_x list_headers signed_in_headers ''192.0.2.7'' ''u1'' disable_request desk_connected_relay
      = (Inr v, s') \<and> route (rl_registry s') ''desk'' = Some (Direct (dp_handle sample_desktop)) \<and> map dw_id (d_devices (rl_db s')) = [''desk''] \<and>
    (\<forall>d \<in> set (d_devices (rl_db s')). dw_revoked_at d \<noteq> None \<and> (length (pending (dp_handle sample_desktop) s') < command_capacity \<longrightarrow>
       (dp_handle sample_desktop, Close 4001 revoked_reason) \<in> set (rl_outbox s')))"
proof -
  from disabling_runs obtain v s' where
    run: "update_user_api sample_x list_headers signed_in_headers ''192.0.2.7'' ''u1'' disable_request desk_connected_relay
      = (Inr v, s')" and rows: "\<exists>now. d_devices (rl_db s') = [sample_device_row\<lparr>dw_revoked_at := Some now\<rparr>]"
    by (auto simp: succeeds_def)
  have "rl_registry s' = rl_registry desk_connected_relay"
    using exec_api_effect [of desk_connected_relay sample_x list_headers "CallUpdateUser signed_in_headers ''192.0.2.7'' ''u1'' disable_request"] run
    by (simp add: api_effect_def)
  then have r: "route (rl_registry s') ''desk'' = Some (Direct (dp_handle sample_desktop))" by (simp add: desk_connected_relay_def route_def connect_entry sample_desktop_def)
  from disabling_ends_access [OF run] rows r run show ?thesis
    by (auto simp: disable_request_def sample_device_row_def sample_x_def)
qed

text \<open>The failure counter of an address moves exactly as promised when it enrolls: while it is locked out the
  request is refused untouched; a refused credential is counted once, any other error is not counted,
  and a success forgets the address.\<close>

lemma enroll_counts_failures:
  assumes "enroll x ip request s = (r, s')"
  shows "if x_is_locked x (rl_lockout s) ip then r = Inl (unauthorized LockedOut) \<and> s' = s
    else rl_lockout s' = (case r of
        Inr _ \<Rightarrow> x_lock_clear x (rl_lockout s) ip
      | Inl e \<Rightarrow> if ae_status e = 401 then x_record_failure x (rl_lockout s) ip else rl_lockout s)"
proof -
  let ?m = "case request of EnrollByCode code name \<Rightarrow> enroll_with_code x code name
    | EnrollByPassword username password name \<Rightarrow> enroll_with_password x username password name"
  obtain out s1 where m: "?m s = (out, s1)" by fastforce
  have "lk.obeys ?m" using lk_enroll by (cases request) simp_all
  then have s1: "rl_lockout s1 = rl_lockout s" using m by (rule lockout_after)
  show ?thesis
  proof (cases "x_is_locked x (rl_lockout s) ip")
    case True
    with assms show ?thesis by (simp add: enroll_def bindE_def refuse_locked_eq)
  next
    case False
    with assms m have "(r, s') = (case out of
        Inr response \<Rightarrow> bindE (clear_failures x ip) (\<lambda>_.
          bindE (audit x (audit_from_ip ip (audit_target ''device'' (er_device_id response)
                  (audit_actor (er_device_id response) (audit_new ActorDevice ''enroll''))))) (\<lambda>_.
                okE response)) s1
      | Inl error \<Rightarrow> (if ae_status error = 401 then bindE (record_failure x ip) (\<lambda>_.
          bindE (audit x (audit_from_ip ip (audit_new ActorDevice ''enroll-failed''))) (\<lambda>_. errE error))
          else errE error) s1)"
      by (simp add: enroll_def bindE_def [of "refuse_locked x ip"] refuse_locked_eq)
    with False s1 show ?thesis
      by (cases out) (auto simp: bindE_def clear_failures_def record_failure_def modify_def okE_def errE_def
          audit_def split: if_splits)
  qed
qed

theorem enroll_counts_failures_witness:
  "rl_lockout (snd (enroll sample_x ''192.0.2.7'' (EnrollByCode ''22'' ''Study'') sample_relay)) = [''192.0.2.7'']"
proof -
  have name: "require_text ''Study'' ''name'' max_device_name_length = Inr ''Study''"
    using trim_graphic [of "''Study''"]
    by (simp add: require_text_def max_device_name_length_def chars_count_def graphic_def)
  have "normalize_code ''22'' = None" by code_simp
  then have fst: "fst (enroll sample_x ''192.0.2.7'' (EnrollByCode ''22'' ''Study'') sample_relay) = Inl (unauthorized InvalidCode)"
    by (simp add: enroll_def enroll_with_code_def claim_code_def bindE_def refuse_locked_eq check_def name require_some_def
        errE_def record_failure_def audit_def modify_def unauthorized_def relay_samples)
  obtain r s' where run: "enroll sample_x ''192.0.2.7'' (EnrollByCode ''22'' ''Study'') sample_relay = (r, s')" by fastforce
  from enroll_counts_failures [OF run] run fst show ?thesis by (simp add: unauthorized_def relay_samples)
qed

text \<open>C26: a successful password change ends every session of the account and leaves exactly one, the session whose
  token is in the cookie of the answer.\<close>

theorem password_change_leaves_one_session:
  assumes "change_password x ops headers ip request s = (Inr r, s')"
  shows "\<exists>session s1 token se. session_user x ops headers s = (Inr session, s1) \<and>
    filter (\<lambda>e. s_user_id e = u_id (fst session)) (d_sessions (rl_db s')) = [se] \<and>
    s_id_hash se = x_hash_secret x token \<and>
    fst (snd r) = v_from_str ops (session_cookie token (is_public_secure s'))"
proof -
  obtain session s1 where user: "session_user x ops headers s = (Inr session, s1)"
    using assms by (auto simp: change_password_def bindE_Inr)
  have "yields (change_password x ops headers ip request) (renewed x ops (u_id (fst session))) s"
    unfolding change_password_def Let_def
  proof (rule yields_bind, rule yields_mono [of _ "\<lambda>a _. a = session"])
    show "yields (session_user x ops headers) (\<lambda>a _. a = session) s" using user by (simp add: yields_def)
  qed (rule yields_bind, rule yields_any, rule yields_bind, rule yields_any, rule yields_bind, rule yields_any,
      rule yields_bind, rule yields_any, simp only:, rule renewal_yields)
  with assms user show ?thesis by (auto simp: yields_def renewed_def)
qed

definition trusting_x :: "string list externals" where
  "trusting_x = sample_x\<lparr>x_argon2_verify := (\<lambda>_ _. True)\<rparr>"

lemma signed_in_session:
  "session_user trusting_x list_headers signed_in_headers signed_in_relay
     = (Inr (sample_user, ''t''), signed_in_relay\<lparr>rl_db := (rl_db signed_in_relay)\<lparr>d_ticks := 1, d_stmts := 2\<rparr>\<rparr>)"
  by (simp add: session_user_def signed_in_cookie bindE_def clock_def now_millis_def okE_def trusting_x_def
      in_db_def map_err_def lift_db_def run_session relay_samples Let_def)

lemma password_change_runs:
  "\<exists>r s'. change_password trusting_x list_headers signed_in_headers ''192.0.2.7''
     \<lparr>pc_current_password = ''old'', pc_new_password = ''twelve-chars''\<rparr> signed_in_relay = (Inr r, s')"
  unfolding change_password_def Let_def
  by (subst bindE_def, subst signed_in_session)
     (simp add: bindE_def ensure_def okE_def password_matches_def
      verify_password_def check_def validated_password_def min_password_length_def chars_count_def hash_password_def
      drawn_def draw_def in_db_def map_err_def lift_db_def update_user_def when_some_def no_user_update_def update_users_def
      statement_cases delete_sessions_of_user_def update_sessions_def create_session_def random_base64url_def with_now_def
      now_millis_def insert_session_def audit_eq gets_def with_session_cookie_def trusting_x_def relay_samples)

theorem password_change_leaves_one_session_witness:
  "\<exists>r s' i se. change_password trusting_x list_headers signed_in_headers ''192.0.2.7''
      \<lparr>pc_current_password = ''old'', pc_new_password = ''twelve-chars''\<rparr> signed_in_relay = (Inr r, s') \<and>
    filter (\<lambda>e. s_user_id e = i) (d_sessions (rl_db s')) = [se]"
proof -
  from password_change_runs obtain r s' where run: "change_password trusting_x list_headers signed_in_headers ''192.0.2.7''
     \<lparr>pc_current_password = ''old'', pc_new_password = ''twelve-chars''\<rparr> signed_in_relay = (Inr r, s')" by blast
  from password_change_leaves_one_session [OF run] run show ?thesis by blast
qed

end
