(* ===== verification/Tunnel.thy ===== *)
theory Tunnel
  imports Api_Laws
begin

text \<open>
  The tunnel endpoint (\<^verbatim>\<open>src/tunnel/mod.rs\<close>) and the life of one tunnel (\<^verbatim>\<open>src/tunnel/session.rs\<close>): the
  credential check, the handshake, the frames of a device, the writer task, and what connecting and
  ending do to the shared state. Decoding a frame is the protocol crate's; reading and writing a
  socket are events; the multiplexed connection behind it is in \<^verbatim>\<open>Multiplexer.thy\<close>.
\<close>

section \<open>Authentication\<close>

definition bearer_credential ::
  "'l externals \<Rightarrow> ('h, 'v) header_ops \<Rightarrow> 'h \<Rightarrow> (string \<times> string) option" where
  "bearer_credential x ops headers =
     Option.bind (header_value ops headers ''authorization'') (\<lambda>value.
       Option.bind (strip_prefix ''Bearer '' value) (\<lambda>token. x_parse_credential x (trim token)))"

definition authenticate ::
  "'l externals \<Rightarrow> ('h, 'v) header_ops \<Rightarrow> 'h \<Rightarrow> 'l relay \<Rightarrow> (string + device_record) \<times> 'l relay" where
  "authenticate x ops headers s =
     (case bearer_credential x ops headers of
        None \<Rightarrow> (Inl ''malformed-credential'', s)
      | Some (device_id, secret) \<Rightarrow>
          (case lift_db (find_device device_id) s of
             (Inl _, s1) \<Rightarrow> (Inl ''lookup-failed'', s1)
           | (Inr None, s1) \<Rightarrow> (Inl ''unknown-device'', s1)
           | (Inr (Some device), s1) \<Rightarrow>
               if is_revoked device then (Inl ''revoked'', s1)
               else if \<not> x_secret_matches x secret (d_secret_hash device) then (Inl ''secret-mismatch'', s1)
               else (Inr device, s1)))"

definition upgrade ::
  "'l externals \<Rightarrow> ('h, 'v) header_ops \<Rightarrow> 'h \<Rightarrow> string \<Rightarrow> 'l relay \<Rightarrow> (api_error + device_record) \<times> 'l relay" where
  "upgrade x ops headers ip =
     bindE (refuse_locked x ip) (\<lambda>_ s.
       case authenticate x ops headers s of
         (Inl reason, s1) \<Rightarrow>
           bindE (record_failure x ip) (\<lambda>_.
           bindE (audit x (audit_detail ''reason'' (JStr reason)
               (audit_from_ip ip (audit_new ActorDevice ''tunnel-rejected'')))) (\<lambda>_.
             errE (unauthorized InvalidCredential))) s1
       | (Inr device, s1) \<Rightarrow> bindE (clear_failures x ip) (\<lambda>_. okE device) s1)"

section \<open>The handshake\<close>

record hello =
  he_kind :: device_kind
  he_version :: string
  he_relay_id :: "string option"

datatype 'b ws_message = WsText control_frame | WsBinary 'b | WsClose nat string

definition reason_protocol :: string where
  "reason_protocol = ''protocol''"

definition reason_version_mismatch :: string where
  "reason_version_mismatch = ''version-mismatch''"

definition reason_kind_mismatch :: string where
  "reason_kind_mismatch = ''kind-mismatch''"

definition reason_replaced :: string where
  "reason_replaced = ''replaced''"

definition reason_closing :: string where
  "reason_closing = ''closing''"

text \<open>What is written while refusing; whether it arrives does not matter.\<close>

definition reject :: "'l externals \<Rightarrow> string \<Rightarrow> 'b ws_message list" where
  "reject x reason = [WsText (AuthFailed reason), WsClose (x_close_unauthorized x) []]"

definition upstream_chain :: "'l relay \<Rightarrow> string list" where
  "upstream_chain s = reach_chain (rl_reach s)"

text \<open>
  \<open>frame\<close> is the first message if it arrived in time, was text and could be decoded; \<open>sent\<close> tells
  whether the welcome could be written.
\<close>

definition accept_hello ::
  "'l externals \<Rightarrow> 'l relay \<Rightarrow> device_record \<Rightarrow> control_frame option \<Rightarrow> bool \<Rightarrow> hello option \<times> 'b ws_message list" where
  "accept_hello x s device frame sent =
     (case frame of
        Some (Hello protocol kind version _ relay_id) \<Rightarrow>
          if protocol \<noteq> x_protocol_version x then (None, reject x reason_version_mismatch)
          else if kind \<noteq> d_kind device then (None, reject x reason_kind_mismatch)
          else
            (let welcome = Welcome (d_id device) (rl_relay_id s) (state_addresses x s (d_id device)) (upstream_chain s)
             in (if sent then Some \<lparr>he_kind = kind, he_version = version, he_relay_id = relay_id\<rparr> else None,
                 [WsText welcome]))
      | _ \<Rightarrow> (None, reject x reason_protocol))"

section \<open>One tunnel\<close>

definition with_clock :: "(int \<Rightarrow> 'l relay \<Rightarrow> 'r) \<Rightarrow> 'l relay \<Rightarrow> 'r" where
  "with_clock f s = (let (now, s1) = lift_db now_millis s in f now s1)"

definition swallow :: "(database \<Rightarrow> 'r \<times> database) \<Rightarrow> 'l relay \<Rightarrow> 'l relay" where
  "swallow m s = s\<lparr>rl_db := snd (m (rl_db s))\<rparr>"

definition presence_of :: "device_record \<Rightarrow> string \<Rightarrow> tunnel_handle \<Rightarrow> hello \<Rightarrow> direct_presence" where
  "presence_of device peer handle hello =
     \<lparr>dp_device_id = d_id device, dp_name = d_name device, dp_kind = he_kind hello,
      dp_relay_id = he_relay_id hello, dp_ip = Some peer, dp_version = Some (he_version hello),
      dp_handle = handle\<rparr>"

text \<open>\<^verbatim>\<open>run\<close> from the accepted hello to the reading loop; \<open>handle\<close> is the new tunnel's.\<close>

definition register :: "'l externals \<Rightarrow> direct_presence \<Rightarrow> 'l relay \<Rightarrow> u64 \<times> 'l relay" where
  "register x presence = with_clock (\<lambda>now s.
     let (registration, table) = connect presence now (rl_registry s);
         s1 = s\<lparr>rl_registry := table\<rparr>
     in (reg_serial registration,
         case reg_displaced registration of
           Some previous \<Rightarrow> close_tunnel previous (x_close_going_away x) reason_replaced s1
         | None \<Rightarrow> s1))"

definition tunnel_connect ::
  "'l externals \<Rightarrow> device_record \<Rightarrow> string \<Rightarrow> tunnel_handle \<Rightarrow> hello \<Rightarrow> 'l relay \<Rightarrow> u64 \<times> 'l relay" where
  "tunnel_connect x device peer handle hello s =
     (let (serial, s1) = register x (presence_of device peer handle hello) s;
          s2 = swallow (record_device_connection (d_id device) peer (he_version hello)) s1;
          s3 = snd (audit x (audit_detail ''version'' (JStr (he_version hello))
                 (audit_detail ''kind'' (JStr (device_kind_label (he_kind hello)))
                   (audit_from_ip peer (by_device (d_id device) ''tunnel-connected'')))) s2)
      in (serial, s3))"

datatype close_cause = PeerClosed | Idle | Transport | Local

fun cause_str :: "close_cause \<Rightarrow> string" where
  "cause_str PeerClosed = ''peer-closed''"
| "cause_str Idle = ''idle-timeout''"
| "cause_str Transport = ''transport-error''"
| "cause_str Local = ''closed-by-relay''"

text \<open>
  \<^verbatim>\<open>run\<close> after the reading loop: the tunnel is asked to close, and once the writer has ended the
  tunnel is taken out of the table.
\<close>

definition tunnel_leave :: "'l externals \<Rightarrow> tunnel_handle \<Rightarrow> 'l relay \<Rightarrow> 'l relay" where
  "tunnel_leave x handle = close_tunnel handle (x_close_going_away x) reason_closing"

definition tunnel_disconnect ::
  "'l externals \<Rightarrow> device_record \<Rightarrow> string \<Rightarrow> u64 \<Rightarrow> close_cause \<Rightarrow> 'l relay \<Rightarrow> 'l relay" where
  "tunnel_disconnect x device peer serial cause s =
     (let s1 = s\<lparr>rl_registry := snd (disconnect (d_id device) serial (rl_registry s))\<rparr>;
          s2 = swallow (record_device_disconnection (d_id device)) s1
      in snd (audit x (audit_detail ''cause'' (JStr (cause_str cause))
           (audit_from_ip peer (by_device (d_id device) ''tunnel-disconnected''))) s2))"

definition handle_control_frame ::
  "'l externals \<Rightarrow> tunnel_handle \<Rightarrow> device_kind \<Rightarrow> control_frame \<Rightarrow> 'l relay \<Rightarrow> 'l relay" where
  "handle_control_frame x handle kind frame s =
     (case frame of
        Ping \<Rightarrow> send_frame handle Pong s
      | Announce devices \<Rightarrow>
          if kind = Relay
          then with_clock (\<lambda>now s. s\<lparr>rl_registry :=
                 apply_announcement (x_max_hops x) (th_device_id handle) handle now devices (rl_registry s)\<rparr>) s
          else s
      | DeviceOnline ident name via \<Rightarrow>
          if kind = Relay
          then with_clock (\<lambda>now s. s\<lparr>rl_registry :=
                 snd (announce_device (x_max_hops x) (th_device_id handle) handle now
                   \<lparr>ad_id = ident, ad_name = name, ad_online = True, ad_via = via\<rparr> (rl_registry s))\<rparr>) s
          else s
      | DeviceOffline ident \<Rightarrow>
          if kind = Relay
          then with_clock (\<lambda>now s. s\<lparr>rl_registry :=
                 withdraw_device (th_device_id handle) ident now (rl_registry s)\<rparr>) s
          else s
      | _ \<Rightarrow> s)"

text \<open>
  The reading loop over what the socket and the writer report. A text that cannot be decoded is
  \<open>ReadText None\<close>; \<open>ReadBinary taken\<close> tells whether the multiplexer took the bytes.
\<close>

datatype read_event =
    ShutdownChanged
  | IdleElapsed
  | StreamEnded
  | ReadFailed
  | ReadText "control_frame option"
  | ReadBinary bool
  | ReadOther

fun read_frames ::
  "'l externals \<Rightarrow> tunnel_handle \<Rightarrow> device_kind \<Rightarrow> read_event list \<Rightarrow> 'l relay \<Rightarrow> close_cause option \<times> 'l relay" where
  "read_frames x handle kind [] s = (None, s)"
| "read_frames x handle kind (event # events) s =
     (case event of
        ShutdownChanged \<Rightarrow> (Some Local, s)
      | IdleElapsed \<Rightarrow> (Some Idle, s)
      | StreamEnded \<Rightarrow> (Some PeerClosed, s)
      | ReadFailed \<Rightarrow> (Some Transport, s)
      | ReadText (Some frame) \<Rightarrow> read_frames x handle kind events (handle_control_frame x handle kind frame s)
      | ReadText None \<Rightarrow> read_frames x handle kind events s
      | ReadBinary taken \<Rightarrow> if taken then read_frames x handle kind events s else (Some Transport, s)
      | ReadOther \<Rightarrow> read_frames x handle kind events s)"

text \<open>
  The writer task: what its three sources deliver, in the order \<^verbatim>\<open>select!\<close> picks them, each with
  whether writing it succeeds. The result is what reached the socket and whether the loop has ended,
  which is when the reader is told to shut down.
\<close>

datatype 'b write_event =
    DataFrame 'b bool
  | DataGone
  | Command outgoing bool
  | CommandsGone
  | PingTick bool

fun write_frames :: "'b write_event list \<Rightarrow> 'b ws_message list \<times> bool" where
  "write_frames [] = ([], False)"
| "write_frames (event # events) =
     (case event of
        DataGone \<Rightarrow> ([], True)
      | CommandsGone \<Rightarrow> ([], True)
      | DataFrame b ok \<Rightarrow>
          if ok then (let (ms, done) = write_frames events in (WsBinary b # ms, done)) else ([], True)
      | Command (Control frame) ok \<Rightarrow>
          if ok then (let (ms, done) = write_frames events in (WsText frame # ms, done)) else ([], True)
      | Command (Close code reason) ok \<Rightarrow> (if ok then [WsClose code reason] else [], True)
      | PingTick ok \<Rightarrow>
          if ok then (let (ms, done) = write_frames events in (WsText Ping # ms, done)) else ([], True))"

end
