(* ===== verification/Tunnel_Laws.thy ===== *)
theory Tunnel_Laws
  imports Tunnel
begin

text \<open>
  What the tunnel endpoint guarantees: who gets a tunnel, what the frames of a device can change in the
  shared state, and three ways in which a revocation misses its device. The relations \<open>adds\<close> and
  \<open>keeps_attached\<close> describe what an operation of the routing table may add and must leave alone.
\<close>

section \<open>Rows behind records\<close>

lemma find_device_row:
  assumes "find_device i db = (Inr (Some d), db')"
  obtains row where "row \<in> set (d_devices db)" "dw_id row = i" "read_device_row row = Inr d"
    "db' = db\<lparr>d_stmts := d_stmts db + 1\<rparr>"
  using assms
  by (auto simp: find_device_def flatten_query first_row_def dest!: find_in_set split: if_splits option.splits sum.splits)

lemma read_device_row_Inr:
  assumes "read_device_row row = Inr d"
  shows "d_id d = dw_id row" "dw_kind row = device_kind_label (d_kind d)" "d_revoked_at d = dw_revoked_at row"
    "d_secret_hash d = dw_secret_hash row"
  using assms
  by (auto simp: read_device_row_def parse_device_row_def parse_device_kind_def split: sum.splits option.splits if_splits)

lemma authenticate_Inr:
  assumes "authenticate x ops headers s = (Inr d, s')"
  obtains secret row where "bearer_credential x ops headers = Some (d_id d, secret)"
    "row \<in> set (d_devices (rl_db s))" "read_device_row row = Inr d" "dw_revoked_at row = None"
    "x_secret_matches x secret (dw_secret_hash row)" "s' = s\<lparr>rl_db := (rl_db s)\<lparr>d_stmts := d_stmts (rl_db s) + 1\<rparr>\<rparr>"
proof -
  from assms obtain i secret where c: "bearer_credential x ops headers = Some (i, secret)"
    by (auto simp: authenticate_def split: option.splits)
  with assms obtain db' where f: "find_device i (rl_db s) = (Inr (Some d), db')" and s': "s' = s\<lparr>rl_db := db'\<rparr>"
    and ok: "\<not> is_revoked d" "x_secret_matches x secret (d_secret_hash d)"
    by (auto simp: authenticate_def lift_db_def split: prod.splits sum.splits option.splits if_splits)
  from f show thesis
  proof (rule find_device_row)
    fix row
    assume row: "row \<in> set (d_devices (rl_db s))" "dw_id row = i" "read_device_row row = Inr d"
      "db' = (rl_db s)\<lparr>d_stmts := d_stmts (rl_db s) + 1\<rparr>"
    note fields = read_device_row_Inr [OF row(3)]
    from ok fields have "dw_revoked_at row = None" "x_secret_matches x secret (dw_secret_hash row)"
      by (simp_all add: is_revoked_def)
    with c row s' fields show thesis by (intro that) simp_all
  qed
qed

definition enrolled :: "database \<Rightarrow> string \<Rightarrow> device_kind \<Rightarrow> bool" where
  "enrolled db i kind \<longleftrightarrow> (\<exists>row \<in> set (d_devices db). dw_id row = i \<and> dw_kind row = device_kind_label kind)"

lemma enrolled_mono: "history db db' \<Longrightarrow> enrolled db i kind \<Longrightarrow> enrolled db' i kind"
  unfolding enrolled_def history_def device_kept_def by metis

section \<open>What an operation of the table may add\<close>

definition adds :: "(string \<Rightarrow> entry \<Rightarrow> bool) \<Rightarrow> registry \<Rightarrow> registry \<Rightarrow> bool" where
  "adds P r r' \<longleftrightarrow> (\<forall>d e. map_of (r_entries r') d = Some e \<longrightarrow> map_of (r_entries r) d = Some e \<or> P d e)"

lemma adds_order: "adds P r r" "adds P r r1 \<Longrightarrow> adds P r1 r2 \<Longrightarrow> adds P r r2"
  by (auto simp: adds_def)

lemma adds_mono: "adds P r r' \<Longrightarrow> (\<And>d e. P d e \<Longrightarrow> Q d e) \<Longrightarrow> adds Q r r'"
  by (auto simp: adds_def)

interpretation growth: step_relation "adds P" for P
  by unfold_locales (auto intro: adds_order)

definition spoken_for :: "string \<Rightarrow> tunnel_handle \<Rightarrow> string \<Rightarrow> entry \<Rightarrow> bool" where
  "spoken_for l h d e \<longleftrightarrow> e_origin e = FromLink l \<and> (\<exists>hops. od_route (e_device e) = Via h hops)"

lemma adds_announce: "adds (spoken_for l h) r (snd (announce_device max_hops l h now d r))"
  by (auto simp: adds_def spoken_for_def announce_device_def announce_locked_def next_sequence_def publish_def Let_def
      split: prod.splits if_splits option.splits)

lemma adds_install: "adds (spoken_for l h) r (snd (install_devices max_hops l h now ds inst r))"
proof (induction ds arbitrary: inst r)
  case (Cons d ds)
  then show ?case
    using adds_announce [of l h r max_hops now d] by (auto simp: split_beta Let_def intro: adds_order)
qed (simp add: adds_order)

lemma adds_withdraw: "adds P r (withdraw_device l d now r)"
  by (auto simp: adds_def withdraw_device_entries split: if_splits)

lemma adds_withdraw_all: "adds P r (withdraw_all l now stale r)"
  unfolding withdraw_all_def using adds_withdraw by (rule growth.obeys_fold)

lemma adds_snapshot: "adds (spoken_for l h) r (apply_announcement max_hops l h now ds r)"
  by (auto simp: apply_announcement_def split_beta Let_def intro: adds_order adds_install adds_withdraw_all)

lemma adds_disconnect: "adds P r (snd (disconnect d serial r))"
  by (auto simp: adds_def disconnect_def disconnect_locked_def publish_def remove_entries_map restrict_map_def
      Let_def split_beta split: if_splits)

lemma disconnect_removes:
  "map_of (r_entries (snd (disconnect d serial r))) d = Some e \<Longrightarrow> e_origin e \<noteq> FromTunnel serial"
  by (auto simp: disconnect_def disconnect_locked_def publish_def remove_entries_map restrict_map_def
      Let_def split_beta split: if_splits option.splits)


section \<open>Frames of a device\<close>

text \<open>A frame leaves the store alone but for the clock it reads.\<close>

lemma with_clock_eq: "with_clock f s = f (fst (now_millis (rl_db s))) (s\<lparr>rl_db := snd (now_millis (rl_db s))\<rparr>)"
  by (simp add: with_clock_def lift_db_def split_beta Let_def)

lemma handle_control_frame_adds:
  "adds (\<lambda>d e. kind = Relay \<and> spoken_for (th_device_id h) h d e) (rl_registry s)
     (rl_registry (handle_control_frame x h kind frame s))"
  using adds_snapshot [of "th_device_id h" h "rl_registry s"] adds_announce [of "th_device_id h" h "rl_registry s"]
  by (auto simp: handle_control_frame_def with_clock_eq send_frame_def try_send_def adds_order
      intro: adds_withdraw split: control_frame.split)

definition keeps_attached :: "registry \<Rightarrow> registry \<Rightarrow> bool" where
  "keeps_attached r r' \<longleftrightarrow> (\<forall>d e. map_of (r_entries r) d = Some e \<and> is_direct (od_route (e_device e)) \<and>
      (\<exists>serial. e_origin e = FromTunnel serial) \<longrightarrow> map_of (r_entries r') d = Some e)"

interpretation attach: step_relation keeps_attached
  by unfold_locales (auto simp: keeps_attached_def)

lemma attached_announce: "keeps_attached r (snd (announce_device max_hops l h now d r))"
  by (auto simp: keeps_attached_def announce_device_def announce_locked_def next_sequence_def publish_def Let_def
      dest: replaces_not_direct split: prod.splits if_splits option.splits)

lemma attached_install: "keeps_attached r (snd (install_devices max_hops l h now ds inst r))"
proof (induction ds arbitrary: inst r)
  case (Cons d ds)
  then show ?case
    using attached_announce [of r max_hops l h now d] by (auto simp: split_beta Let_def intro: attach.R_trans)
qed (simp add: attach.R_refl)

lemma attached_withdraw: "keeps_attached r (withdraw_device l d now r)"
  by (auto simp: keeps_attached_def withdraw_device_entries)

lemma attached_snapshot: "keeps_attached r (apply_announcement max_hops l h now ds r)"
proof -
  have "keeps_attached r' (withdraw_all l now stale r')" for r' stale
    unfolding withdraw_all_def using attached_withdraw by (rule attach.obeys_fold)
  from attach.R_trans [OF attached_install this] show ?thesis
    by (simp add: apply_announcement_def split_beta Let_def)
qed

lemma handle_control_frame_attached:
  "keeps_attached (rl_registry s) (rl_registry (handle_control_frame x h kind frame s))"
  by (auto simp: handle_control_frame_def with_clock_eq send_frame_def try_send_def attach.R_refl
      attached_snapshot attached_announce attached_withdraw split: control_frame.split)

lemma handle_control_frame_db:
  "same_tables (rl_db s) (rl_db (handle_control_frame x h kind frame s))"
  by (auto simp: handle_control_frame_def with_clock_eq send_frame_def try_send_def same.R_refl same_tables_def
      now_millis_def split: control_frame.split)

section \<open>Connecting\<close>

lemma revoking_record: "revoking s (swallow (record_device_connection i ip v) s)"
proof -
  have "list_all2 row_kept ds (update_where (\<lambda>r. dw_id r = i) (\<lambda>r. r\<lparr>dw_last_seen_at := Some now,
      dw_last_ip := Some ip, dw_last_version := Some v\<rparr>) ds)" for ds now
    by (induction ds) (simp_all add: update_where_def row_kept_def)
  then show ?thesis
    by (simp add: swallow_def record_device_connection_def with_now_def now_millis_def discard_def bindE_def okE_def
        update_devices_def statement_cases revoking_def list_all2_refl_rows)
qed

lemma revoking_audit: "revoking s (snd (audit x e s))"
  by (rule rv.obeysD [OF rv_audit]) (simp add: prod_eq_iff)

lemma register_eq:
  assumes "register x p s = (serial, s')"
  obtains now where "serial = r_sequence (rl_registry s)" "rl_registry s' = snd (connect p now (rl_registry s))"
    "rl_db s' = snd (now_millis (rl_db s))"
    "rl_outbox s' = rl_outbox (case reg_displaced (fst (connect p now (rl_registry s))) of
        Some g \<Rightarrow> close_tunnel g (x_close_going_away x) reason_replaced s | None \<Rightarrow> s)"
  using assms
  by (auto simp: register_def with_clock_eq split_beta Let_def connect_serial close_tunnel_def try_send_def pending_def
      split: option.splits if_splits)

lemma tunnel_connect_eq:
  assumes "tunnel_connect x d peer h hello s = (serial, s')"
  obtains s1 e where "register x (presence_of d peer h hello) s = (serial, s1)"
    "s' = snd (audit x e (swallow (record_device_connection (d_id d) peer (he_version hello)) s1))"
  using assms by (auto simp: tunnel_connect_def Let_def split: prod.splits)

lemma revoking_connect:
  "revoking s (snd (audit x e (swallow (record_device_connection i peer v) s)))"
  "rl_outbox (snd (audit x e (swallow (record_device_connection i peer v) s))) = rl_outbox s"
  using rv.R_trans [OF revoking_record revoking_audit] by (auto simp: audit_eq swallow_def)

section \<open>Concrete runs\<close>

definition tunnel_headers :: "(string \<times> string) list" where
  "tunnel_headers = [(''authorization'', ''Bearer desk:s'')]"

definition desk_handle :: tunnel_handle where
  "desk_handle = \<lparr>th_device_id = ''desk'', th_channel = 7\<rparr>"

definition desk_hello :: hello where
  "desk_hello = \<lparr>he_kind = Desktop, he_version = ''1.0'', he_relay_id = None\<rparr>"

lemma sample_credential: "bearer_credential sample_x list_headers tunnel_headers = Some (''desk'', ''s'')"
proof -
  have "trim ''desk:s'' = ''desk:s''" by (rule trim_graphic) (simp_all add: graphic_def)
  moreover have "strip_prefix ''Bearer '' ''Bearer desk:s'' = Some ''desk:s''" by code_simp
  moreover have "header_value list_headers tunnel_headers ''authorization'' = Some ''Bearer desk:s''" by code_simp
  moreover have "split_once (CHR '':'') ''desk:s'' = Some (''desk'', ''s'')" by code_simp
  ultimately show ?thesis by (simp add: bearer_credential_def sample_x_def)
qed

lemma sample_upgrade:
  "upgrade sample_x list_headers tunnel_headers ''192.0.2.7'' sample_relay =
     (Inr sample_device_record, sample_relay\<lparr>rl_db := (rl_db sample_relay)\<lparr>d_stmts := 1\<rparr>\<rparr>)"
  by (simp add: upgrade_def bindE_def refuse_locked_eq authenticate_def sample_credential lift_db_def sample_device_found
      clear_failures_def modify_def okE_def) (simp add: sample_x_def sample_relay_def sample_device_record_def is_revoked_def)

lemma sample_revocation:
  assumes "d_fail (rl_db s) = (\<lambda>_. False)"
  obtains s' where "revoke x i actor ip s = (Inr (), s')"
  using succeeds_revoke [of "d_users (rl_db s)" "d_devices (rl_db s)" s i "\<lambda>_ _. True" x actor ip] assms
  by (auto simp: succeeds_def calm_def)

section \<open>Properties\<close>

lemma read_frames_relates:
  assumes "step_relation R" and "\<And>f s. R s (handle_control_frame x h kind f s)"
  shows "R s (snd (read_frames x h kind events s))"
proof (induction events arbitrary: s)
  case Nil
  show ?case by (simp add: step_relation.R_refl [OF assms(1)])
next
  case (Cons event events)
  have "R s (snd (read_frames x h kind events (handle_control_frame x h kind f s)))" for f
    using assms(2) Cons by (rule step_relation.R_trans [OF assms(1)])
  then show ?case
    using Cons by (auto simp: step_relation.R_refl [OF assms(1)] split: read_event.split option.split)
qed

lemma read_frames_desktop: "rl_registry (snd (read_frames x h Desktop events s)) = rl_registry s"
  by (rule read_frames_relates [of "\<lambda>s s'. rl_registry s' = rl_registry s"])
     (unfold_locales, auto simp: handle_control_frame_def send_frame_def try_send_def split: control_frame.split)

text \<open>What a caller has to present: an \<^verbatim>\<open>Authorization\<close> header that reads \<^verbatim>\<open>Bearer\<close>, a space and a credential which names an
  unrevoked row, with the secret of that row.\<close>

definition presents :: "'l externals \<Rightarrow> ('h, 'v) header_ops \<Rightarrow> 'h \<Rightarrow> database \<Rightarrow> device_record \<Rightarrow> bool" where
  "presents x ops headers db d \<longleftrightarrow> (\<exists>row \<in> set (d_devices db). \<exists>token secret.
     header_value ops headers ''authorization'' = Some (''Bearer '' @ token) \<and>
     x_parse_credential x (trim token) = Some (dw_id row, secret) \<and>
     read_device_row row = Inr d \<and> dw_revoked_at row = None \<and> x_secret_matches x secret (dw_secret_hash row))"

lemma bearer_credential_Some:
  "bearer_credential x ops headers = Some c \<longleftrightarrow>
   (\<exists>token. header_value ops headers ''authorization'' = Some (''Bearer '' @ token) \<and> x_parse_credential x (trim token) = Some c)"
  unfolding bearer_credential_def bind_eq_Some_conv strip_prefix_Some by blast

lemma find_by_key: "distinct (map f xs) \<Longrightarrow> a \<in> set xs \<Longrightarrow> find (\<lambda>b. f b = f a) xs = Some a"
  by (induction xs) auto

lemma find_present_device:
  assumes "devices_ok (d_devices db)" "row \<in> set (d_devices db)" "read_device_row row = Inr d" "\<not> d_fail db (d_stmts db)"
  shows "\<exists>db'. find_device (dw_id row) db = (Inr (Some d), db')"
proof -
  have "find (\<lambda>r. dw_id r = dw_id row) (d_devices db) = Some row"
    using assms(1,2) by (intro find_by_key) (simp_all add: devices_ok_def)
  with assms(3,4) show ?thesis by (simp add: find_device_def flatten_query first_row_def)
qed

lemma presented_authenticates:
  assumes "presents x ops headers (rl_db s) d" "db_inv (rl_db s)" "\<not> d_fail (rl_db s) (d_stmts (rl_db s))"
  shows "\<exists>s1. authenticate x ops headers s = (Inr d, s1)"
proof -
  from assms(1) obtain row secret where row: "row \<in> set (d_devices (rl_db s))" "read_device_row row = Inr d" "dw_revoked_at row = None"
    "x_secret_matches x secret (dw_secret_hash row)" "bearer_credential x ops headers = Some (dw_id row, secret)"
    by (auto simp: presents_def bearer_credential_Some)
  from find_present_device [OF _ row(1,2) assms(3)] assms(2) obtain db' where "find_device (dw_id row) (rl_db s) = (Inr (Some d), db')"
    by (auto simp: db_inv_def)
  with row show ?thesis using read_device_row_Inr [OF row(2)] by (simp add: authenticate_def lift_db_def is_revoked_def)
qed

text \<open>C19: the tunnel endpoint hands a socket on exactly for a caller that is not locked out and whose bearer
  credential names an unrevoked row with a matching secret, and then forgets the caller's failures: nobody else is admitted, and
  such a caller is always admitted, as long as the store is consistent and the lookup itself does not fail.
  Every other caller counts one more failure and hears one and the same answer, whatever was wrong with
  the credential; a locked-out caller changes nothing.\<close>

theorem upgrade_exact:
  "(case upgrade x ops headers ip s of
      (Inr d, s') \<Rightarrow> \<not> x_is_locked x (rl_lockout s) ip \<and> rl_lockout s' = x_lock_clear x (rl_lockout s) ip \<and>
        presents x ops headers (rl_db s) d
    | (Inl e, s') \<Rightarrow>
        if x_is_locked x (rl_lockout s) ip then e = unauthorized LockedOut \<and> s' = s
        else e = unauthorized InvalidCredential \<and> rl_lockout s' = x_record_failure x (rl_lockout s) ip) \<and>
   (\<not> x_is_locked x (rl_lockout s) ip \<and> presents x ops headers (rl_db s) d \<and> db_inv (rl_db s) \<and>
      \<not> d_fail (rl_db s) (d_stmts (rl_db s)) \<longrightarrow> fst (upgrade x ops headers ip s) = Inr d)"
proof (cases "x_is_locked x (rl_lockout s) ip")
  case True
  then show ?thesis by (simp add: upgrade_def bindE_def refuse_locked_eq)
next
  case False
  obtain r s1 where a: "authenticate x ops headers s = (r, s1)" by fastforce
  have "rl_lockout s1 = rl_lockout s"
    using a by (auto simp: authenticate_def lift_db_def split: prod.splits sum.splits option.splits if_splits)
  moreover have "presents x ops headers (rl_db s) d" if "r = Inr d" for d
  proof (rule authenticate_Inr [OF a [unfolded that]])
    fix secret row
    assume row: "bearer_credential x ops headers = Some (d_id d, secret)" "row \<in> set (d_devices (rl_db s))"
      "read_device_row row = Inr d" "dw_revoked_at row = None" "x_secret_matches x secret (dw_secret_hash row)"
    with read_device_row_Inr(1) [OF row(3)] show ?thesis unfolding presents_def by (metis bearer_credential_Some)
  qed
  moreover have "r = Inr d" if "presents x ops headers (rl_db s) d" "db_inv (rl_db s)" "\<not> d_fail (rl_db s) (d_stmts (rl_db s))"
    using presented_authenticates [OF that] a by auto
  ultimately show ?thesis
    using False a by (cases r) (auto simp: upgrade_def bindE_def refuse_locked_eq record_failure_def clear_failures_def
      modify_def audit_eq okE_def errE_def)
qed

theorem upgrade_exact_witness:
  "fst (upgrade sample_x list_headers tunnel_headers ''192.0.2.7'' sample_relay) = Inr sample_device_record"
proof -
  have "trim ''desk:s'' = ''desk:s''" by (rule trim_graphic) (simp_all add: graphic_def)
  moreover have "header_value list_headers tunnel_headers ''authorization'' = Some (''Bearer '' @ ''desk:s'')"
    "split_once (CHR '':'') ''desk:s'' = Some (''desk'', ''s'')" by code_simp+
  moreover have "read_device_row sample_device_row = Inr sample_device_record"
    using read_sample_device [of None] by (simp add: sample_device_row_def sample_device_record_def)
  ultimately have "presents sample_x list_headers tunnel_headers (rl_db sample_relay) sample_device_record"
    unfolding presents_def by (intro bexI [of _ sample_device_row] exI [of _ "''desk:s''"] exI [of _ "''s''"])
      (simp_all add: sample_x_def sample_relay_def sample_device_row_def)
  moreover have "db_inv (rl_db sample_relay)"
    using sample_db_inv by (simp add: relay_samples db_inv_def users_ok_def devices_ok_def owners_ok_def)
      (metis access_str.simps device_kind_label.simps role_str.simps)
  moreover have "\<not> x_is_locked sample_x (rl_lockout sample_relay) ''192.0.2.7''" "\<not> d_fail (rl_db sample_relay) (d_stmts (rl_db sample_relay))"
    by (simp_all add: relay_samples)
  ultimately show ?thesis using upgrade_exact [where x = sample_x and ops = list_headers and headers = tunnel_headers and ip = "''192.0.2.7''" and s = sample_relay]
    by blast
qed

text \<open>C20: whatever a device sends over its tunnel, a desktop changes no route at all; a downstream relay never
  touches the route of a directly connected device, and every route that is new afterwards leads through
  its own tunnel. Accounts, sessions and device rows are not changed by frames.\<close>

theorem frames_cannot_hijack:
  assumes "registry_inv (x_max_hops x) (rl_registry s)" "read_frames x h kind events s = (cause, s')"
  shows "(kind = Desktop \<longrightarrow> rl_registry s' = rl_registry s) \<and>
    (\<forall>d g. route (rl_registry s) d = Some (Direct g) \<longrightarrow> route (rl_registry s') d = Some (Direct g)) \<and>
    (\<forall>d rt. route (rl_registry s') d = Some rt \<longrightarrow> route (rl_registry s) d = Some rt \<or> (\<exists>hops. rt = Via h hops)) \<and>
    same_tables (rl_db s) (rl_db s')"
proof (intro conjI allI impI)
  have s': "s' = snd (read_frames x h kind events s)" using assms(2) by simp
  show "kind = Desktop \<Longrightarrow> rl_registry s' = rl_registry s" using s' read_frames_desktop by blast
  show "same_tables (rl_db s) (rl_db s')"
    unfolding s' by (rule read_frames_relates [of "\<lambda>s s'. same_tables (rl_db s) (rl_db s')"])
      (unfold_locales, auto intro: handle_control_frame_db same.R_refl same.R_trans)
  have kept: "keeps_attached (rl_registry s) (rl_registry s')"
    unfolding s' by (rule read_frames_relates [of "\<lambda>s s'. keeps_attached (rl_registry s) (rl_registry s')"])
      (unfold_locales, auto intro: handle_control_frame_attached attach.R_refl attach.R_trans)
  have new: "adds (spoken_for (th_device_id h) h) (rl_registry s) (rl_registry s')"
    unfolding s' by (rule read_frames_relates [of "\<lambda>s s'. adds (spoken_for (th_device_id h) h) (rl_registry s) (rl_registry s')"])
      (unfold_locales, auto intro: adds_order adds_mono [OF handle_control_frame_adds])
  fix d
  show "route (rl_registry s') d = Some (Direct g)" if "route (rl_registry s) d = Some (Direct g)" for g
  proof -
    from that obtain e where e: "map_of (r_entries (rl_registry s)) d = Some e" "od_route (e_device e) = Direct g"
      by (auto simp: route_def)
    from assms(1) e(1) have "origin_matches (x_max_hops x) (r_relay_id (rl_registry s)) e"
      unfolding registry_inv_def entries_ok_def by blast
    with e(2) have "\<exists>serial. e_origin e = FromTunnel serial" by (cases "e_origin e") simp_all
    with e kept have "map_of (r_entries (rl_registry s')) d = Some e" by (auto simp: keeps_attached_def)
    with e show ?thesis by (simp add: route_def)
  qed
  show "route (rl_registry s) d = Some rt \<or> (\<exists>hops. rt = Via h hops)" if "route (rl_registry s') d = Some rt" for rt
    using that new by (fastforce simp: route_def adds_def spoken_for_def)
qed

theorem frames_cannot_hijack_witness:
  "let s' = snd (read_frames sample_x desk_handle Desktop [ReadText (Some (DeviceOnline ''link'' ''x'' []))] sample_relay)
   in rl_registry s' = rl_registry sample_relay \<and>
      route (rl_registry s') ''link'' = Some (Direct (dp_handle sample_link))"
proof -
  obtain cause s' where r: "read_frames sample_x desk_handle Desktop [ReadText (Some (DeviceOnline ''link'' ''x'' []))]
      sample_relay = (cause, s')" by fastforce
  have "registry_inv (x_max_hops sample_x) (rl_registry sample_relay)"
    using sample_table_inv by (simp add: sample_x_def sample_relay_def)
  moreover have "route (rl_registry sample_relay) ''link'' = Some (Direct (dp_handle sample_link))"
    by (simp add: sample_relay_def sample_table_def route_def connect_entry sample_link_def)
  ultimately show ?thesis using frames_cannot_hijack [OF _ r] r by simp
qed

text \<open>An administrator who revokes a device between its credential check and its registration is told
  that it worked, yet the device is routed to by its new tunnel afterwards and nothing has told that
  tunnel to close: \<^verbatim>\<open>run\<close> never looks at the row again.\<close>

lemma revocation_during_handshake:
  assumes "upgrade x ops headers ip s = (Inr d, s1)" "route (rl_registry s1) (d_id d) = None"
    and rev: "revoke x (d_id d) actor ip' s1 = (Inr u, s2)"
    and fresh: "\<forall>m \<in> set (rl_outbox s2). th_channel (fst m) \<noteq> th_channel h"
    and con: "tunnel_connect x d peer h hello s2 = (serial, s3)"
  shows "(\<forall>row \<in> set (d_devices (rl_db s3)). dw_id row = d_id d \<longrightarrow> dw_revoked_at row \<noteq> None) \<and>
    route (rl_registry s3) (d_id d) = Some (Direct h) \<and> rl_outbox s3 = rl_outbox s2 \<and> pending h s3 = []"
proof -
  have same: "rl_registry s2 = rl_registry s1" using rv.obeysD [OF rv_revoke rev] by (simp add: revoking_def)
  have cut: "revoked_told x s2 (d_id d)" by (rule revoke_tells [OF rev])
  let ?p = "presence_of d peer h hello"
  from con obtain s' e where reg: "register x ?p s2 = (serial, s')"
    and s3: "s3 = snd (audit x e (swallow (record_device_connection (d_id d) peer (he_version hello)) s'))"
    by (rule tunnel_connect_eq)
  have rest: "revoking s' s3" "rl_outbox s3 = rl_outbox s'" unfolding s3 by (rule revoking_connect)+
  from reg show ?thesis
  proof (rule register_eq)
    fix now
    assume c: "rl_registry s' = snd (connect ?p now (rl_registry s2))" "rl_db s' = snd (now_millis (rl_db s2))"
      "rl_outbox s' = rl_outbox (case reg_displaced (fst (connect ?p now (rl_registry s2))) of
        Some g \<Rightarrow> close_tunnel g (x_close_going_away x) reason_replaced s2 | None \<Rightarrow> s2)"
    have "reg_displaced (fst (connect ?p now (rl_registry s2))) = None"
      using assms(2) same
      by (simp add: route_def presence_of_def connect_def connect_locked_def next_sequence_def Let_def)
    with c rest have out: "rl_outbox s3 = rl_outbox s2" by simp
    moreover have "rl_registry s3 = snd (connect ?p now (rl_registry s2))" using c rest by (simp add: revoking_def)
    then have "route (rl_registry s3) (d_id d) = Some (Direct h)" by (simp add: route_def connect_entry presence_of_def)
    moreover have "pending h s3 = []" using fresh by (auto simp: pending_def out filter_empty_conv)
    moreover have "dw_revoked_at row \<noteq> None" if row: "row \<in> set (d_devices (rl_db s3))" "dw_id row = d_id d" for row
    proof -
      have "d_devices (rl_db s') = d_devices (rl_db s2)" using c(2) by (simp add: now_millis_def)
      with rest row obtain r where "r \<in> set (d_devices (rl_db s2))" "row_kept r row"
        unfolding revoking_def by (metis list_all2_row)
      with cut row show ?thesis by (auto simp: revoked_told_def row_kept_def)
    qed
    ultimately show ?thesis by blast
  qed
qed

theorem revocation_during_handshake_witness:
  "\<exists>s2 s3 serial. revoke sample_x ''desk'' ''u1'' ''192.0.2.8''
       (snd (upgrade sample_x list_headers tunnel_headers ''192.0.2.7'' sample_relay)) = (Inr (), s2) \<and>
     tunnel_connect sample_x sample_device_record ''192.0.2.7'' desk_handle desk_hello s2 = (serial, s3) \<and>
     route (rl_registry s3) ''desk'' = Some (Direct desk_handle) \<and> pending desk_handle s3 = []"
proof -
  let ?s1 = "sample_relay\<lparr>rl_db := (rl_db sample_relay)\<lparr>d_stmts := 1\<rparr>\<rparr>"
  have id: "d_id sample_device_record = ''desk''" by (simp add: sample_device_record_def)
  have "d_fail (rl_db ?s1) = (\<lambda>_. False)" by (simp add: sample_relay_def sample_users_db_def sample_db_def)
  then obtain s2 where s2: "revoke sample_x ''desk'' ''u1'' ''192.0.2.8'' ?s1 = (Inr (), s2)"
    by (rule sample_revocation)
  have none: "route (rl_registry ?s1) ''desk'' = None"
    by (simp add: sample_relay_def sample_table_def route_def connect_entry sample_link_def new_registry_def)
  then have "rl_outbox s2 = []"
    using s2 by (auto simp: revoke_def bindE_Inr in_db_Inr modify_def audit_eq okE_def sample_relay_def split: if_splits)
  moreover obtain serial s3 where s3: "tunnel_connect sample_x sample_device_record ''192.0.2.7'' desk_handle desk_hello s2 = (serial, s3)"
    by fastforce
  ultimately show ?thesis
    using revocation_during_handshake [OF sample_upgrade _ _ _ s3, of "''u1''" "''192.0.2.8''" "()"] none s2
    by (simp add: sample_upgrade id)
qed

text \<open>When the queue of a tunnel is full, revoking its device succeeds and marks the row, but neither
  the revocation frame nor the close reaches the queue: the tunnel stays registered and is not told.\<close>

lemma full_queue_outlives_revocation:
  assumes "route (rl_registry s) i = Some rt" "command_capacity \<le> length (pending (route_link rt) s)"
    and rev: "revoke x i actor ip s = (Inr u, s')"
  shows "(\<forall>row \<in> set (d_devices (rl_db s')). dw_id row = i \<longrightarrow> dw_revoked_at row \<noteq> None) \<and>
    route (rl_registry s') i = Some rt \<and> rl_outbox s' = rl_outbox s"
proof -
  have "rl_registry s' = rl_registry s" using rv.obeysD [OF rv_revoke rev] by (simp add: revoking_def)
  moreover have "revoked_told x s' i" by (rule revoke_tells [OF rev])
  moreover have "rl_outbox s' = rl_outbox s"
    using rev assms(1,2)
    by (auto simp: revoke_def bindE_Inr in_db_Inr modify_def audit_eq okE_def revoke_tunnel_def close_tunnel_def
        send_frame_def try_send_def pending_def split: if_splits)
  ultimately show ?thesis using assms(1) by (simp add: revoked_told_def)
qed


theorem full_queue_outlives_revocation_witness:
  "\<exists>s'. revoke sample_x ''link'' ''u1'' ''192.0.2.8'' (sample_relay\<lparr>rl_outbox := replicate 64 (dp_handle sample_link, Control Pong)\<rparr>)
       = (Inr (), s') \<and> route (rl_registry s') ''link'' = Some (Direct (dp_handle sample_link)) \<and>
     rl_outbox s' = replicate 64 (dp_handle sample_link, Control Pong)"
proof -
  let ?s = "sample_relay\<lparr>rl_outbox := replicate 64 (dp_handle sample_link, Control Pong)\<rparr>"
  have "d_fail (rl_db ?s) = (\<lambda>_. False)" by (simp add: sample_relay_def sample_users_db_def sample_db_def)
  then obtain s' where s': "revoke sample_x ''link'' ''u1'' ''192.0.2.8'' ?s = (Inr (), s')" by (rule sample_revocation)
  have rt: "route (rl_registry ?s) ''link'' = Some (Direct (dp_handle sample_link))"
    by (simp add: sample_relay_def sample_table_def route_def connect_entry sample_link_def)
  have "command_capacity \<le> length (pending (route_link (Direct (dp_handle sample_link))) ?s)"
    by (simp add: pending_def command_capacity_def)
  from full_queue_outlives_revocation [OF rt this s'] s' show ?thesis by simp
qed

text \<open>Revoking a device that is reached through a downstream relay tells that relay's own tunnel that it is
  revoked and closes it, although the relay's row is untouched: the frame goes to the link of the
  route, whoever the route is for.\<close>

lemma revocation_hits_link:
  assumes "route (rl_registry s) i = Some (Via h hops)" "length (pending h s) + 2 \<le> command_capacity"
    and rev: "revoke x i actor ip s = (Inr u, s')"
  shows "rl_outbox s' = rl_outbox s @ [(h, Control (Revoked revoked_reason)), (h, Close (x_close_revoked x) revoked_reason)] \<and>
    (\<forall>row \<in> set (d_devices (rl_db s)). dw_id row \<noteq> i \<longrightarrow> row \<in> set (d_devices (rl_db s')))"
proof
  show "rl_outbox s' = rl_outbox s @ [(h, Control (Revoked revoked_reason)), (h, Close (x_close_revoked x) revoked_reason)]"
    using rev assms(1,2)
    by (auto simp: revoke_def bindE_Inr in_db_Inr modify_def audit_eq okE_def revoke_tunnel_def close_tunnel_def
        send_frame_def try_send_def pending_def split: if_splits)
  from rev assms(1) obtain b db1 where v: "revoke_device i (rl_db s) = (Inr b, db1)" "d_devices (rl_db s') = d_devices db1"
    by (auto simp: revoke_def bindE_Inr in_db_Inr modify_def audit_eq okE_def revoke_tunnel_def close_tunnel_def
        send_frame_def try_send_def split: if_splits)
  from v(1) show "\<forall>row \<in> set (d_devices (rl_db s)). dw_id row \<noteq> i \<longrightarrow> row \<in> set (d_devices (rl_db s'))"
    by (rule revoke_device_Inr) (force simp: v(2) set_update_where)
qed

theorem revocation_hits_link_witness:
  "\<exists>s'. revoke sample_x ''far'' ''u1'' ''192.0.2.8'' (sample_relay\<lparr>rl_registry := sample_routed\<rparr>) = (Inr (), s') \<and>
     rl_outbox s' = [(dp_handle sample_link, Control (Revoked revoked_reason)),
       (dp_handle sample_link, Close 4001 revoked_reason)]"
proof -
  let ?s = "sample_relay\<lparr>rl_registry := sample_routed\<rparr>"
  have "d_fail (rl_db ?s) = (\<lambda>_. False)" by (simp add: sample_relay_def sample_users_db_def sample_db_def)
  then obtain s' where s': "revoke sample_x ''far'' ''u1'' ''192.0.2.8'' ?s = (Inr (), s')" by (rule sample_revocation)
  have rt: "route (rl_registry ?s) ''far'' = Some (Via (dp_handle sample_link) [''B''])"
    by (simp add: route_def sample_routed_entries announced_entry_def sample_device_def)
  have "length (pending (dp_handle sample_link) ?s) + 2 \<le> command_capacity"
    by (simp add: pending_def command_capacity_def sample_relay_def)
  from revocation_hits_link [OF rt this s'] s' show ?thesis by (simp add: sample_relay_def sample_x_def)
qed

end
