(* ===== verification/Relay_System.thy ===== *)
theory Relay_System
  imports Federation Tunnel_Laws
begin

text \<open>
  The relay as a whole: requests of the console and of browsers, tunnels being upgraded, admitted, served and
  cleaned up, and writers draining their queues, as one step relation over the shared state
  (\<^verbatim>\<open>src/server.rs\<close>, \<^verbatim>\<open>src/tunnel/\<close>, \<^verbatim>\<open>src/api/\<close>). Its invariant ties the routing table to the tunnels that
  are served and to the rows of the store. \<open>Relay_Node\<close> adds the link to an upstream relay.
\<close>

section \<open>Browsing leaves the table alone\<close>

text \<open>A request that is dispatched to the console or to a device reads the store, renews or drops a session,
  and changes nothing else.\<close>

context reader_relation
begin

lemma reads_lift: "store.obeys m \<Longrightarrow> lift_db m s = (r, s') \<Longrightarrow> S s s'"
  by (rule obeysD [OF obeys_lift_db])

lemma reads_now: "lift_db now_millis s = (now, s') \<Longrightarrow> S s s'"
  by (rule reads_lift) (auto simp: store.obeys_def now_millis_def store.R_env)

lemma reads_first_signed_in: "first_signed_in x now tokens s = (u, s') \<Longrightarrow> S s s'"
proof (induction tokens arbitrary: s)
  case Nil
  then show ?case by (simp add: R_refl)
next
  case (Cons token tokens)
  obtain r s1 where r: "lift_db (resolve_session (x_hash_secret x) token now) s = (r, s1)" by fastforce
  then have "S s s1" by (rule reads_lift [rotated]) (rule store.obeys_resolve)
  with Cons r show ?case by (auto intro: R_trans split: sum.splits option.splits)
qed

lemma reads_signed_in_user: "signed_in_user x ops headers s = (u, s') \<Longrightarrow> S s s'"
  unfolding signed_in_user_def
  by (auto dest!: reads_now reads_first_signed_in intro: R_trans split: prod.splits)

lemma reads_guard: "guard x ops headers device t q s = (r, s') \<Longrightarrow> S s s'"
  by (auto simp: guard_def R_refl dest: reads_signed_in_user split: option.splits if_splits prod.splits)

lemma reads_offline: "offline_page n l s = (r, s') \<Longrightarrow> S s s'"
  by (auto simp: offline_page_def dest: reads_now split: prod.splits)

lemma reads_unreachable: "unreachable_page i device s = (r, s') \<Longrightarrow> S s s'"
  by (auto simp: unreachable_page_def R_refl dest: reads_offline split: option.splits)

lemma reads_bridge: "bridge_websocket p uri headers s = (r, s') \<Longrightarrow> S s s'"
  by (auto simp: bridge_websocket_def Let_def R_refl dest: reads_offline
      split: option.splits sum.splits if_splits)

lemma reads_forward:
  assumes "forward x p client t rq s = (r, s')"
  shows "S s s'"
proof -
  obtain dev s1 where f: "lift_db (find_device (dt_device_id t)) s = (dev, s1)" by fastforce
  then have e1: "S s s1" by (rule reads_lift [rotated]) (rule store.obeys_reads)
  show ?thesis
  proof (cases dev)
    case (Inr device)
    obtain g s2 where g: "guard x (po_headers p) (rq_headers rq) device t (rq_query rq) s1 = (g, s2)" by fastforce
    have "S s2 s'"
      using assms f g unfolding forward_def Inr
      by (auto simp: Let_def R_refl dest: reads_unreachable reads_bridge
          split: option.splits if_splits exchange.splits)
    with e1 reads_guard [OF g] show ?thesis by (blast intro: R_trans)
  qed (use assms f e1 in \<open>simp add: forward_def Let_def\<close>)
qed

lemma reads_to_device: "forward_to_device x p t rq s = (r, s') \<Longrightarrow> S s s'"
  by (auto simp: forward_to_device_def Let_def R_refl dest: reads_forward split: option.splits)

lemma reads_dispatch: "dispatch x p assets rq s = (r, s') \<Longrightarrow> S s s'"
  by (auto simp: dispatch_def Let_def R_refl dest: reads_to_device
      split: option.splits device_path.splits if_splits)

lemma reads_host: "route_device_host x p (dispatch x p assets) rq s = (r, s') \<Longrightarrow> S s s'"
  by (auto simp: route_device_host_def dest: reads_to_device reads_dispatch split: option.splits)

lemma reads_snd: "obeys m \<Longrightarrow> S s (snd (m s))"
  by (simp add: obeys_def)

lemma reads_authenticate: "authenticate x ops headers s = (r, s') \<Longrightarrow> S s s'"
  by (auto simp: authenticate_def R_refl dest!: reads_lift [OF store.obeys_reads(6)]
      split: option.splits prod.splits sum.splits if_splits)

lemma obeys_upgrade: "obeys (upgrade x ops headers ip)"
proof -
  have "S s (snd (case authenticate x ops headers s of
         (Inl reason, s1) \<Rightarrow>
           bindE (record_failure x ip) (\<lambda>_.
           bindE (audit x (audit_detail ''reason'' (JStr reason)
               (audit_from_ip ip (audit_new ActorDevice ''tunnel-rejected'')))) (\<lambda>_.
             errE (unauthorized InvalidCredential))) s1
       | (Inr device, s1) \<Rightarrow> bindE (clear_failures x ip) (\<lambda>_. okE device) s1))" for s
  proof -
    obtain r s1 where a: "authenticate x ops headers s = (r, s1)" by fastforce
    note e = reads_authenticate [OF a]
    have "obeys (bindE (record_failure x ip) (\<lambda>_. bindE (audit x en) (\<lambda>_. errE e)) ::
          'l relay \<Rightarrow> (api_error + device_record) \<times> 'l relay)"
      "obeys (bindE (clear_failures x ip) (\<lambda>_. okE (d :: device_record)))" for en e d
      by (intro obeys_intros obeys_lockout obeys_audit)+
    then show ?thesis
      unfolding a by (cases r) (auto intro: R_trans [OF e reads_snd])
  qed
  then show ?thesis
    unfolding upgrade_def by (intro obeys_bind obeys_lockout) (simp add: obeys_def)
qed

end

lemmas effect_host = handlers.reads_host
lemmas effect_upgrade = handlers.obeysD [OF handlers.obeys_upgrade]

section \<open>The whole relay\<close>

text \<open>
  The shared state together with the tasks that serve tunnels. A task is accepted once the credential has
  been checked and runs once its hello has been answered and its tunnel is registered; \<open>sy_next\<close> is the
  next unused channel. Each step is one call that holds no lock across an await point: a request of the API
  or of a browser, the upgrade of a tunnel, one frame of a device, the clean-up of a tunnel, and the writer
  of a tunnel taking the oldest message of its queue. The table's own log lists the changes in the order in which they reached it; that
  they are sent to subscribers later is part of \<open>Relay_Node\<close>. A tunnel whose reading loop has ended queues a close
  first and is taken out of the table later, when its writer has ended.
\<close>

datatype phase = Accepted | Running u64 device_kind

record tunnel_task =
  tt_device :: device_record
  tt_peer :: string
  tt_handle :: tunnel_handle
  tt_phase :: phase

record 'l system =
  sy_relay :: "'l relay"
  sy_tasks :: "tunnel_task list"
  sy_next :: nat

inductive system_step ::
  "'l externals \<Rightarrow> ('h, 'v, 'u, 's, 'w) proxy_ops \<Rightarrow> (string \<Rightarrow> string option) \<Rightarrow> 'l system \<Rightarrow> 'l system \<Rightarrow> bool"
  for x :: "'l externals" and p :: "('h, 'v, 'u, 's, 'w) proxy_ops" and assets :: "string \<Rightarrow> string option" where
  Api: "system_step x p assets y (y\<lparr>sy_relay := exec_api x (po_headers p) call (sy_relay y)\<rparr>)"
| Browse: "route_device_host x p (dispatch x p assets) rq (sy_relay y) = (answer, s) \<Longrightarrow>
    system_step x p assets y (y\<lparr>sy_relay := s\<rparr>)"
| Refused: "upgrade x (po_headers p) headers ip (sy_relay y) = (Inl e, s) \<Longrightarrow>
    system_step x p assets y (y\<lparr>sy_relay := s\<rparr>)"
| Upgraded: "upgrade x (po_headers p) headers ip (sy_relay y) = (Inr d, s) \<Longrightarrow>
    system_step x p assets y (y\<lparr>sy_relay := s, sy_next := sy_next y + 1,
      sy_tasks := \<lparr>tt_device = d, tt_peer = ip, tt_handle = \<lparr>th_device_id = d_id d, th_channel = sy_next y\<rparr>,
        tt_phase = Accepted\<rparr> # sy_tasks y\<rparr>)"
| Rejected: "t \<in> set (sy_tasks y) \<Longrightarrow> tt_phase t = Accepted \<Longrightarrow>
    accept_hello x (sy_relay y) (tt_device t) frame sent = (None, (answer :: unit ws_message list)) \<Longrightarrow>
    system_step x p assets y (y\<lparr>sy_tasks := remove1 t (sy_tasks y)\<rparr>)"
| Connected: "t \<in> set (sy_tasks y) \<Longrightarrow> tt_phase t = Accepted \<Longrightarrow>
    accept_hello x (sy_relay y) (tt_device t) frame sent = (Some hello, (answer :: unit ws_message list)) \<Longrightarrow>
    tunnel_connect x (tt_device t) (tt_peer t) (tt_handle t) hello (sy_relay y) = (serial, s) \<Longrightarrow>
    system_step x p assets y (y\<lparr>sy_relay := s,
      sy_tasks := t\<lparr>tt_phase := Running serial (he_kind hello)\<rparr> # remove1 t (sy_tasks y)\<rparr>)"
| Frame: "t \<in> set (sy_tasks y) \<Longrightarrow> tt_phase t = Running serial kind \<Longrightarrow>
    system_step x p assets y (y\<lparr>sy_relay := handle_control_frame x (tt_handle t) kind frame (sy_relay y)\<rparr>)"
| Leaves: "t \<in> set (sy_tasks y) \<Longrightarrow> tt_phase t = Running serial kind \<Longrightarrow>
    system_step x p assets y (y\<lparr>sy_relay := tunnel_leave x (tt_handle t) (sy_relay y)\<rparr>)"
| Ended: "t \<in> set (sy_tasks y) \<Longrightarrow> tt_phase t = Running serial kind \<Longrightarrow>
    system_step x p assets y (y\<lparr>sy_relay :=
        tunnel_disconnect x (tt_device t) (tt_peer t) serial cause (sy_relay y),
      sy_tasks := remove1 t (sy_tasks y)\<rparr>)"
| Written: "rl_outbox (sy_relay y) = before @ m # after \<Longrightarrow>
    \<forall>n \<in> set before. th_channel (fst n) \<noteq> th_channel (fst m) \<Longrightarrow>
    system_step x p assets y (y\<lparr>sy_relay := (sy_relay y)\<lparr>rl_outbox := before @ after\<rparr>\<rparr>)"

inductive system_run ::
  "'l externals \<Rightarrow> ('h, 'v, 'u, 's, 'w) proxy_ops \<Rightarrow> (string \<Rightarrow> string option) \<Rightarrow> 'l system \<Rightarrow> 'l system \<Rightarrow> bool"
  for x :: "'l externals" and p :: "('h, 'v, 'u, 's, 'w) proxy_ops" and assets :: "string \<Rightarrow> string option" where
  run_start: "system_run x p assets y y"
| run_step: "system_run x p assets y y1 \<Longrightarrow> system_step x p assets y1 y2 \<Longrightarrow> system_run x p assets y y2"

definition started :: "'l system \<Rightarrow> bool" where
  "started y \<longleftrightarrow> db_inv (rl_db (sy_relay y)) \<and> rl_registry (sy_relay y) = new_registry (rl_relay_id (sy_relay y)) \<and>
     sy_tasks y = []"

section \<open>The invariant\<close>

definition task_ok :: "database \<Rightarrow> tunnel_task \<Rightarrow> bool" where
  "task_ok db t \<longleftrightarrow> enrolled db (d_id (tt_device t)) (d_kind (tt_device t)) \<and>
     th_device_id (tt_handle t) = d_id (tt_device t) \<and>
     (\<forall>serial kind. tt_phase t = Running serial kind \<longrightarrow> kind = d_kind (tt_device t))"

fun entry_ok :: "database \<Rightarrow> tunnel_task set \<Rightarrow> string \<Rightarrow> entry \<Rightarrow> bool" where
  "entry_ok db ts i e = (case e_origin e of
       FromTunnel serial \<Rightarrow> \<exists>t \<in> ts. d_id (tt_device t) = i \<and> (\<exists>kind. tt_phase t = Running serial kind) \<and>
         od_route (e_device e) = Direct (tt_handle t)
     | FromLink l \<Rightarrow> enrolled db l Relay \<and> (\<exists>h hops. od_route (e_device e) = Via h hops \<and> th_device_id h = l))"

definition system_inv :: "'l system \<Rightarrow> bool" where
  "system_inv y \<longleftrightarrow> db_inv (rl_db (sy_relay y)) \<and> (\<forall>t \<in> set (sy_tasks y). task_ok (rl_db (sy_relay y)) t) \<and>
     (\<forall>i e. map_of (r_entries (rl_registry (sy_relay y))) i = Some e \<longrightarrow>
        entry_ok (rl_db (sy_relay y)) (set (sy_tasks y)) i e)"

declare entry_ok.simps [simp del]

lemma entry_ok_mono: "entry_ok db ts i e \<Longrightarrow> history db db' \<Longrightarrow> ts \<subseteq> ts' \<Longrightarrow> entry_ok db' ts' i e"
  by (auto simp: entry_ok.simps intro: enrolled_mono split: origin.splits)

lemma task_ok_mono: "task_ok db t \<Longrightarrow> history db db' \<Longrightarrow> task_ok db' t"
  by (auto simp: task_ok_def intro: enrolled_mono)

lemma entry_ok_without:
  assumes "entry_ok db ts i e" "\<And>n k. tt_phase t = Running n k \<Longrightarrow> d_id (tt_device t) = i \<Longrightarrow> e_origin e \<noteq> FromTunnel n"
    and "ts - {t} \<subseteq> ts'"
  shows "entry_ok db ts' i e"
proof (cases "e_origin e")
  case (FromTunnel n)
  with assms(1) obtain u k where u: "u \<in> ts" "d_id (tt_device u) = i" "tt_phase u = Running n k"
      "od_route (e_device e) = Direct (tt_handle u)"
    by (auto simp: entry_ok.simps)
  with assms(2) FromTunnel have "u \<noteq> t" by metis
  with u assms(3) FromTunnel show ?thesis by (auto simp: entry_ok.simps)
qed (use assms(1) in \<open>simp add: entry_ok.simps\<close>)

lemma entry_ok_direct:
  "entry_ok db ts i e \<Longrightarrow> od_route (e_device e) = Direct h \<Longrightarrow>
   \<exists>t \<in> ts. d_id (tt_device t) = i \<and> tt_handle t = h \<and> (\<exists>serial kind. tt_phase t = Running serial kind)"
  by (cases "e_origin e") (auto simp: entry_ok.simps)

lemma entry_ok_via:
  "entry_ok db ts i e \<Longrightarrow> od_route (e_device e) = Via h hops \<Longrightarrow> enrolled db (th_device_id h) Relay"
  by (cases "e_origin e") (auto simp: entry_ok.simps)

lemma remove1_others: "set ts - {t} \<subseteq> set (remove1 t ts)"
  by (induction ts) auto

text \<open>The shape of every step: the store only moves forward, the tasks that are new are in order, and every
  route that is new, or whose task is gone, is accounted for.\<close>

lemma system_invI:
  assumes "system_inv y" "store_kept (rl_db (sy_relay y)) (rl_db (sy_relay y'))"
    and "\<And>t. t \<in> set (sy_tasks y') \<Longrightarrow> t \<in> set (sy_tasks y) \<or> task_ok (rl_db (sy_relay y')) t"
    and "\<And>i e. map_of (r_entries (rl_registry (sy_relay y'))) i = Some e \<Longrightarrow>
      (map_of (r_entries (rl_registry (sy_relay y))) i = Some e \<and> entry_ok (rl_db (sy_relay y)) (set (sy_tasks y')) i e) \<or>
      entry_ok (rl_db (sy_relay y')) (set (sy_tasks y')) i e"
  shows "system_inv y'"
proof -
  have h: "history (rl_db (sy_relay y)) (rl_db (sy_relay y'))" "db_inv (rl_db (sy_relay y'))"
    using assms(1,2) by (auto simp: store_kept_def keeps_inv_def system_inv_def)
  moreover have "task_ok (rl_db (sy_relay y')) t" if "t \<in> set (sy_tasks y')" for t
    using assms(1) assms(3) [OF that] task_ok_mono [OF _ h(1)] by (auto simp: system_inv_def)
  ultimately show ?thesis using assms(4) entry_ok_mono [OF _ h(1)] unfolding system_inv_def by blast
qed

lemma system_inv_effect:
  assumes "system_inv y" "api_effect (sy_relay y) s"
  shows "system_inv (y\<lparr>sy_relay := s\<rparr>)"
  using assms by (intro system_invI [OF assms(1)]) (auto simp: api_effect_def system_inv_def)


section \<open>Every step keeps it\<close>

lemma kept_swallow: "kept.obeys m \<Longrightarrow> api_effect s (swallow m s)"
  by (auto simp: swallow_def kept.obeys_def api_effect_def)

lemma effect_audit: "api_effect s (snd (audit x e s))"
  by (rule handlers.reads_snd) (rule handlers.obeys_audit)

lemma effect_close: "api_effect s (close_tunnel h code reason s)"
  by (simp add: close_tunnel_def handlers.S_send)


lemma connect_effect:
  assumes "tunnel_connect x d peer h hello s = (serial, s')"
  shows "store_kept (rl_db s) (rl_db s')" "serial = r_sequence (rl_registry s)"
    "\<exists>now. rl_registry s' = snd (connect (presence_of d peer h hello) now (rl_registry s))"
proof -
  from assms obtain s1 e where reg: "register x (presence_of d peer h hello) s = (serial, s1)"
    and s': "s' = snd (audit x e (swallow (record_device_connection (d_id d) peer (he_version hello)) s1))"
    by (rule tunnel_connect_eq)
  have eff: "api_effect s1 s'"
    unfolding s' by (rule handlers.R_trans [OF kept_swallow [OF kept.obeys_methods(11)] effect_audit])
  from reg obtain now where r: "serial = r_sequence (rl_registry s)" "rl_db s1 = snd (now_millis (rl_db s))"
    "rl_registry s1 = snd (connect (presence_of d peer h hello) now (rl_registry s))" by (rule register_eq)
  have "store_kept (rl_db s) (rl_db s1)" using r(2) by (simp add: now_millis_def kept.R_env)
  with eff show "store_kept (rl_db s) (rl_db s')" by (auto simp: api_effect_def intro: kept.R_trans)
  show "serial = r_sequence (rl_registry s)" by (rule r(1))
  show "\<exists>now. rl_registry s' = snd (connect (presence_of d peer h hello) now (rl_registry s))"
    using eff r(3) by (auto simp: api_effect_def)
qed

lemma leave_effect: "api_effect s (tunnel_leave x h s)"
  by (simp add: tunnel_leave_def close_tunnel_def handlers.S_send)

lemma disconnect_effect:
  defines "go x d peer serial cause s \<equiv> tunnel_disconnect x d peer serial cause s"
  shows "store_kept (rl_db s) (rl_db (go x d peer serial cause s))"
    "rl_registry (go x d peer serial cause s) = snd (disconnect (d_id d) serial (rl_registry s))"
proof -
  let ?s1 = "s\<lparr>rl_registry := snd (disconnect (d_id d) serial (rl_registry s))\<rparr>"
  have "api_effect ?s1 (go x d peer serial cause s)"
    unfolding go_def tunnel_disconnect_def Let_def
    by (rule handlers.R_trans [OF kept_swallow [OF kept.obeys_methods(12)] effect_audit])
  then show "store_kept (rl_db s) (rl_db (go x d peer serial cause s))"
    "rl_registry (go x d peer serial cause s) = snd (disconnect (d_id d) serial (rl_registry s))"
    by (simp_all add: api_effect_def)
qed

lemma frame_effect: "store_kept (rl_db s) (rl_db (handle_control_frame x h kind frame s))"
  by (auto simp: handle_control_frame_def with_clock_eq send_frame_def try_send_def kept.R_refl now_millis_def kept.R_env
      split: control_frame.split)

lemma hello_kind: "accept_hello x s d frame sent = (Some hello, answer) \<Longrightarrow> he_kind hello = d_kind d"
  by (auto simp: accept_hello_def Let_def split: option.splits control_frame.splits if_splits)


lemma upgraded_task_ok:
  assumes "upgrade x ops headers ip s = (Inr d, s')"
  shows "enrolled (rl_db s) (d_id d) (d_kind d)"
proof -
  from assms obtain s1 where "authenticate x ops headers s = (Inr d, s1)"
    by (auto simp: upgrade_def bindE_def refuse_locked_eq clear_failures_def record_failure_def modify_def audit_eq
        okE_def errE_def split: if_splits prod.splits sum.splits)
  then show ?thesis by (rule authenticate_Inr) (metis enrolled_def read_device_row_Inr(1,2))
qed

lemma connected_inv:
  assumes inv: "system_inv y" and t: "t \<in> set (sy_tasks y)" "tt_phase t = Accepted" and kind: "he_kind hello = d_kind (tt_device t)"
    and con: "tunnel_connect x (tt_device t) (tt_peer t) (tt_handle t) hello (sy_relay y) = (serial, s)"
  shows "system_inv (y\<lparr>sy_relay := s, sy_tasks := t\<lparr>tt_phase := Running serial (he_kind hello)\<rparr> # remove1 t (sy_tasks y)\<rparr>)"
proof (rule system_invI [OF inv], goal_cases)
  case 1
  show ?case using connect_effect(1) [OF con] by simp
next
  case (2 u)
  have "task_ok (rl_db s) t"
    using inv t(1) connect_effect(1) [OF con] task_ok_mono by (auto simp: system_inv_def store_kept_def)
  then have "task_ok (rl_db s) (t\<lparr>tt_phase := Running serial (he_kind hello)\<rparr>)" using kind by (simp add: task_ok_def)
  with 2 show ?case using set_remove1_subset by fastforce
next
  case (3 i e)
  let ?ts = "insert (t\<lparr>tt_phase := Running serial (he_kind hello)\<rparr>) (set (remove1 t (sy_tasks y)))"
  have old: "entry_ok (rl_db (sy_relay y)) ?ts i e" if "map_of (r_entries (rl_registry (sy_relay y))) i = Some e"
  proof (rule entry_ok_without [of _ "set (sy_tasks y)" i e t])
    show "entry_ok (rl_db (sy_relay y)) (set (sy_tasks y)) i e" using inv that by (simp add: system_inv_def)
    show "set (sy_tasks y) - {t} \<subseteq> ?ts" by (rule subset_trans [OF remove1_others subset_insertI])
  qed (simp add: t(2))
  from connect_effect(3) [OF con] obtain now where reg: "rl_registry s = snd (connect
      (presence_of (tt_device t) (tt_peer t) (tt_handle t) hello) now (rl_registry (sy_relay y)))" by blast
  show ?case
  proof (cases "i = d_id (tt_device t)")
    case True
    with 3 have "e_origin e = FromTunnel serial" "od_route (e_device e) = Direct (tt_handle t)"
      by (auto simp: reg connect_entry presence_of_def connect_effect(2) [OF con])
    with True show ?thesis by (simp add: entry_ok.simps)
  next
    case False
    with 3 have "map_of (r_entries (rl_registry (sy_relay y))) i = Some e" by (simp add: reg connect_entry presence_of_def)
    with old show ?thesis by simp
  qed
qed

lemma ended_inv:
  assumes inv: "system_inv y" and t: "t \<in> set (sy_tasks y)" "tt_phase t = Running serial kind"
  shows "system_inv (y\<lparr>sy_relay := tunnel_disconnect x (tt_device t) (tt_peer t) serial cause (sy_relay y),
      sy_tasks := remove1 t (sy_tasks y)\<rparr>)"
proof (rule system_invI [OF inv], goal_cases)
  case 1
  show ?case by (simp add: disconnect_effect)
next
  case (2 u)
  then show ?case using set_remove1_subset by fastforce
next
  case (3 i e)
  let ?r = "rl_registry (sy_relay y)"
  have e: "map_of (r_entries (snd (disconnect (d_id (tt_device t)) serial ?r))) i = Some e"
    using 3 by (simp add: disconnect_effect)
  with adds_disconnect [of "\<lambda>_ _. False" ?r "d_id (tt_device t)" serial] have old: "map_of (r_entries ?r) i = Some e"
    unfolding adds_def by blast
  with inv have "entry_ok (rl_db (sy_relay y)) (set (sy_tasks y)) i e" by (simp add: system_inv_def)
  moreover have "i \<noteq> d_id (tt_device t) \<or> e_origin e \<noteq> FromTunnel serial" using disconnect_removes e by blast
  ultimately have "entry_ok (rl_db (sy_relay y)) (set (remove1 t (sy_tasks y))) i e"
    using t(2) by (intro entry_ok_without [OF _ _ remove1_others]) auto
  with old show ?case by simp
qed

lemma frame_inv:
  assumes inv: "system_inv y" and t: "t \<in> set (sy_tasks y)" "tt_phase t = Running serial kind"
  shows "system_inv (y\<lparr>sy_relay := handle_control_frame x (tt_handle t) kind frame (sy_relay y)\<rparr>)"
proof (rule system_invI [OF inv], goal_cases)
  case 1
  show ?case by (simp add: frame_effect)
next
  case (3 i e)
  let ?s' = "handle_control_frame x (tt_handle t) kind frame (sy_relay y)"
  have "task_ok (rl_db (sy_relay y)) t" using inv t(1) by (simp add: system_inv_def)
  then have "task_ok (rl_db ?s') t" by (rule task_ok_mono) (rule frame_effect [unfolded store_kept_def, THEN conjunct2, THEN conjunct1])
  then have "entry_ok (rl_db ?s') (set (sy_tasks y)) i e" if "kind = Relay" "spoken_for (th_device_id (tt_handle t)) (tt_handle t) i e"
    using that t(2) by (auto simp: task_ok_def entry_ok.simps spoken_for_def)
  moreover have "map_of (r_entries (rl_registry (sy_relay y))) i = Some e \<or>
      kind = Relay \<and> spoken_for (th_device_id (tt_handle t)) (tt_handle t) i e"
    using 3 handle_control_frame_adds [of kind "tt_handle t" "sy_relay y" x frame] by (simp add: adds_def)
  ultimately show ?case using inv unfolding system_inv_def by auto
qed simp

lemma system_step_inv: "system_step x p assets y y' \<Longrightarrow> system_inv y \<Longrightarrow> system_inv y'"
proof (induction rule: system_step.induct)
  case (Upgraded headers ip y d s)
  have eff: "api_effect (sy_relay y) s" by (rule effect_upgrade [OF Upgraded(1)])
  then have "enrolled (rl_db s) (d_id d) (d_kind d)"
    using upgraded_task_ok [OF Upgraded(1)] enrolled_mono by (auto simp: api_effect_def store_kept_def)
  moreover have "entry_ok (rl_db (sy_relay y)) (insert t (set (sy_tasks y))) i e"
    if "map_of (r_entries (rl_registry (sy_relay y))) i = Some e" for i e t
    using that Upgraded(2) entry_ok_mono [OF _ hist.R_refl subset_insertI] by (auto simp: system_inv_def)
  ultimately show ?case
    using eff by (intro system_invI [OF Upgraded(2)]) (auto simp: api_effect_def task_ok_def)
next
  case (Rejected t y frame sent answer)
  show ?case
  proof (rule system_invI [OF Rejected(4)], goal_cases)
    case (3 i e)
    with Rejected(4) have "entry_ok (rl_db (sy_relay y)) (set (remove1 t (sy_tasks y))) i e"
      using Rejected(2) by (intro entry_ok_without [OF _ _ remove1_others]) (auto simp: system_inv_def)
    with 3 show ?case by simp
  qed (use set_remove1_subset in \<open>fastforce simp: kept.R_refl\<close>)+
next
  case (Connected t y frame sent hello answer serial s)
  then show ?case by (intro connected_inv hello_kind [OF Connected(3)])
next
  case (Written y before m after)
  then show ?case by (simp add: system_inv_def)
qed (auto intro: system_inv_effect exec_api_effect effect_host effect_upgrade frame_inv ended_inv leave_effect)

lemma system_run_inv: "system_run x p assets y y' \<Longrightarrow> system_inv y \<Longrightarrow> system_inv y'"
  by (induction rule: system_run.induct) (auto intro: system_step_inv)

lemma started_inv: "started y \<Longrightarrow> system_inv y"
  by (simp add: started_def system_inv_def new_registry_def)


section \<open>Revoked devices\<close>

text \<open>A row that is revoked and has no task: nothing brings the device back.\<close>

definition shut_out :: "string \<Rightarrow> 'l system \<Rightarrow> bool" where
  "shut_out i y \<longleftrightarrow> (\<exists>row \<in> set (d_devices (rl_db (sy_relay y))). dw_id row = i \<and> dw_revoked_at row \<noteq> None) \<and>
     (\<forall>t \<in> set (sy_tasks y). d_id (tt_device t) \<noteq> i)"

lemma revoked_row_mono:
  assumes "history db db'" "row \<in> set (d_devices db)" "dw_id row = i" "dw_revoked_at row \<noteq> None"
  shows "\<exists>row' \<in> set (d_devices db'). dw_id row' = i \<and> dw_revoked_at row' \<noteq> None"
  using assms unfolding history_def device_kept_def by metis

lemma revoked_not_upgraded:
  assumes "db_inv (rl_db s)" "row \<in> set (d_devices (rl_db s))" "dw_revoked_at row \<noteq> None"
    and "upgrade x ops headers ip s = (Inr d, s')"
  shows "d_id d \<noteq> dw_id row"
proof
  assume same: "d_id d = dw_id row"
  from assms(4) obtain s1 where "authenticate x ops headers s = (Inr d, s1)"
    by (auto simp: upgrade_def bindE_def refuse_locked_eq clear_failures_def record_failure_def modify_def audit_eq
        okE_def errE_def split: if_splits prod.splits sum.splits)
  then obtain other where o: "other \<in> set (d_devices (rl_db s))" "read_device_row other = Inr d" "dw_revoked_at other = None"
    by (rule authenticate_Inr)
  have "distinct (map dw_id (d_devices (rl_db s)))" using assms(1) by (simp add: db_inv_def devices_ok_def)
  then have "other = row"
    using o assms(2) same read_device_row_Inr(1) [OF o(2)] by (auto simp: distinct_map inj_on_def)
  with o(3) assms(3) show False by simp
qed

lemma effect_store: "api_effect s s' \<Longrightarrow> store_kept (rl_db s) (rl_db s')"
  by (simp add: api_effect_def)

lemma system_step_store: "system_step x p assets y y' \<Longrightarrow> store_kept (rl_db (sy_relay y)) (rl_db (sy_relay y'))"
proof (induction rule: system_step.induct)
  case (Connected t y frame sent hello answer serial s)
  then show ?case using connect_effect(1) by simp
qed (auto simp: kept.R_refl frame_effect disconnect_effect
    intro: effect_store [OF leave_effect] effect_store exec_api_effect effect_store [OF effect_host] effect_store [OF effect_upgrade])

lemma system_step_tasks:
  assumes "system_step x p assets y y'" "t' \<in> set (sy_tasks y')"
  shows "(\<exists>t \<in> set (sy_tasks y). tt_device t = tt_device t') \<or>
    (\<exists>headers ip s. upgrade x (po_headers p) headers ip (sy_relay y) = (Inr (tt_device t'), s))"
  using assms by (induction rule: system_step.induct) (auto dest: subsetD [OF set_remove1_subset])

lemma shut_out_step:
  assumes "system_step x p assets y y'" "db_inv (rl_db (sy_relay y))" "shut_out i y"
  shows "shut_out i y'"
proof -
  from assms(3) obtain row where row: "row \<in> set (d_devices (rl_db (sy_relay y)))" "dw_id row = i" "dw_revoked_at row \<noteq> None"
    and tasks: "\<forall>t \<in> set (sy_tasks y). d_id (tt_device t) \<noteq> i" by (auto simp: shut_out_def)
  have "d_id (tt_device t) \<noteq> i" if "t \<in> set (sy_tasks y')" for t
    using system_step_tasks [OF assms(1) that] tasks revoked_not_upgraded [OF assms(2) row(1,3)] row(2) by metis
  moreover have "history (rl_db (sy_relay y)) (rl_db (sy_relay y'))"
    using system_step_store [OF assms(1)] by (simp add: store_kept_def)
  ultimately show ?thesis using revoked_row_mono [OF _ row] by (simp add: shut_out_def)
qed

lemma shut_out_run:
  assumes "system_run x p assets y y'"
  shows "system_inv y \<Longrightarrow> shut_out i y \<Longrightarrow> shut_out i y'"
  using assms
proof (induction rule: system_run.induct)
  case (run_step y y1 y2)
  then show ?case using system_run_inv [OF run_step(1)] shut_out_step [OF run_step(2)] by (simp add: system_inv_def)
qed


section \<open>What the invariant says about routes\<close>

lemma backed_routes:
  assumes inv: "system_inv y'"
  shows "db_inv (rl_db (sy_relay y')) \<and>
    (\<forall>i h. route (rl_registry (sy_relay y')) i = Some (Direct h) \<longrightarrow>
       (\<exists>t \<in> set (sy_tasks y'). d_id (tt_device t) = i \<and> tt_handle t = h \<and> (\<exists>serial. tt_phase t = Running serial (d_kind (tt_device t))) \<and>
          enrolled (rl_db (sy_relay y')) i (d_kind (tt_device t)))) \<and>
    (\<forall>i h hops. route (rl_registry (sy_relay y')) i = Some (Via h hops) \<longrightarrow>
       enrolled (rl_db (sy_relay y')) (th_device_id h) Relay)"
proof -
  have entry: "\<exists>e. entry_ok (rl_db (sy_relay y')) (set (sy_tasks y')) i e \<and> od_route (e_device e) = rt"
    if "route (rl_registry (sy_relay y')) i = Some rt" for i rt
  proof -
    from that obtain e where e: "map_of (r_entries (rl_registry (sy_relay y'))) i = Some e" "od_route (e_device e) = rt"
      by (auto simp: route_def)
    with inv have "entry_ok (rl_db (sy_relay y')) (set (sy_tasks y')) i e" unfolding system_inv_def by blast
    with e show ?thesis by blast
  qed
  have "\<exists>t \<in> set (sy_tasks y'). d_id (tt_device t) = i \<and> tt_handle t = h \<and> (\<exists>serial. tt_phase t = Running serial (d_kind (tt_device t))) \<and>
      enrolled (rl_db (sy_relay y')) i (d_kind (tt_device t))"
    if r: "route (rl_registry (sy_relay y')) i = Some (Direct h)" for i h
  proof -
    from entry [OF r] obtain t serial kind where "t \<in> set (sy_tasks y')" "d_id (tt_device t) = i" "tt_handle t = h"
        "tt_phase t = Running serial kind"
      using entry_ok_direct by metis
    moreover from this inv have "task_ok (rl_db (sy_relay y')) t" by (simp add: system_inv_def)
    ultimately show ?thesis by (auto simp: task_ok_def)
  qed
  moreover have "enrolled (rl_db (sy_relay y')) (th_device_id h) Relay"
    if "route (rl_registry (sy_relay y')) i = Some (Via h hops)" for i h hops
    using entry [OF that] entry_ok_via by metis
  ultimately show ?thesis using inv by (simp add: system_inv_def)
qed

lemma shut_out_route:
  assumes "system_inv y" "shut_out i y"
  shows "route (rl_registry (sy_relay y)) i \<noteq> Some (Direct h)"
proof
  assume "route (rl_registry (sy_relay y)) i = Some (Direct h)"
  with assms(1) obtain e where "entry_ok (rl_db (sy_relay y)) (set (sy_tasks y)) i e" "od_route (e_device e) = Direct h"
    unfolding system_inv_def by (auto simp: route_def)
  from entry_ok_direct [OF this] assms(2) show False by (auto simp: shut_out_def)
qed

section \<open>A run\<close>

definition fresh_system :: "string list system" where
  "fresh_system = \<lparr>sy_relay = sample_relay\<lparr>rl_registry := new_registry ''A''\<rparr>, sy_tasks = [], sy_next = 0\<rparr>"

lemma sample_store: "rl_db sample_relay = sample_users_db\<lparr>d_devices := [sample_device_row]\<rparr>"
  by (simp add: sample_relay_def)

lemma sample_store_inv: "db_inv (sample_users_db\<lparr>d_devices := [sample_device_row\<lparr>dw_revoked_at := v\<rparr>]\<rparr>)"
proof -
  have "\<exists>kind. ''desktop'' = device_kind_label kind" by (rule exI [of _ Desktop]) simp
  moreover have "\<exists>access. ''relay-login'' = access_str access" by (rule exI [of _ RelayLogin]) simp
  moreover have "\<exists>role. ''admin'' = role_str role" by (rule exI [of _ Admin]) simp
  ultimately show ?thesis
    by (simp add: db_inv_def users_ok_def devices_ok_def owners_ok_def enrollments_ok_def enrollment_ok_def audit_ok_def
        sample_users_db_def sample_db_def sample_device_row_def)
qed


lemma fresh_started: "started fresh_system"
  using sample_store_inv [of None]
  by (simp add: started_def fresh_system_def sample_relay_def sample_device_row_def)

lemma desk_upgrade:
  assumes "d_devices (rl_db s) = [sample_device_row]" "d_fail (rl_db s) = (\<lambda>_. False)" "rl_lockout s = []"
  shows "\<exists>n s'. upgrade sample_x list_headers tunnel_headers ''192.0.2.7'' s = (Inr sample_device_record, s') \<and>
     rl_registry s' = rl_registry s \<and> rl_db s' = (rl_db s)\<lparr>d_stmts := n\<rparr> \<and> rl_outbox s' = rl_outbox s"
proof -
  have "x_secret_matches sample_x ''s'' (d_secret_hash sample_device_record)" "\<not> is_revoked sample_device_record"
    "\<not> x_is_locked sample_x [] ''192.0.2.7''"
    by (simp_all add: sample_x_def sample_device_record_def is_revoked_def)
  with assms show ?thesis
    by (intro exI [of _ "d_stmts (rl_db s) + 1"]) (simp add: upgrade_def bindE_def refuse_locked_eq authenticate_def sample_credential
        lift_db_def sample_row_found clear_failures_def modify_def okE_def)
qed

text \<open>What admitting a tunnel records.\<close>

lemma connect_store:
  assumes "tunnel_connect x d peer h hello s = (serial, s')" "d_fail (rl_db s) = (\<lambda>_. False)"
  shows "\<exists>now. d_devices (rl_db s') = update_where (\<lambda>r. dw_id r = d_id d)
      (\<lambda>r. r\<lparr>dw_last_seen_at := Some now, dw_last_ip := Some peer, dw_last_version := Some (he_version hello)\<rparr>) (d_devices (rl_db s))"
    "d_sessions (rl_db s') = d_sessions (rl_db s)" "d_users (rl_db s') = d_users (rl_db s)"
    "d_fail (rl_db s') = d_fail (rl_db s)" "d_clock (rl_db s') = d_clock (rl_db s)"
    "route (rl_registry s) (d_id d) = None \<Longrightarrow> rl_outbox s' = rl_outbox s"
proof -
  let ?p = "presence_of d peer h hello"
  from assms(1) obtain s1 e where reg: "register x ?p s = (serial, s1)"
    and s': "s' = snd (audit x e (swallow (record_device_connection (d_id d) peer (he_version hello)) s1))"
    by (rule tunnel_connect_eq)
  from reg obtain now where db: "rl_db s1 = snd (now_millis (rl_db s))"
    and out: "rl_outbox s1 = rl_outbox (case reg_displaced (fst (connect ?p now (rl_registry s))) of
        Some g \<Rightarrow> close_tunnel g (x_close_going_away x) reason_replaced s | None \<Rightarrow> s)"
    by (rule register_eq)
  have clock: "d_clock (audit_write x e db) = d_clock db" for db
    by (simp add: audit_write_def now_millis_def write_audit_def statement_cases)
  show "\<exists>now. d_devices (rl_db s') = update_where (\<lambda>r. dw_id r = d_id d)
      (\<lambda>r. r\<lparr>dw_last_seen_at := Some now, dw_last_ip := Some peer, dw_last_version := Some (he_version hello)\<rparr>) (d_devices (rl_db s))"
    "d_sessions (rl_db s') = d_sessions (rl_db s)" "d_users (rl_db s') = d_users (rl_db s)"
    "d_fail (rl_db s') = d_fail (rl_db s)" "d_clock (rl_db s') = d_clock (rl_db s)"
    using assms(2) by (auto simp: s' audit_eq swallow_def db record_device_connection_def with_now_def now_millis_def discard_def
        bindE_def okE_def update_devices_def statement_cases clock)
  assume "route (rl_registry s) (d_id d) = None"
  then have "reg_displaced (fst (connect ?p now (rl_registry s))) = None"
    by (simp add: route_def presence_of_def connect_def connect_locked_def next_sequence_def Let_def)
  then show "rl_outbox s' = rl_outbox s" using out by (simp add: s' revoking_connect(2))
qed

definition seen_row :: "int \<Rightarrow> device_row" where
  "seen_row now = sample_device_row\<lparr>dw_last_seen_at := Some now, dw_last_ip := Some ''192.0.2.7'', dw_last_version := Some ''1.0''\<rparr>"

text \<open>The desktop dials in and is admitted: its task serves the tunnel, its row is marked, and nothing is queued.\<close>

lemma desk_joins:
  assumes "d_devices (rl_db (sy_relay y)) = [sample_device_row]" "d_fail (rl_db (sy_relay y)) = (\<lambda>_. False)"
    and "rl_lockout (sy_relay y) = []" "sy_tasks y = []"
  shows "\<exists>y' t pr now serial. system_run sample_x sample_ops assets y y' \<and> dp_device_id pr = ''desk'' \<and> dp_kind pr = Desktop \<and>
    rl_registry (sy_relay y') = snd (connect pr now (rl_registry (sy_relay y))) \<and>
    sy_tasks y' = [t] \<and> tt_device t = sample_device_record \<and> tt_handle t = dp_handle pr \<and> tt_phase t = Running serial Desktop \<and>
    (\<exists>seen. d_devices (rl_db (sy_relay y')) = [seen_row seen]) \<and>
    d_sessions (rl_db (sy_relay y')) = d_sessions (rl_db (sy_relay y)) \<and> d_users (rl_db (sy_relay y')) = d_users (rl_db (sy_relay y)) \<and>
    d_fail (rl_db (sy_relay y')) = (\<lambda>_. False) \<and> d_clock (rl_db (sy_relay y')) = d_clock (rl_db (sy_relay y)) \<and>
    (route (rl_registry (sy_relay y)) ''desk'' = None \<longrightarrow> rl_outbox (sy_relay y') = rl_outbox (sy_relay y))"
proof -
  have id: "d_id sample_device_record = ''desk''" "d_kind sample_device_record = Desktop" "dw_id sample_device_row = ''desk''"
    by (simp_all add: sample_device_record_def sample_device_row_def)
  from desk_upgrade [OF assms(1-3)] obtain s n where s: "rl_registry s = rl_registry (sy_relay y)"
    "upgrade sample_x (po_headers sample_ops) tunnel_headers ''192.0.2.7'' (sy_relay y) = (Inr sample_device_record, s)"
    "rl_db s = (rl_db (sy_relay y))\<lparr>d_stmts := n\<rparr>" "rl_outbox s = rl_outbox (sy_relay y)"
    by (auto simp: sample_ops_def)
  let ?h = "\<lparr>th_device_id = ''desk'', th_channel = sy_next y\<rparr>"
  let ?t = "\<lparr>tt_device = sample_device_record, tt_peer = ''192.0.2.7'', tt_handle = ?h, tt_phase = Accepted\<rparr>"
  let ?y1 = "y\<lparr>sy_relay := s, sy_next := sy_next y + 1, sy_tasks := ?t # sy_tasks y\<rparr>"
  have up: "system_step sample_x sample_ops assets y ?y1"
    using system_step.Upgraded [OF s(2), of assets] by (simp add: id)
  obtain serial s2 where con: "tunnel_connect sample_x sample_device_record ''192.0.2.7'' ?h desk_hello s = (serial, s2)" by fastforce
  have "x_protocol_version sample_x = 1" by (simp add: sample_x_def)
  then obtain answer :: "unit ws_message list" where "accept_hello sample_x s sample_device_record
      (Some (Hello 1 Desktop ''1.0'' ''n'' None)) True = (Some desk_hello, answer)"
    by (simp add: accept_hello_def id desk_hello_def Let_def)
  then have step: "system_step sample_x sample_ops assets ?y1 (?y1\<lparr>sy_relay := s2,
      sy_tasks := ?t\<lparr>tt_phase := Running serial (he_kind desk_hello)\<rparr> # remove1 ?t (sy_tasks ?y1)\<rparr>)" (is "system_step _ _ _ _ ?y2")
    using con by (intro system_step.Connected) simp_all
  have run: "system_run sample_x sample_ops assets y ?y2"
    by (rule system_run.run_step [OF system_run.run_step [OF system_run.run_start up] step])
  obtain now where reg: "rl_registry s2 = snd (connect (presence_of sample_device_record ''192.0.2.7'' ?h desk_hello) now (rl_registry s))"
    using connect_effect(3) [OF con] by blast
  have "d_fail (rl_db s) = (\<lambda>_. False)" using assms(2) by (simp add: s(3))
  note store = connect_store [OF con this, unfolded id s(3)]
  have "he_version desk_hello = ''1.0''" "he_kind desk_hello = Desktop" by (simp_all add: desk_hello_def)
  then have "\<exists>seen. d_devices (rl_db s2) = [seen_row seen]"
    using store(1) assms(1) by (simp add: update_where_def seen_row_def id)
  then show ?thesis
    using run reg s(1) store(2-6) assms(2,4) s(4) \<open>he_kind desk_hello = Desktop\<close>
    by (intro exI [of _ ?y2] exI [of _ "?t\<lparr>tt_phase := Running serial Desktop\<rparr>"]
          exI [of _ "presence_of sample_device_record ''192.0.2.7'' ?h desk_hello"] exI [of _ now] exI [of _ serial])
      (simp add: presence_of_def id)
qed

definition revoked_system :: "string list system" where
  "revoked_system = fresh_system\<lparr>sy_relay := (sy_relay fresh_system)\<lparr>rl_db :=
     sample_users_db\<lparr>d_devices := [sample_device_row\<lparr>dw_revoked_at := Some 5\<rparr>]\<rparr>\<rparr>\<rparr>"

lemma revoked_started: "started revoked_system"
  using sample_store_inv [of "Some 5"] by (simp add: started_def revoked_system_def fresh_system_def) (simp add: sample_relay_def)

end
