(* ===== verification/Upstream_Settings.thy ===== *)
theory Upstream_Settings
  imports Api_Laws
begin

text \<open>
  What a relay remembers about its upstream (\<^verbatim>\<open>src/upstream/settings.rs\<close>), how it pins the upstream's
  certificate (\<^verbatim>\<open>src/upstream/pinning.rs\<close>) and how it trades an enrollment code for its own credential
  (\<^verbatim>\<open>src/upstream/enroll.rs\<close>). JSON, the HTTP client and SHA-256 belong to other crates: they are the
  fields of \<open>link_ops\<close>. A client is what it was built with, its TLS backend; \<open>lo_client_failure\<close> is the error of building it,
  and \<open>lo_post\<close> is what the client that was built answers to a request. Messages are tags instead of their Chinese text.
\<close>

section \<open>Settings\<close>

record upstream_settings =
  us_url :: string
  us_credential :: string
  us_fingerprint :: "string option"

text \<open>Whom a connection trusts: one pinned certificate, or whatever the platform's root store accepts. The provider of the
  pinned configuration is named in the code.\<close>

datatype crypto_provider = AwsLcRs

record pinned_verifier =
  pv_fingerprint :: string
  pv_provider :: crypto_provider

datatype tls_backend = PlatformRoots | Preconfigured pinned_verifier

datatype enroll_call = EnrollCall string string string
  \<comment> \<open>url, code, name\<close>

record ('h, 'v) link_ops =
  lo_encode :: "upstream_settings \<Rightarrow> string"
  lo_decode :: "string \<Rightarrow> string + upstream_settings"
  lo_client_failure :: "tls_backend \<Rightarrow> string option"
  lo_post :: "tls_backend \<Rightarrow> enroll_call \<Rightarrow> string + nat \<times> (string + string)"
  lo_credential_of :: "string \<Rightarrow> string + string"
  lo_failure_of :: "string \<Rightarrow> string option"
  lo_sha256_hex :: "8 word list \<Rightarrow> string"
  lo_enroll_path :: string
  lo_tunnel_path :: string
  lo_version :: string
  lo_headers :: "('h, 'v) header_ops"
  lo_request :: "string \<Rightarrow> bool"

definition config_message :: "config_error \<Rightarrow> string" where
  "config_message e = ''invalid-address''"

definition build_settings ::
  "'l externals \<Rightarrow> string \<Rightarrow> string \<Rightarrow> string option \<Rightarrow> string + upstream_settings" where
  "build_settings x url credential fingerprint =
     (case public_url_from_str url of
        Inl e \<Rightarrow> Inl (config_message e)
      | Inr origin \<Rightarrow>
          (let trimmed = trim credential
           in case x_parse_credential x trimmed of
                None \<Rightarrow> Inl ''invalid-credential''
              | Some _ \<Rightarrow> Inr \<lparr>us_url = pu_origin origin, us_credential = trimmed, us_fingerprint = fingerprint\<rparr>))"

text \<open>\<^verbatim>\<open>split_once("://")\<close>: what follows the first separator.\<close>

fun after_separator :: "string \<Rightarrow> string option" where
  "after_separator [] = None"
| "after_separator (c # s) =
     (case strip_prefix ''://'' (c # s) of Some rest \<Rightarrow> Some rest | None \<Rightarrow> after_separator s)"

definition settings_authority :: "upstream_settings \<Rightarrow> string" where
  "settings_authority settings =
     (case after_separator (us_url settings) of Some authority \<Rightarrow> authority | None \<Rightarrow> us_url settings)"

definition settings_is_secure :: "upstream_settings \<Rightarrow> bool" where
  "settings_is_secure settings = prefix ''https://'' (us_url settings)"

definition tunnel_url :: "('h, 'v) link_ops \<Rightarrow> upstream_settings \<Rightarrow> string" where
  "tunnel_url lo settings =
     (if settings_is_secure settings then ''wss://'' else ''ws://'') @ settings_authority settings @ lo_tunnel_path lo"

definition enroll_url :: "('h, 'v) link_ops \<Rightarrow> upstream_settings \<Rightarrow> string" where
  "enroll_url lo settings = us_url settings @ lo_enroll_path lo"

text \<open>A database error becomes its message.\<close>

definition load_settings ::
  "('h, 'v) link_ops \<Rightarrow> database \<Rightarrow> (string + upstream_settings option) \<times> database" where
  "load_settings lo =
     bindE (map_err (\<lambda>_. ''database'') (read_setting setting_upstream)) (\<lambda>stored.
       case stored of
         None \<Rightarrow> okE None
       | Some text0 \<Rightarrow>
           (case lo_decode lo text0 of
              Inl e \<Rightarrow> errE (''unreadable-settings: '' @ e)
            | Inr settings \<Rightarrow> okE (Some settings)))"

definition store_settings ::
  "('h, 'v) link_ops \<Rightarrow> upstream_settings \<Rightarrow> database \<Rightarrow> (database_error + unit) \<times> database" where
  "store_settings lo settings = write_setting setting_upstream (lo_encode lo settings)"

definition clear_settings :: "database \<Rightarrow> (database_error + unit) \<times> database" where
  "clear_settings = delete_setting setting_upstream"

section \<open>Pinning\<close>

definition fingerprint_length :: nat where
  "fingerprint_length = 64"

definition is_hex_digit :: "char \<Rightarrow> bool" where
  "is_hex_digit c \<longleftrightarrow> is_digit c \<or> 97 \<le> (of_char c :: nat) \<and> (of_char c :: nat) \<le> 102 \<or>
     65 \<le> (of_char c :: nat) \<and> (of_char c :: nat) \<le> 70"

definition normalize_fingerprint :: "string \<Rightarrow> string + string" where
  "normalize_fingerprint value =
     (let normalized = to_lowercase (filter (\<lambda>c. c \<noteq> CHR '':'') (trim value))
      in if length normalized \<noteq> fingerprint_length \<or> \<not> list_all is_hex_digit normalized
         then Inl ''malformed-fingerprint'' else Inr normalized)"

text \<open>\<open>tokens_match\<close> compares in constant time; what it decides is equality.\<close>

definition verify_server_cert :: "('h, 'v) link_ops \<Rightarrow> string \<Rightarrow> 8 word list \<Rightarrow> bool" where
  "verify_server_cert lo fingerprint end_entity \<longleftrightarrow> fingerprint = lo_sha256_hex lo end_entity"

definition client_config :: "string option \<Rightarrow> pinned_verifier option" where
  "client_config fingerprint = map_option (\<lambda>f. \<lparr>pv_fingerprint = f, pv_provider = AwsLcRs\<rparr>) fingerprint"

text \<open>What a client is built with. Without a pinned certificate the backend stays the default one.\<close>

definition client_backend :: "string option \<Rightarrow> tls_backend" where
  "client_backend fingerprint =
     (case client_config fingerprint of Some tls \<Rightarrow> Preconfigured tls | None \<Rightarrow> PlatformRoots)"

definition build_client :: "('h, 'v) link_ops \<Rightarrow> string option \<Rightarrow> string + tls_backend" where
  "build_client lo fingerprint =
     (let backend = client_backend fingerprint
      in case lo_client_failure lo backend of Some e \<Rightarrow> Inl (''client-failed: '' @ e) | None \<Rightarrow> Inr backend)"

section \<open>Joining\<close>

definition describe_failure :: "('h, 'v) link_ops \<Rightarrow> nat \<Rightarrow> string \<Rightarrow> string" where
  "describe_failure lo status body =
     (case lo_failure_of lo body of Some e \<Rightarrow> e | None \<Rightarrow> ''refused-http-'' @ decimal status)"

definition request_credential ::
  "('h, 'v) link_ops \<Rightarrow> string \<Rightarrow> string option \<Rightarrow> string \<Rightarrow> string \<Rightarrow> string + string" where
  "request_credential lo url fingerprint code name =
     (case build_client lo fingerprint of
        Inl e \<Rightarrow> Inl e
      | Inr client \<Rightarrow>
          (case lo_post lo client (EnrollCall url (trim code) name) of
             Inl e \<Rightarrow> Inl (''unreachable: '' @ e)
           | Inr (status, Inl e) \<Rightarrow> Inl (''unreadable-response: '' @ e)
           | Inr (status, Inr body) \<Rightarrow>
               if \<not> (200 \<le> status \<and> status < 300) then Inl (describe_failure lo status body)
               else (case lo_credential_of lo body of
                       Inl e \<Rightarrow> Inl (''malformed-response: '' @ e)
                     | Inr credential \<Rightarrow> Inr credential)))"

definition join_upstream ::
  "'l externals \<Rightarrow> ('h, 'v) link_ops \<Rightarrow> string \<Rightarrow> string \<Rightarrow> string \<Rightarrow> string option \<Rightarrow> database
     \<Rightarrow> (string + upstream_settings) \<times> database" where
  "join_upstream x lo url code name fingerprint =
     bindE (check (map_sum config_message id (public_url_from_str url))) (\<lambda>origin.
     bindE (check (request_credential lo (pu_origin origin @ lo_enroll_path lo) fingerprint code name)) (\<lambda>credential.
     bindE (check (build_settings x (pu_origin origin) credential fingerprint)) (\<lambda>settings.
     bindE (map_err (\<lambda>_. ''store-failed'') (store_settings lo settings)) (\<lambda>_.
       okE settings))))"

section \<open>Lemmas\<close>

lemma after_separator_prefix:
  "CHR '':'' \<notin> set sch \<Longrightarrow> after_separator (sch @ ''://'' @ rest) = Some rest"
  by (induction sch) (auto simp: strip_prefix_def)

lemma write_setting_Inr:
  assumes "write_setting k v db = (Inr u, db')"
  obtains now where "d_settings db' = AList.update k (v, now) (d_settings db)"
  using assms by (auto simp: write_setting_def with_now_def now_millis_def statement_cases split: if_splits)

lemma write_setting_Inl: "write_setting k v db = (Inl e, db') \<Longrightarrow> d_settings db' = d_settings db"
  by (auto simp: write_setting_def with_now_def now_millis_def statement_cases split: if_splits)

lemma check_eq: "check r s = (r, s)"
  by (simp add: check_def)

lemma build_settings_Inr:
  assumes "build_settings x url c f = Inr st"
  obtains u where "public_url_from_str url = Inr u" "us_url st = pu_origin u" "us_credential st = trim c" "us_fingerprint st = f"
    "x_parse_credential x (us_credential st) \<noteq> None"
  using assms by (auto simp: build_settings_def Let_def split: sum.splits option.splits)


lemma settings_urls:
  assumes "public_url_from_str url = Inr u" "us_url st = pu_origin u"
  shows "settings_authority st = pu_host u" "settings_is_secure st = pu_secure u"
proof -
  have "after_separator (''https'' @ ''://'' @ pu_host u) = Some (pu_host u)"
    "after_separator (''http'' @ ''://'' @ pu_host u) = Some (pu_host u)"
    by (rule after_separator_prefix, simp)+
  then show "settings_authority st = pu_host u" "settings_is_secure st = pu_secure u"
    using public_url_from_str_shape(1) [OF assms(1)] by (simp_all add: settings_authority_def settings_is_secure_def assms(2))
qed

lemma hex_digit_facts:
  assumes "is_hex_digit c"
  shows "graphic c" "is_hex_digit (ascii_lower c)" "c \<noteq> CHR '':''"
  using assms by (auto simp: is_hex_digit_def is_digit_def graphic_def ascii_lower_def is_upper_def)

text \<open>The one spelling of a digest: every rendering of it is folded to lower case without separators, and the
  result is its own normal form.\<close>

lemma normalize_fingerprint_iff:
  "normalize_fingerprint v = Inr n \<longleftrightarrow>
     (let h = filter (\<lambda>c. c \<noteq> CHR '':'') (trim v)
      in n = to_lowercase h \<and> length n = 64 \<and> list_all is_hex_digit n)"
  by (auto simp: normalize_fingerprint_def fingerprint_length_def Let_def)

lemma normalize_fingerprint_idem:
  assumes "normalize_fingerprint v = Inr n"
  shows "normalize_fingerprint n = Inr n"
proof -
  have n: "length n = 64" "list_all is_hex_digit n" "\<forall>c \<in> set n. \<not> is_upper c"
    using assms to_lowercase_no_upper by (auto simp: normalize_fingerprint_iff Let_def)
  then have g: "list_all graphic n" "filter (\<lambda>c. c \<noteq> CHR '':'') n = n"
    using hex_digit_facts by (auto simp: list_all_iff filter_id_conv)
  have "n \<noteq> []" using n(1) by auto
  then have "trim n = n" using g(1) by (intro trim_graphic) (auto simp: list_all_iff)
  moreover have "to_lowercase n = n" using g(1) n(3) by (simp add: to_lowercase_graphic map_idI ascii_lower_fixed)
  ultimately show ?thesis using n g by (simp add: normalize_fingerprint_iff)
qed

section \<open>Properties\<close>

text \<open>What has to succeed: the address is an origin, a client with the pinned certificate is built, the upstream answers
  the code with a credential, and the credential is well formed.\<close>

definition join_answered ::
  "'l externals \<Rightarrow> ('h, 'v) link_ops \<Rightarrow> string \<Rightarrow> string \<Rightarrow> string \<Rightarrow> string option \<Rightarrow> public_url \<Rightarrow> string \<Rightarrow> bool" where
  "join_answered x lo url code name f u' credential \<longleftrightarrow> (\<exists>u status body.
     public_url_from_str url = Inr u \<and> public_url_from_str (pu_origin u) = Inr u' \<and>
     lo_client_failure lo (client_backend f) = None \<and>
     lo_post lo (client_backend f) (EnrollCall (pu_origin u @ lo_enroll_path lo) (trim code) name) = Inr (status, Inr body) \<and>
     200 \<le> status \<and> status < 300 \<and> lo_credential_of lo body = Inr credential \<and>
     x_parse_credential x (trim credential) \<noteq> None)"

lemma request_credential_Inr:
  "request_credential lo url f code name = Inr credential \<longleftrightarrow> lo_client_failure lo (client_backend f) = None \<and>
     (\<exists>status body. lo_post lo (client_backend f) (EnrollCall url (trim code) name) = Inr (status, Inr body) \<and>
        200 \<le> status \<and> status < 300 \<and> lo_credential_of lo body = Inr credential)"
  by (auto simp: request_credential_def build_client_def Let_def split: option.splits sum.splits if_splits)

lemma join_answered_iff:
  "join_answered x lo url code name f u' credential \<longleftrightarrow> (\<exists>u. public_url_from_str url = Inr u \<and>
     request_credential lo (pu_origin u @ lo_enroll_path lo) f code name = Inr credential \<and>
     public_url_from_str (pu_origin u) = Inr u' \<and> x_parse_credential x (trim credential) \<noteq> None)"
  unfolding join_answered_def request_credential_Inr by blast

lemma join_upstream_eq:
  "join_upstream x lo url code name f db =
     (case public_url_from_str url of Inl e \<Rightarrow> (Inl (config_message e), db)
      | Inr u \<Rightarrow> (case request_credential lo (pu_origin u @ lo_enroll_path lo) f code name of Inl e \<Rightarrow> (Inl e, db)
      | Inr c \<Rightarrow> (case build_settings x (pu_origin u) c f of Inl e \<Rightarrow> (Inl e, db)
      | Inr st \<Rightarrow> (case store_settings lo st db of
            (Inl e, db') \<Rightarrow> (Inl ''store-failed'', db') | (Inr v, db') \<Rightarrow> (Inr st, db')))))"
  by (simp add: join_upstream_def bindE_def check_eq map_err_def okE_def split: sum.split prod.split)

lemma join_upstream_Inr:
  assumes "join_upstream x lo url code name f db = (Inr st, db')"
  obtains u' credential where "join_answered x lo url code name f u' credential" "us_url st = pu_origin u'" "us_fingerprint st = f"
proof -
  from assms obtain u c where u: "public_url_from_str url = Inr u" "request_credential lo (pu_origin u @ lo_enroll_path lo) f code name = Inr c"
    "build_settings x (pu_origin u) c f = Inr st"
    by (auto simp: join_upstream_eq split: sum.splits prod.splits)
  from u(3) obtain u' where b: "public_url_from_str (pu_origin u) = Inr u'" "us_url st = pu_origin u'" "us_credential st = trim c"
      "us_fingerprint st = f" "x_parse_credential x (us_credential st) \<noteq> None"
    by (rule build_settings_Inr)
  with u(1,2) have "join_answered x lo url code name f u' c" unfolding join_answered_iff by (intro exI [of _ u]) simp
  then show ?thesis using that b by blast
qed

lemma stored_when:
  "store_settings lo st db = (r, db') \<Longrightarrow> d_fail db (d_stmts db) \<longleftrightarrow> (\<exists>e. r = Inl e)"
  by (auto simp: store_settings_def write_setting_def with_now_def now_millis_def statement_cases split: if_splits)

text \<open>C38: joining an upstream succeeds exactly when every step does: the address is an origin, the client is built with the
  given pin, the upstream answers the code with a credential, the credential is well formed, and the store takes
  the settings. Otherwise nothing is stored. On success exactly the settings that are returned are stored, with the credential and
  the pin, reading them gives them back, and the tunnel will be dialled over TLS exactly when the given address is an https one.\<close>

theorem join_stores_on_success:
  assumes "\<forall>st. lo_decode lo (lo_encode lo st) = Inr st"
  shows "case join_upstream x lo url code name f db of
     (Inl e, db') \<Rightarrow> d_settings db' = d_settings db \<and>
       (d_fail db (d_stmts db) \<or> (\<nexists>u' credential. join_answered x lo url code name f u' credential))
   | (Inr st, db') \<Rightarrow> \<not> d_fail db (d_stmts db) \<and>
       (\<exists>u' credential. join_answered x lo url code name f u' credential \<and>
         us_credential st = trim credential \<and> us_fingerprint st = f \<and>
         tunnel_url lo st = (if pu_secure u' then ''wss://'' else ''ws://'') @ pu_host u' @ lo_tunnel_path lo) \<and>
       fst (load_settings lo (db'\<lparr>d_fail := (\<lambda>_. False)\<rparr>)) = Inr (Some st)"
proof (cases "\<exists>u' credential. join_answered x lo url code name f u' credential")
  case False
  then have "(\<exists>e. join_upstream x lo url code name f db = (Inl e, db))"
    by (cases "public_url_from_str url"; force simp: join_upstream_eq join_answered_iff build_settings_def Let_def
        split: sum.splits option.splits)
  with False show ?thesis by auto
next
  case True
  then obtain u u' credential where ans: "join_answered x lo url code name f u' credential"
    and u: "public_url_from_str url = Inr u" "request_credential lo (pu_origin u @ lo_enroll_path lo) f code name = Inr credential"
      "public_url_from_str (pu_origin u) = Inr u'" "x_parse_credential x (trim credential) \<noteq> None"
    by (auto simp: join_answered_iff)
  obtain st where st: "build_settings x (pu_origin u) credential f = Inr st" "us_url st = pu_origin u'"
    "us_credential st = trim credential" "us_fingerprint st = f"
    by (rule that [of "\<lparr>us_url = pu_origin u', us_credential = trim credential, us_fingerprint = f\<rparr>"])
       (use u(3,4) in \<open>auto simp: build_settings_def Let_def\<close>)
  have url: "tunnel_url lo st = (if pu_secure u' then ''wss://'' else ''ws://'') @ pu_host u' @ lo_tunnel_path lo"
    using settings_urls [OF u(3) st(2)] by (simp add: tunnel_url_def)
  obtain r db' where w: "store_settings lo st db = (r, db')" by fastforce
  note fails = stored_when [OF w] and stored = w [unfolded store_settings_def]
  show ?thesis
  proof (cases r)
    case (Inl e)
    with u st(1) w fails write_setting_Inl [OF stored [unfolded Inl]] show ?thesis by (simp add: join_upstream_eq)
  next
    case (Inr v)
    from stored [unfolded Inr] obtain now where "d_settings db' = AList.update setting_upstream (lo_encode lo st, now) (d_settings db)"
      by (rule write_setting_Inr)
    then have "fst (load_settings lo (db'\<lparr>d_fail := (\<lambda>_. False)\<rparr>)) = Inr (Some st)"
      using assms by (simp add: load_settings_def bindE_def read_setting_def query_def statement_cases map_err_def okE_def)
    with u(1,2) st w fails Inr ans url show ?thesis by (auto simp: join_upstream_eq)
  qed
qed


text \<open>A link whose upstream answers every code with the credential \<open>id:s\<close>; the rendering of its settings marks
  every character, so that it can be read back.\<close>

definition mark_chars :: "string \<Rightarrow> string" where
  "mark_chars s = concat (map (\<lambda>c. [CHR ''a'', c]) s) @ ''b''"

fun read_marked :: "string \<Rightarrow> string \<times> string" where
  "read_marked (a # c # s) = (if a = CHR ''a'' then let (r, rest) = read_marked s in (c # r, rest) else ([], c # s))"
| "read_marked s = ([], [])"

lemma read_mark: "read_marked (mark_chars s @ rest) = (s, rest)"
proof (induction s)
  case Nil
  show ?case by (cases rest) (simp_all add: mark_chars_def)
next
  case (Cons c s)
  then show ?case by (simp add: mark_chars_def)
qed

definition sample_link_ops :: "((string \<times> string) list, string) link_ops" where
  "sample_link_ops = \<lparr>
     lo_encode = (\<lambda>st. mark_chars (us_url st) @ mark_chars (us_credential st) @
       (case us_fingerprint st of Some f \<Rightarrow> mark_chars f | None \<Rightarrow> [])),
     lo_decode = (\<lambda>s. let (u, s1) = read_marked s; (c, s2) = read_marked s1
        in Inr \<lparr>us_url = u, us_credential = c, us_fingerprint = (if s2 = [] then None else Some (fst (read_marked s2)))\<rparr>),
     lo_client_failure = (\<lambda>_. None), lo_post = (\<lambda>_ _. Inr (200, Inr ''id:s'')), lo_credential_of = Inr, lo_failure_of = Some, lo_sha256_hex = (\<lambda>_. []),
     lo_enroll_path = ''/api/enroll'', lo_tunnel_path = ''/tunnel'', lo_version = ''1.0'', lo_headers = list_headers,
     lo_request = (\<lambda>_. True)\<rparr>"

lemma sample_link_ops_decode: "lo_decode sample_link_ops (lo_encode sample_link_ops st) = Inr st"
proof -
  have "mark_chars s \<noteq> []" for s by (simp add: mark_chars_def)
  then show ?thesis
    using read_mark [of _ "[]"] by (cases "us_fingerprint st") (simp_all add: sample_link_ops_def read_mark)
qed

lemma sample_upstream_url: "public_url_from_str ''https://up.example/'' =
    Inr \<lparr>pu_origin = ''https://up.example'', pu_host = ''up.example'', pu_secure = True\<rparr>"
proof -
  have "trim ''https://up.example/'' = ''https://up.example/''" by (rule trim_graphic) (simp_all add: graphic_def)
  then show ?thesis
    by (simp add: public_url_from_str_def strip_prefix_def trim_end_matches_def path_char_def Let_def)
qed

lemma answered_join:
  assumes "d_fail db = (\<lambda>_. False)" "\<forall>call. lo_post lo (client_backend f) call = Inr (200, Inr ''id:s'')"
    and "lo_credential_of lo = Inr" "lo_client_failure lo = (\<lambda>_. None)"
  shows "\<exists>st db'. join_upstream sample_x lo ''https://up.example/'' ''ABCD'' name f db = (Inr st, db')"
proof -
  have t: "trim ''id:s'' = ''id:s''" "trim ''https://up.example'' = ''https://up.example''"
    by (rule trim_graphic, simp_all add: graphic_def)+
  have again: "public_url_from_str ''https://up.example'' =
      Inr \<lparr>pu_origin = ''https://up.example'', pu_host = ''up.example'', pu_secure = True\<rparr>"
    by (simp add: public_url_from_str_def t strip_prefix_def trim_end_matches_def path_char_def Let_def)
  have cred: "x_parse_credential sample_x ''id:s'' = Some (''id'', ''s'')" by (simp add: sample_x_def)
  show ?thesis
    using assms by (simp add: join_upstream_def bindE_def check_eq sample_upstream_url request_credential_def build_client_def build_settings_def
        again t cred store_settings_def write_setting_def with_now_def now_millis_def statement_cases map_err_def okE_def)
qed

lemma sample_join:
  assumes "d_fail db = (\<lambda>_. False)"
  shows "\<exists>st db'. join_upstream sample_x sample_link_ops ''https://up.example/'' ''ABCD'' name None db = (Inr st, db')"
  by (rule answered_join [OF assms]) (simp_all add: sample_link_ops_def)

theorem join_stores_on_success_witness:
  "\<exists>st db'. join_upstream sample_x sample_link_ops ''https://up.example/'' ''ABCD'' ''n'' None sample_db = (Inr st, db') \<and>
     fst (load_settings sample_link_ops (db'\<lparr>d_fail := (\<lambda>_. False)\<rparr>)) = Inr (Some st)"
proof -
  have "d_fail sample_db = (\<lambda>_. False)" by (simp add: sample_db_def)
  with sample_join obtain st db' where run: "join_upstream sample_x sample_link_ops ''https://up.example/'' ''ABCD'' ''n'' None
      sample_db = (Inr st, db')" by blast
  have "\<forall>st. lo_decode sample_link_ops (lo_encode sample_link_ops st) = Inr st" by (simp add: sample_link_ops_decode)
  from join_stores_on_success [OF this, where x = sample_x and url = "''https://up.example/''" and code = "''ABCD''"
      and name = "''n''" and f = None and db = sample_db] run
  show ?thesis by auto
qed

end
