(* ===== verification/Upstream.thy ===== *)
theory Upstream
  imports Upstream_Settings Tunnel
begin

text \<open>
  This relay as a device of another one: the state of the link and its supervisor (\<^verbatim>\<open>src/upstream/mod.rs\<close>),
  one session of it (\<^verbatim>\<open>src/upstream/session.rs\<close>) and the console's endpoints for it (\<^verbatim>\<open>src/api/relays.rs\<close>).
  What the network and the other tasks do is given as data: the outcome of dialling, what is read, which
  branch of a \<^verbatim>\<open>select!\<close> fires and whether a write succeeds, and how the shared state changed in
  between. Cancelling a session drops it where it stands, so nothing after that point runs.
\<close>

section \<open>State\<close>

datatype upstream_state = UpConnecting | UpConnected | UpError

record link_status =
  lk_url :: string
  lk_state :: upstream_state
  lk_relay_id :: "string option"
  lk_error :: "string option"

record upstream_view =
  uv_url :: string
  uv_state :: upstream_state
  uv_relay_id :: "string option"
  uv_chain :: "string list"
  uv_error :: "string option"

text \<open>The shared state with the status of the link, which is \<^verbatim>\<open>None\<close> while no upstream is configured.\<close>

record 'l node =
  nd_relay :: "'l relay"
  nd_status :: "link_status option"

definition on_relay :: "('l relay \<Rightarrow> 'r \<times> 'l relay) \<Rightarrow> 'l node \<Rightarrow> 'r \<times> 'l node" where
  "on_relay m n = (let (r, s) = m (nd_relay n) in (r, n\<lparr>nd_relay := s\<rparr>))"

definition with_relay :: "('l relay \<Rightarrow> 'l relay) \<Rightarrow> 'l node \<Rightarrow> 'l node" where
  "with_relay f n = n\<lparr>nd_relay := f (nd_relay n)\<rparr>"

definition link_view :: "'l node \<Rightarrow> upstream_view option" where
  "link_view n = map_option (\<lambda>status.
     \<lparr>uv_url = lk_url status, uv_state = lk_state status, uv_relay_id = lk_relay_id status,
      uv_chain = upstream_chain (nd_relay n), uv_error = lk_error status\<rparr>) (nd_status n)"

definition set_connecting :: "string \<Rightarrow> 'l node \<Rightarrow> 'l node" where
  "set_connecting url n = n\<lparr>nd_status := Some
     (case nd_status n of
        Some existing \<Rightarrow>
          if lk_url existing = url then existing\<lparr>lk_state := UpConnecting\<rparr>
          else \<lparr>lk_url = url, lk_state = UpConnecting, lk_relay_id = None, lk_error = None\<rparr>
      | None \<Rightarrow> \<lparr>lk_url = url, lk_state = UpConnecting, lk_relay_id = None, lk_error = None\<rparr>)\<rparr>"

definition set_connected :: "string \<Rightarrow> 'l node \<Rightarrow> 'l node" where
  "set_connected relay_id n = n\<lparr>nd_status := map_option
     (\<lambda>status. status\<lparr>lk_state := UpConnected, lk_relay_id := Some relay_id, lk_error := None\<rparr>) (nd_status n)\<rparr>"

definition set_error :: "string \<Rightarrow> 'l node \<Rightarrow> 'l node" where
  "set_error message n = n\<lparr>nd_status := map_option
     (\<lambda>status. status\<lparr>lk_state := UpError, lk_error := Some message\<rparr>) (nd_status n)\<rparr>"

definition set_reach :: "upstream_reach \<Rightarrow> 'l node \<Rightarrow> 'l node" where
  "set_reach reach = with_relay (\<lambda>s. s\<lparr>rl_reach := reach\<rparr>)"

definition clear_reach :: "'l node \<Rightarrow> 'l node" where
  "clear_reach = set_reach no_reach"

text \<open>\<^verbatim>\<open>start\<close>, whose new task is \<open>supervise\<close> below, and \<^verbatim>\<open>stop\<close>; both drop the running task first.\<close>

definition link_start :: "upstream_settings \<Rightarrow> 'l node \<Rightarrow> 'l node" where
  "link_start settings n = set_connecting (us_url settings) n"

definition link_stop :: "'l node \<Rightarrow> 'l node" where
  "link_stop n = (clear_reach n)\<lparr>nd_status := None\<rparr>"

definition publish_addresses :: "'l externals \<Rightarrow> 'l relay \<Rightarrow> 'l relay" where
  "publish_addresses x s =
     fold (\<lambda>device s. case od_route device of
         Direct handle \<Rightarrow> send_frame handle (Addresses (state_addresses x s (od_device_id device))) s
       | Via _ _ \<Rightarrow> s) (snapshot (rl_registry s)) s"

definition record_connected :: "'l externals \<Rightarrow> upstream_settings \<Rightarrow> string \<Rightarrow> 'l relay \<Rightarrow> 'l relay" where
  "record_connected x settings relay_id s = snd (audit x (audit_detail ''url'' (JStr (us_url settings))
     (audit_target ''relay'' relay_id (by_system ''upstream-connected''))) s)"

definition record_disconnected :: "'l externals \<Rightarrow> upstream_settings \<Rightarrow> string \<Rightarrow> 'l relay \<Rightarrow> 'l relay" where
  "record_disconnected x settings reason s = snd (audit x (audit_detail ''reason'' (JStr reason)
     (audit_detail ''url'' (JStr (us_url settings)) (by_system ''upstream-disconnected''))) s)"

section \<open>One session\<close>

datatype session_end = EndRevoked string | EndRefused string | EndLooped string | EndInterrupted string

fun end_message :: "session_end \<Rightarrow> string" where
  "end_message (EndRevoked reason) = reason"
| "end_message (EndRefused reason) = reason"
| "end_message (EndLooped reason) = reason"
| "end_message (EndInterrupted reason) = reason"

record session_outcome =
  so_connected :: bool
  so_end :: session_end

definition failed :: "session_end \<Rightarrow> session_outcome" where
  "failed e = \<lparr>so_connected = False, so_end = e\<rparr>"

record welcome_frame =
  we_device_id :: string
  we_relay_id :: string
  we_addresses :: "relay_address list"
  we_chain :: "string list"

definition refuse_loop :: "'l relay \<Rightarrow> welcome_frame \<Rightarrow> session_end option" where
  "refuse_loop s w =
     (if we_relay_id w = rl_relay_id s \<or> rl_relay_id s \<in> set (we_chain w)
      then Some (EndLooped ''loop-detected'') else None)"

definition adopt :: "'l externals \<Rightarrow> upstream_settings \<Rightarrow> welcome_frame \<Rightarrow> 'l node \<Rightarrow> 'l node" where
  "adopt x settings w n =
     with_relay (publish_addresses x)
       (with_relay (record_connected x settings (we_relay_id w))
         (set_connected (we_relay_id w)
           (set_reach (from_welcome (x_device_prefix x) (we_device_id w) (we_relay_id w) (we_addresses w) (we_chain w)) n)))"

definition withdraw :: "'l externals \<Rightarrow> upstream_settings \<Rightarrow> string \<Rightarrow> 'l node \<Rightarrow> 'l node" where
  "withdraw x settings reason n =
     with_relay (publish_addresses x) (with_relay (record_disconnected x settings reason) (clear_reach n))"

datatype dial_error = HttpAnswer nat | DialFailed string

fun connect_failure :: "dial_error \<Rightarrow> session_end" where
  "connect_failure (HttpAnswer status) =
     (if 400 \<le> status \<and> status < 500 then EndRefused (''refused-http-'' @ decimal status)
      else EndInterrupted ''unreachable'')"
| "connect_failure (DialFailed e) = EndInterrupted (''unreachable: '' @ e)"

definition tunnel_request :: "('h, 'v) link_ops \<Rightarrow> upstream_settings \<Rightarrow> string + unit" where
  "tunnel_request lo settings =
     (if \<not> lo_request lo (tunnel_url lo settings) then Inl ''invalid-tunnel-address''
      else case v_from_str (lo_headers lo) (''Bearer '' @ us_credential settings) of
             None \<Rightarrow> Inl ''credential-not-a-header''
           | Some _ \<Rightarrow> Inr ())"

text \<open>The TLS configuration the tunnel is dialled with: without a pin the library's default connector. What dialling the
  address with it gives is \<open>dial\<close>.\<close>

definition tunnel_connector :: "upstream_settings \<Rightarrow> tls_backend" where
  "tunnel_connector settings =
     (case map_option Preconfigured (client_config (us_fingerprint settings)) of
        Some connector \<Rightarrow> connector
      | None \<Rightarrow> PlatformRoots)"

definition link_connect ::
  "('h, 'v) link_ops \<Rightarrow> upstream_settings \<Rightarrow> (string \<Rightarrow> tls_backend \<Rightarrow> dial_error + unit) \<Rightarrow> session_end + unit" where
  "link_connect lo settings dial =
     (case tunnel_request lo settings of
        Inl e \<Rightarrow> Inl (EndInterrupted e)
      | Inr _ \<Rightarrow> (case dial (tunnel_url lo settings) (tunnel_connector settings) of Inl e \<Rightarrow> Inl (connect_failure e) | Inr _ \<Rightarrow> Inr ()))"

definition hello_frame :: "'l externals \<Rightarrow> ('h, 'v) link_ops \<Rightarrow> 'l relay \<Rightarrow> control_frame" where
  "hello_frame x lo s = Hello (x_protocol_version x) Relay (lo_version lo)
     (pu_host (da_public_url (rl_addressing s))) (Some (rl_relay_id s))"

text \<open>What is read from the socket: a text is decoded or the error of decoding it, and \<open>UpBinary\<close> tells
  whether the multiplexer took the bytes.\<close>

datatype up_read =
    UpText "string + control_frame"
  | UpBinary bool
  | UpClose "(nat \<times> string) option"
  | UpOther
  | UpFailed string
  | UpEnded

definition close_reason :: "'l externals \<Rightarrow> (nat \<times> string) option \<Rightarrow> session_end" where
  "close_reason x frame =
     (case frame of
        None \<Rightarrow> EndInterrupted ''socket-closed''
      | Some (code, reason) \<Rightarrow>
          if code = x_close_revoked x then EndRevoked reason
          else if code = x_close_unauthorized x then EndRefused reason
          else EndInterrupted (''closed: '' @ reason))"

definition decode_control :: "string + control_frame \<Rightarrow> session_end + control_frame" where
  "decode_control text0 = map_sum (\<lambda>e. EndInterrupted (''undecodable: '' @ e)) id text0"

definition read_failure :: "string \<Rightarrow> session_end" where
  "read_failure e = EndInterrupted (''read-failed: '' @ e)"

fun next_control_frame :: "'l externals \<Rightarrow> up_read list \<Rightarrow> (session_end + control_frame) option" where
  "next_control_frame x [] = None"
| "next_control_frame x (r # rs) =
     (case r of
        UpEnded \<Rightarrow> Some (Inl (EndInterrupted ''socket-closed''))
      | UpText text0 \<Rightarrow> Some (decode_control text0)
      | UpClose frame \<Rightarrow> Some (Inl (close_reason x frame))
      | UpFailed e \<Rightarrow> Some (Inl (read_failure e))
      | _ \<Rightarrow> next_control_frame x rs)"

text \<open>Nothing decisive read in time is the timeout.\<close>

definition await_welcome :: "'l externals \<Rightarrow> up_read list \<Rightarrow> session_end + welcome_frame" where
  "await_welcome x rs =
     (case next_control_frame x rs of
        None \<Rightarrow> Inl (EndInterrupted ''welcome-timeout'')
      | Some (Inl e) \<Rightarrow> Inl e
      | Some (Inr (Welcome device_id relay_id addresses chain)) \<Rightarrow>
          Inr \<lparr>we_device_id = device_id, we_relay_id = relay_id, we_addresses = addresses, we_chain = chain\<rparr>
      | Some (Inr (AuthFailed reason)) \<Rightarrow> Inl (EndRefused reason)
      | Some (Inr (Revoked reason)) \<Rightarrow> Inl (EndRevoked reason)
      | Some (Inr _) \<Rightarrow> Inl (EndInterrupted ''unexpected-handshake''))"

definition is_routable_for :: "announced_device \<Rightarrow> string \<Rightarrow> bool" where
  "is_routable_for device upstream_relay_id \<longleftrightarrow> upstream_relay_id \<notin> set (ad_via device)"

definition snapshot_frame :: "'l relay \<Rightarrow> string \<Rightarrow> control_frame" where
  "snapshot_frame s upstream_relay_id =
     Announce (filter (\<lambda>device. is_routable_for device upstream_relay_id) (announcements (rl_registry s)))"

fun announcement_frame :: "registry_change \<Rightarrow> string \<Rightarrow> control_frame option" where
  "announcement_frame (Online device) upstream_relay_id =
     (if \<not> is_routable_for device upstream_relay_id then None
      else Some (DeviceOnline (ad_id device) (ad_name device) (ad_via device)))"
| "announcement_frame (Offline device_id) upstream_relay_id = Some (DeviceOffline device_id)"

text \<open>A round of the session: why it ends, if it does, the frame that was written, and the state.\<close>

type_synonym 'l round = "session_end option \<times> control_frame list \<times> 'l node"

definition send_control :: "bool \<Rightarrow> control_frame \<Rightarrow> 'l node \<Rightarrow> 'l round" where
  "send_control sent frame n =
     (if sent then (None, [frame], n) else (Some (EndInterrupted ''send-failed''), [], n))"

definition handle_control :: "'l externals \<Rightarrow> welcome_frame \<Rightarrow> string + control_frame \<Rightarrow> bool \<Rightarrow> 'l node \<Rightarrow> 'l round" where
  "handle_control x w text0 sent n =
     (case text0 of
        Inl _ \<Rightarrow> (None, [], n)
      | Inr frame \<Rightarrow>
          (case frame of
             Addresses addresses \<Rightarrow>
               (None, [], with_relay (publish_addresses x)
                 (set_reach (from_welcome (x_device_prefix x) (we_device_id w) (we_relay_id w) addresses (we_chain w)) n))
           | Revoked reason \<Rightarrow> (Some (EndRevoked reason), [], n)
           | AuthFailed reason \<Rightarrow> (Some (EndRefused reason), [], n)
           | Ping \<Rightarrow> send_control sent Pong n
           | _ \<Rightarrow> (None, [], n)))"

definition handle_message :: "'l externals \<Rightarrow> welcome_frame \<Rightarrow> up_read \<Rightarrow> bool \<Rightarrow> 'l node \<Rightarrow> 'l round" where
  "handle_message x w message sent n =
     (case message of
        UpText text0 \<Rightarrow> handle_control x w text0 sent n
      | UpBinary taken \<Rightarrow> (if taken then None else Some (EndInterrupted ''multiplexer-closed''), [], n)
      | UpClose frame \<Rightarrow> (Some (close_reason x frame), [], n)
      | UpOther \<Rightarrow> (None, [], n)
      | UpFailed e \<Rightarrow> (Some (read_failure e), [], n)
      | UpEnded \<Rightarrow> (Some (EndInterrupted ''socket-closed''), [], n))"

datatype pump_event =
    PumpIdle
  | PumpTick bool
  | PumpChange registry_change bool
  | PumpLagged bool
  | PumpFeedClosed
  | PumpPayload bool
  | PumpPayloadGone
  | PumpRead up_read bool

definition pump_round :: "'l externals \<Rightarrow> welcome_frame \<Rightarrow> pump_event \<Rightarrow> 'l node \<Rightarrow> 'l round" where
  "pump_round x w event n =
     (case event of
        PumpIdle \<Rightarrow> (Some (EndInterrupted ''idle-timeout''), [], n)
      | PumpTick sent \<Rightarrow> send_control sent Ping n
      | PumpChange change sent \<Rightarrow>
          (case announcement_frame change (we_relay_id w) of
             None \<Rightarrow> (None, [], n)
           | Some frame \<Rightarrow> send_control sent frame n)
      | PumpLagged sent \<Rightarrow> send_control sent (snapshot_frame (nd_relay n) (we_relay_id w)) n
      | PumpFeedClosed \<Rightarrow> (Some (EndInterrupted ''registry-closed''), [], n)
      | PumpPayload sent \<Rightarrow> (if sent then None else Some (EndInterrupted ''send-data-failed''), [], n)
      | PumpPayloadGone \<Rightarrow> (Some (EndInterrupted ''multiplexer-closed''), [], n)
      | PumpRead message sent \<Rightarrow> handle_message x w message sent n)"

text \<open>The loop of \<^verbatim>\<open>pump\<close>; with each round comes what the other tasks did to the shared state before it. Running
  out of rounds means that the session is still up, or was cancelled there.\<close>

fun pump_rounds ::
  "'l externals \<Rightarrow> welcome_frame \<Rightarrow> (('l relay \<Rightarrow> 'l relay) \<times> pump_event) list \<Rightarrow> 'l node \<Rightarrow> 'l round" where
  "pump_rounds x w [] n = (None, [], n)"
| "pump_rounds x w ((others, event) # rounds) n =
     (case pump_round x w event (with_relay others n) of
        (Some e, frames, n1) \<Rightarrow> (Some e, frames, n1)
      | (None, frames, n1) \<Rightarrow>
          (let (e, frames2, n2) = pump_rounds x w rounds n1 in (e, frames @ frames2, n2)))"

definition pump ::
  "'l externals \<Rightarrow> welcome_frame \<Rightarrow> bool \<Rightarrow> (('l relay \<Rightarrow> 'l relay) \<times> pump_event) list \<Rightarrow> 'l node \<Rightarrow> 'l round" where
  "pump x w sent rounds n =
     (case send_control sent (snapshot_frame (nd_relay n) (we_relay_id w)) n of
        (Some e, frames, n1) \<Rightarrow> (Some e, frames, n1)
      | (None, frames, n1) \<Rightarrow>
          (let (e, frames2, n2) = pump_rounds x w rounds n1 in (e, frames @ frames2, n2)))"

record 'l attempt =
  at_before :: "'l relay \<Rightarrow> 'l relay"
  at_dial :: "string \<Rightarrow> tls_backend \<Rightarrow> dial_error + unit"
  at_hello :: bool
  at_reads :: "up_read list"
  at_snapshot :: bool
  at_rounds :: "(('l relay \<Rightarrow> 'l relay) \<times> pump_event) list"

definition session_run ::
  "'l externals \<Rightarrow> ('h, 'v) link_ops \<Rightarrow> upstream_settings \<Rightarrow> 'l attempt \<Rightarrow> 'l node
     \<Rightarrow> session_outcome option \<times> control_frame list \<times> 'l node" where
  "session_run x lo settings a n =
     (case link_connect lo settings (at_dial a) of
        Inl e \<Rightarrow> (Some (failed e), [], n)
      | Inr _ \<Rightarrow>
          (case send_control (at_hello a) (hello_frame x lo (nd_relay n)) n of
             (Some e, _, _) \<Rightarrow> (Some (failed e), [], n)
           | (None, hello, _) \<Rightarrow>
               (case await_welcome x (at_reads a) of
                  Inl e \<Rightarrow> (Some (failed e), hello, n)
                | Inr w \<Rightarrow>
                    (case refuse_loop (nd_relay n) w of
                       Some e \<Rightarrow> (Some (failed e), hello, n)
                     | None \<Rightarrow>
                         (case pump x w (at_snapshot a) (at_rounds a) (adopt x settings w n) of
                            (None, frames, n1) \<Rightarrow> (None, hello @ frames, n1)
                          | (Some e, frames, n1) \<Rightarrow>
                              (Some \<lparr>so_connected = True, so_end = e\<rparr>, hello @ frames,
                               withdraw x settings (end_message e) n1))))))"

section \<open>The supervisor\<close>

datatype supervisor_step = StepStop | StepRevoked | StepLooped | StepRetry nat

text \<open>\<^verbatim>\<open>Backoff\<close> is the protocol crate's: a state with \<open>reset\<close> and \<open>take\<close>.\<close>

definition next_step :: "('b \<Rightarrow> 'b) \<Rightarrow> ('b \<Rightarrow> nat \<times> 'b) \<Rightarrow> session_outcome \<Rightarrow> 'b \<Rightarrow> supervisor_step \<times> 'b" where
  "next_step reset take_delay outcome backoff =
     (let backoff1 = (if so_connected outcome then reset backoff else backoff)
      in case so_end outcome of
           EndRevoked _ \<Rightarrow> (StepRevoked, backoff1)
         | EndRefused _ \<Rightarrow> (StepStop, backoff1)
         | EndLooped _ \<Rightarrow> (StepLooped, backoff1)
         | EndInterrupted _ \<Rightarrow> (let (delay, backoff2) = take_delay backoff1 in (StepRetry delay, backoff2)))"

definition forget :: "'l externals \<Rightarrow> upstream_settings \<Rightarrow> string \<Rightarrow> 'l node \<Rightarrow> 'l node" where
  "forget x settings reason n =
     (let n1 = with_relay (\<lambda>s. snd (audit x (audit_detail ''reason'' (JStr reason)
                 (audit_detail ''url'' (JStr (us_url settings)) (by_system ''upstream-revoked''))) s)) n;
          n2 = with_relay (swallow clear_settings) n1;
          n3 = (clear_reach n2)\<lparr>nd_status := None\<rparr>
      in with_relay (publish_addresses x) n3)"

text \<open>What the supervisor does about the end of a session, before it returns or waits.\<close>

definition conclude :: "'l externals \<Rightarrow> upstream_settings \<Rightarrow> supervisor_step \<Rightarrow> string \<Rightarrow> 'l node \<Rightarrow> 'l node" where
  "conclude x settings step reason n =
     (case step of
        StepRevoked \<Rightarrow> forget x settings reason n
      | StepLooped \<Rightarrow>
          set_error reason (with_relay (\<lambda>s. snd (audit x
            (audit_detail ''url'' (JStr (us_url settings)) (by_system ''upstream-loop-refused'')) s)) n)
      | StepStop \<Rightarrow> set_error reason n
      | StepRetry _ \<Rightarrow> set_error reason n)"

text \<open>The loop ends with a step that is not a retry. Running out of attempts means that the supervisor was
  cancelled or is still waiting.\<close>

fun supervise ::
  "'l externals \<Rightarrow> ('h, 'v) link_ops \<Rightarrow> ('b \<Rightarrow> 'b) \<Rightarrow> ('b \<Rightarrow> nat \<times> 'b) \<Rightarrow> upstream_settings \<Rightarrow> 'l attempt list
     \<Rightarrow> 'b \<Rightarrow> 'l node \<Rightarrow> supervisor_step option \<times> 'b \<times> 'l node" where
  "supervise x lo reset take_delay settings [] backoff n = (None, backoff, n)"
| "supervise x lo reset take_delay settings (a # attempts) backoff n =
     (case session_run x lo settings a (set_connecting (us_url settings) (with_relay (at_before a) n)) of
        (None, _, n1) \<Rightarrow> (None, backoff, n1)
      | (Some outcome, _, n1) \<Rightarrow>
          (let (step, backoff1) = next_step reset take_delay outcome backoff;
               n2 = conclude x settings step (end_message (so_end outcome)) n1
           in case step of
                StepRetry _ \<Rightarrow> supervise x lo reset take_delay settings attempts backoff1 n2
              | _ \<Rightarrow> (Some step, backoff1, n2)))"

section \<open>Joining and leaving\<close>

definition establish ::
  "'l externals \<Rightarrow> ('h, 'v) link_ops \<Rightarrow> string \<Rightarrow> string \<Rightarrow> string \<Rightarrow> string option \<Rightarrow> string option \<Rightarrow> database
     \<Rightarrow> (string + upstream_settings) \<times> database" where
  "establish x lo url code name fingerprint actor =
     bindE (join_upstream x lo url code name fingerprint) (\<lambda>settings db.
       let entry = (case actor of
                      Some user_id \<Rightarrow> by_user user_id ''upstream-linked''
                    | None \<Rightarrow> by_system ''upstream-linked'')
       in okE settings (audit_write x (audit_detail ''pinned'' (JBool (us_fingerprint settings \<noteq> None))
            (audit_detail ''url'' (JStr (us_url settings)) entry)) db))"

definition default_link_name :: string where
  "default_link_name = ''termexo-relay''"

definition stored_host :: "database \<Rightarrow> string \<times> database" where
  "stored_host db =
     (let (stored, db1) = read_setting setting_public_url db
      in (case stored of
            Inr (Some url) \<Rightarrow> (case public_url_from_str url of Inr u \<Rightarrow> pu_host u | Inl _ \<Rightarrow> default_link_name)
          | _ \<Rightarrow> default_link_name, db1))"

definition link_name :: "string option \<Rightarrow> database \<Rightarrow> string \<times> database" where
  "link_name requested db =
     (case non_blank requested of Some name \<Rightarrow> (name, db) | None \<Rightarrow> stored_host db)"

text \<open>The \<^verbatim>\<open>link\<close> subcommand, on a database that is open already.\<close>

definition link_command ::
  "'l externals \<Rightarrow> ('h, 'v) link_ops \<Rightarrow> string \<Rightarrow> string \<Rightarrow> string option \<Rightarrow> string option \<Rightarrow> database
     \<Rightarrow> (string + upstream_settings) \<times> database" where
  "link_command x lo url code requested fingerprint db =
     (let (name, db1) = link_name requested db
      in bindE (check_some (\<lambda>f. check (normalize_fingerprint f)) fingerprint) (\<lambda>pinned.
           establish x lo url code name pinned None) db1)"

definition resume :: "('h, 'v) link_ops \<Rightarrow> 'l node \<Rightarrow> 'l node" where
  "resume lo n =
     (case on_relay (lift_db (load_settings lo)) n of
        (Inr (Some settings), n1) \<Rightarrow> link_start settings n1
      | (_, n1) \<Rightarrow> n1)"

definition upstream_connect ::
  "'l externals \<Rightarrow> ('h, 'v) link_ops \<Rightarrow> string \<Rightarrow> string \<Rightarrow> string option \<Rightarrow> string \<Rightarrow> 'l node
     \<Rightarrow> (string + upstream_view) \<times> 'l node" where
  "upstream_connect x lo url code fingerprint actor n =
     bindE (on_relay (lift_db (establish x lo url code (pu_host (da_public_url (rl_addressing (nd_relay n))))
         fingerprint (Some actor)))) (\<lambda>settings n1.
       let n2 = link_start settings n1
       in (case link_view n2 of Some shown \<Rightarrow> Inr shown | None \<Rightarrow> Inl ''no-upstream'', n2)) n"

definition upstream_disconnect :: "'l externals \<Rightarrow> string \<Rightarrow> 'l node \<Rightarrow> (string + unit) \<times> 'l node" where
  "upstream_disconnect x actor n =
     (let previous = link_view n;
          n1 = with_relay (publish_addresses x) (link_stop n)
      in bindE (map_err (\<lambda>_. ''database'') (on_relay (lift_db clear_settings))) (\<lambda>_ n2.
           (Inr (), with_relay (\<lambda>s. snd (audit x (audit_detail ''url''
              (JStr (case previous of Some shown \<Rightarrow> uv_url shown | None \<Rightarrow> []))
              (by_user actor ''upstream-unlinked'')) s)) n2)) n1)"

section \<open>The console's relay page\<close>

record downstream_view =
  dv_device_id :: string
  dv_name :: string
  dv_online :: bool
  dv_device_count :: nat

record upstream_request =
  ur_url :: string
  ur_code :: string
  ur_fingerprint :: "string option"

definition list_relays ::
  "'l externals \<Rightarrow> ('h, 'v) header_ops \<Rightarrow> 'h \<Rightarrow> 'l node
     \<Rightarrow> (api_error + upstream_view option \<times> downstream_view list) \<times> 'l node" where
  "list_relays x ops headers =
     bindE (on_relay (admin_user x ops headers)) (\<lambda>_ n.
       (Inr (link_view n, sort_key dv_name (map (\<lambda>link.
          \<lparr>dv_device_id = dl_device_id link, dv_name = dl_name link, dv_online = True,
           dv_device_count = dl_device_count link\<rparr>) (downstream_links (rl_registry (nd_relay n))))), n))"

definition max_url_length :: nat where
  "max_url_length = 256"

definition max_code_length :: nat where
  "max_code_length = 128"

definition optional_fingerprint :: "string option \<Rightarrow> api_error + string option" where
  "optional_fingerprint value =
     (case non_blank value of
        None \<Rightarrow> Inr None
      | Some f \<Rightarrow> map_sum (\<lambda>e. bad_request (Opaque e)) Some (normalize_fingerprint f))"

definition set_upstream ::
  "'l externals \<Rightarrow> ('h, 'v) link_ops \<Rightarrow> 'h \<Rightarrow> upstream_request \<Rightarrow> 'l node \<Rightarrow> (api_error + upstream_view) \<times> 'l node" where
  "set_upstream x lo headers request =
     bindE (on_relay (admin_user x (lo_headers lo) headers)) (\<lambda>admin.
     bindE (check (require_text (ur_url request) ''url'' max_url_length)) (\<lambda>url.
     bindE (check (require_text (ur_code request) ''code'' max_code_length)) (\<lambda>code.
     bindE (check (optional_fingerprint (ur_fingerprint request))) (\<lambda>fingerprint.
       map_err (\<lambda>e. bad_request (Opaque e)) (upstream_connect x lo url code fingerprint (u_id (fst admin)))))))"

definition clear_upstream ::
  "'l externals \<Rightarrow> ('h, 'v) header_ops \<Rightarrow> 'h \<Rightarrow> 'l node \<Rightarrow> (api_error + unit) \<times> 'l node" where
  "clear_upstream x ops headers =
     bindE (on_relay (admin_user x ops headers)) (\<lambda>admin.
       map_err (\<lambda>e. bad_request (Opaque e)) (upstream_disconnect x (u_id (fst admin))))"

end
