(* ===== verification/Upstream_Laws.thy ===== *)
theory Upstream_Laws
  imports Upstream
begin

text \<open>
  What the link to an upstream achieves: the frames of a session describe the routing table exactly (from
  the subscription to the change feed, through the snapshot, to the changes that follow), the addresses a
  session contributes are gone when the supervisor gives up, and what changing the upstream leaves behind.
\<close>

section \<open>What the upstream hears\<close>

text \<open>The devices an upstream knows of after a frame of this link.\<close>

fun hear :: "(string \<rightharpoonup> announced_device) \<Rightarrow> control_frame \<Rightarrow> (string \<rightharpoonup> announced_device)" where
  "hear v (Announce devices) = map_of (map (\<lambda>d. (ad_id d, d)) devices)"
| "hear v (DeviceOnline i name via) = v(i \<mapsto> \<lparr>ad_id = i, ad_name = name, ad_online = True, ad_via = via\<rparr>)"
| "hear v (DeviceOffline i) = v(i := None)"
| "hear v _ = v"

text \<open>Two facts about every table that was built by its methods: entries are filed under their own ids, and
  every published device is online.\<close>

definition keyed :: "(string \<times> entry) list \<Rightarrow> bool" where
  "keyed es \<longleftrightarrow> distinct (map fst es) \<and> (\<forall>d e. map_of es d = Some e \<longrightarrow> od_device_id (e_device e) = d)"

definition log_online :: "registry_change list \<Rightarrow> bool" where
  "log_online cs \<longleftrightarrow> (\<forall>a. Online a \<in> set cs \<longrightarrow> ad_online a)"

definition sound :: "registry \<Rightarrow> bool" where
  "sound r \<longleftrightarrow> keyed (r_entries r) \<and> log_online (r_published r)"

lemma keyed_update: "keyed es \<Longrightarrow> od_device_id (e_device e) = d \<Longrightarrow> keyed (AList.update d e es)"
  by (auto simp: keyed_def)

lemma keyed_delete: "keyed es \<Longrightarrow> keyed (AList.delete d es)"
  by (auto simp: keyed_def)

lemma transition_online: "transition rid d p c = Some (Online a) \<Longrightarrow> ad_online a"
  by (auto simp: transition_def announcement_of_def split: option.splits if_splits bind_splits)

lemma log_online_simps [simp]:
  "log_online []" "log_online (cs @ ds) \<longleftrightarrow> log_online cs \<and> log_online ds"
  "log_online (option_list (transition rid d p c))"
  by (auto simp: log_online_def dest: transition_online)

lemma sound_publish: "sound r \<Longrightarrow> log_online cs \<Longrightarrow> sound (publish cs r)"
  by (simp add: sound_def publish_def)

lemma sound_remove:
  "keyed es \<Longrightarrow> remove_entries rid ds es = (cs, es') \<Longrightarrow> keyed es' \<and> log_online cs"
proof (induction rid ds es arbitrary: cs es' rule: remove_entries.induct)
  case (2 rid d ds es)
  show ?case
  proof (cases "map_of es d")
    case None
    with 2 show ?thesis by (simp add: remove_entries.simps)
  next
    case (Some e)
    obtain cs1 es1 where r: "remove_entries rid ds (AList.delete d es) = (cs1, es1)" by fastforce
    from 2(2) [OF Some keyed_delete [OF 2(3)] r] 2(4) Some r show ?thesis by (auto simp: remove_entries.simps)
  qed
qed (simp add: remove_entries.simps)

lemma sound_connect: "sound r \<Longrightarrow> sound (snd (connect p now r))"
  by (simp add: sound_def connect_def connect_locked_def next_sequence_def publish_def Let_def keyed_update)

lemma sound_disconnect: "sound r \<Longrightarrow> sound (snd (disconnect d serial r))"
  by (auto simp: sound_def disconnect_def disconnect_locked_def publish_def Let_def dest: sound_remove split: prod.splits)

lemma sound_announce: "sound r \<Longrightarrow> sound (snd (announce_device max_hops l h now d r))"
  by (auto simp: sound_def announce_device_def announce_locked_def next_sequence_def publish_def Let_def keyed_update
      split: prod.splits if_splits option.splits)

lemma sound_withdraw: "sound r \<Longrightarrow> sound (withdraw_device l d now r)"
  by (auto simp: sound_def withdraw_device_def withdraw_locked_def publish_def Let_def keyed_delete
      split: prod.splits if_splits option.splits)

lemma sound_install: "sound r \<Longrightarrow> sound (snd (install_devices max_hops l h now ds inst r))"
proof (induction ds arbitrary: inst r)
  case (Cons d ds)
  then show ?case using sound_announce [of r max_hops l h now d] by (auto simp: split_beta Let_def)
qed simp

lemma sound_snapshot: "sound r \<Longrightarrow> sound (apply_announcement max_hops l h now ds r)"
proof -
  have "sound r \<Longrightarrow> sound (withdraw_all l now stale r)" for r stale
    by (induction stale arbitrary: r) (simp_all add: withdraw_all_def sound_withdraw)
  then show "sound r \<Longrightarrow> sound (apply_announcement max_hops l h now ds r)"
    by (simp add: apply_announcement_def split_beta Let_def sound_install)
qed

lemma sound_exec: "sound r \<Longrightarrow> sound (exec_op max_hops op r)"
  by (cases op) (simp_all add: sound_connect sound_disconnect sound_announce sound_withdraw sound_snapshot)

lemma sound_run: "sound r \<Longrightarrow> sound (fold (exec_op max_hops) ops r)"
  by (induction ops arbitrary: r) (simp_all add: sound_exec)

lemma sound_new: "sound (new_registry relay_id)"
  by (simp add: sound_def new_registry_def keyed_def)

lemma announcements_view:
  assumes "keyed (r_entries r)"
  shows "map_of (map (\<lambda>a. (ad_id a, a)) (announcements r)) = view r"
proof -
  have "map_of (map (\<lambda>a. (ad_id a, a)) (List.map_filter (\<lambda>(_, e). announcement_of rid e) es)) = view_of rid es"
    if "keyed es" for rid es
    using that
  proof (induction es)
    case Nil
    then show ?case by (simp add: view_of_def map_filter_def fun_eq_iff)
  next
    case (Cons de es)
    obtain d e where de: "de = (d, e)" by (cases de)
    have d: "distinct (map fst es)" "d \<notin> fst ` set es" "map_of (de # es) i = (if i = d then Some e else map_of es i)" for i
      using Cons.prems by (simp_all add: keyed_def de)
    then have none: "map_of es d = None" by (simp add: map_of_eq_None_iff)
    have id: "map_of (de # es) i = Some f \<longrightarrow> od_device_id (e_device f) = i" for i f
      using Cons.prems unfolding keyed_def by blast
    have "od_device_id (e_device f) = i" if "map_of es i = Some f" for i f
    proof -
      from that none have "i \<noteq> d" by auto
      with that d(3) [of i] id [of i f] show ?thesis by simp
    qed
    then have k: "keyed es" "od_device_id (e_device e) = d"
      using d id [of d e] by (simp_all add: keyed_def)
    note none
    with Cons.IH [OF k(1)] k(2) show ?case
      by (cases "announcement_of rid e")
         (auto simp: de map_filter_simps view_of_def fun_eq_iff announcement_of_id)
  qed
  with assms show ?thesis by (simp add: announcements_def view_def)
qed

fun change_of :: "('s \<Rightarrow> 's) \<times> pump_event \<Rightarrow> registry_change option" where
  "change_of (_, PumpChange c _) = Some c"
| "change_of _ = None"

fun is_lagged :: "('s \<Rightarrow> 's) \<times> pump_event \<Rightarrow> bool" where
  "is_lagged (_, PumpLagged _) = True"
| "is_lagged _ = False"

lemma hear_change:
  assumes "\<And>a. c = Online a \<Longrightarrow> is_routable_for a u \<and> ad_online a"
  shows "(case announcement_frame c u of None \<Rightarrow> v | Some f \<Rightarrow> hear v f) = apply_change v c"
proof (cases c)
  case (Online a)
  with assms have "is_routable_for a u" "ad_online a" by blast+
  with Online show ?thesis by (cases a) simp
qed simp

lemma round_heard:
  assumes "pump_round x w ev n = (None, frames, n')" "\<not> is_lagged (g, ev)"
    and "\<And>a. change_of (g, ev) = Some (Online a) \<Longrightarrow> is_routable_for a (we_relay_id w) \<and> ad_online a"
  shows "foldl hear v frames = foldl apply_change v (option_list (change_of (g, ev)))"
proof (cases ev)
  case (PumpChange c sent)
  with assms hear_change [of c "we_relay_id w" v] show ?thesis
    by (auto simp: pump_round_def send_control_def split: option.splits if_splits)
next
  case (PumpRead m sent)
  with assms(1) show ?thesis
    by (auto simp: pump_round_def handle_message_def handle_control_def send_control_def
        split: up_read.splits sum.splits control_frame.splits if_splits)
qed (use assms in \<open>auto simp: pump_round_def send_control_def split: if_splits\<close>)

lemma rounds_heard:
  assumes "pump_rounds x w rounds n = (None, frames, n')" "list_all (\<lambda>r. \<not> is_lagged r) rounds"
    and "\<And>a. Online a \<in> set (List.map_filter change_of rounds) \<Longrightarrow> is_routable_for a (we_relay_id w) \<and> ad_online a"
  shows "foldl hear v frames = foldl apply_change v (List.map_filter change_of rounds)"
  using assms
proof (induction rounds arbitrary: n frames v)
  case Nil
  then show ?case by (simp add: map_filter_def)
next
  case (Cons r rounds)
  obtain g ev where r: "r = (g, ev)" by (cases r)
  from Cons.prems(1) r obtain f1 f2 n1 where p: "pump_round x w ev (with_relay g n) = (None, f1, n1)"
      "pump_rounds x w rounds n1 = (None, f2, n')" "frames = f1 @ f2"
    by (auto simp: Let_def split: prod.splits option.splits)
  have ok: "is_routable_for a (we_relay_id w) \<and> ad_online a" if "Online a \<in> set (List.map_filter change_of rounds)" for a
    using Cons.prems(3) that by (auto simp: map_filter_simps split: option.splits)
  have "foldl hear v f1 = foldl apply_change v (option_list (change_of (g, ev)))"
    using Cons.prems(2,3) r by (intro round_heard [OF p(1)]) (auto simp: map_filter_simps)
  moreover have "foldl hear v' f2 = foldl apply_change v' (List.map_filter change_of rounds)" for v'
    using Cons.prems(2) ok by (intro Cons.IH [OF p(2)]) auto
  ultimately show ?case by (simp add: p(3) r map_filter_simps split: option.split)
qed


section \<open>What a session leaves behind\<close>

text \<open>What other tasks leave alone: the addresses of the chain above belong to the link.\<close>

definition quiet :: "('l relay \<Rightarrow> 'l relay) \<Rightarrow> bool" where
  "quiet f \<longleftrightarrow> (\<forall>s. rl_reach (f s) = rl_reach s \<and> rl_relay_id (f s) = rl_relay_id s)"

definition quiet_attempt :: "'l attempt \<Rightarrow> bool" where
  "quiet_attempt a \<longleftrightarrow> quiet (at_before a) \<and> list_all (\<lambda>(g, _). quiet g) (at_rounds a)"

lemma send_frame_keeps [simp]:
  "rl_reach (send_frame h f s) = rl_reach s" "rl_relay_id (send_frame h f s) = rl_relay_id s"
  by (simp_all add: send_frame_def try_send_def)

lemma fold_keeps:
  assumes "\<And>a s. f (g a s) = f s"
  shows "f (fold g as s) = f s"
  using assms by (induction as arbitrary: s) simp_all

lemma publish_addresses_keeps [simp]:
  "rl_reach (publish_addresses x s) = rl_reach s" "rl_relay_id (publish_addresses x s) = rl_relay_id s"
  unfolding publish_addresses_def by (rule fold_keeps; simp split: route_kind.split)+

lemma audit_keeps [simp]: "rl_reach (snd (audit x e s)) = rl_reach s" "rl_relay_id (snd (audit x e s)) = rl_relay_id s"
  by (simp_all add: audit_eq)

lemma link_steps [simp]:
  "nd_relay (set_connecting url n) = nd_relay n" "nd_relay (set_error m n) = nd_relay n"
  "nd_relay (set_connected i n) = nd_relay n" "nd_relay (with_relay f n) = f (nd_relay n)"
  "nd_status (with_relay f n) = nd_status n" "nd_relay (set_reach c n) = (nd_relay n)\<lparr>rl_reach := c\<rparr>"
  by (simp_all add: set_connecting_def set_error_def set_connected_def with_relay_def set_reach_def)

lemma adopt_relay:
  "rl_relay_id (nd_relay (adopt x settings w n)) = rl_relay_id (nd_relay n)"
  "reach_chain (rl_reach (nd_relay (adopt x settings w n))) = we_relay_id w # we_chain w"
  by (simp_all add: adopt_def record_connected_def from_welcome_def Let_def)

lemma withdraw_relay:
  "rl_relay_id (nd_relay (withdraw x settings m n)) = rl_relay_id (nd_relay n)"
  "rl_reach (nd_relay (withdraw x settings m n)) = no_reach"
  by (simp_all add: withdraw_def record_disconnected_def clear_reach_def)

definition on_chain :: "welcome_frame \<Rightarrow> 'l node \<Rightarrow> 'l node \<Rightarrow> bool" where
  "on_chain w n n' \<longleftrightarrow> rl_relay_id (nd_relay n') = rl_relay_id (nd_relay n) \<and>
     (reach_chain (rl_reach (nd_relay n)) = we_relay_id w # we_chain w \<longrightarrow>
      reach_chain (rl_reach (nd_relay n')) = we_relay_id w # we_chain w)"

lemma round_on_chain: "pump_round x w ev n = (e, frames, n') \<Longrightarrow> on_chain w n n'"
  by (auto simp: pump_round_def handle_message_def handle_control_def send_control_def on_chain_def from_welcome_def Let_def
      split: pump_event.splits option.splits up_read.splits sum.splits control_frame.splits if_splits)

lemma rounds_on_chain:
  "pump_rounds x w rounds n = (e, frames, n') \<Longrightarrow> list_all (\<lambda>(g, _). quiet g) rounds \<Longrightarrow> on_chain w n n'"
proof (induction rounds arbitrary: n frames)
  case Nil
  then show ?case by (simp add: on_chain_def)
next
  case (Cons r rounds)
  obtain g ev where r: "r = (g, ev)" by (cases r)
  obtain e1 f1 n1 where p: "pump_round x w ev (with_relay g n) = (e1, f1, n1)" by (cases "pump_round x w ev (with_relay g n)")
  have "on_chain w n (with_relay g n)" using Cons.prems(2) r by (simp add: on_chain_def quiet_def)
  moreover note round_on_chain [OF p]
  moreover have "on_chain w n1 n' \<or> n' = n1"
    using Cons r p by (cases e1) (auto simp: Let_def split: prod.splits)
  ultimately show ?case by (auto simp: on_chain_def)
qed

lemma pump_on_chain:
  "pump x w sent rounds n = (e, frames, n') \<Longrightarrow> list_all (\<lambda>(g, _). quiet g) rounds \<Longrightarrow> on_chain w n n'"
  using rounds_on_chain [of x w rounds n]
  by (auto simp: pump_def send_control_def on_chain_def Let_def split: if_splits prod.splits)

lemma session_run_cases:
  assumes "session_run x lo settings a n = (r, frames, n')" "quiet_attempt a"
  obtains (failed) e where "r = Some (failed e)" "n' = n"
  | (ended) e where "r = Some \<lparr>so_connected = True, so_end = e\<rparr>" "rl_reach (nd_relay n') = no_reach"
      "rl_relay_id (nd_relay n') = rl_relay_id (nd_relay n)"
  | (open_) "r = None" "rl_relay_id (nd_relay n') \<notin> set (reach_chain (rl_reach (nd_relay n')))"
      "rl_relay_id (nd_relay n') = rl_relay_id (nd_relay n)"
proof (cases "\<exists>e. r = Some (failed e) \<and> n' = n")
  case True
  with failed show thesis by blast
next
  case False
  obtain u where link: "link_connect lo settings (at_dial a) = Inr u"
    using assms(1) False by (cases "link_connect lo settings (at_dial a)") (auto simp: session_run_def)
  have hello: "at_hello a"
    using assms(1) False link by (cases "at_hello a") (auto simp: session_run_def send_control_def)
  obtain w where await: "await_welcome x (at_reads a) = Inr w"
    using assms(1) False link hello by (cases "await_welcome x (at_reads a)") (auto simp: session_run_def send_control_def)
  have w: "refuse_loop (nd_relay n) w = None"
    using assms(1) False link hello await
    by (cases "refuse_loop (nd_relay n) w") (auto simp: session_run_def send_control_def)
  have run: "(case pump x w (at_snapshot a) (at_rounds a) (adopt x settings w n) of
        (None, fs, n1) \<Rightarrow> (None, [hello_frame x lo (nd_relay n)] @ fs, n1)
      | (Some e, fs, n1) \<Rightarrow> (Some \<lparr>so_connected = True, so_end = e\<rparr>, [hello_frame x lo (nd_relay n)] @ fs,
           withdraw x settings (end_message e) n1)) = (r, frames, n')"
    using assms(1) link hello await w by (simp add: session_run_def send_control_def)
  obtain e fs n1 where p: "pump x w (at_snapshot a) (at_rounds a) (adopt x settings w n) = (e, fs, n1)" by (metis surj_pair)
  have c: "on_chain w (adopt x settings w n) n1"
    by (rule pump_on_chain [OF p]) (use assms(2) in \<open>simp add: quiet_attempt_def\<close>)
  show thesis
  proof (cases e)
    case None
    with c p run w adopt_relay [of x settings w n] show thesis
      by (intro open_) (auto simp: on_chain_def refuse_loop_def split: if_splits)
  next
    case (Some end0)
    with c p run adopt_relay [of x settings w n] show thesis
      by (intro ended [of end0]) (auto simp: on_chain_def withdraw_relay)
  qed
qed

section \<open>Theorems\<close>

text \<open>A link that subscribes to the change feed, sends a snapshot some operations later and then forwards what
  it receives has told the upstream, as long as the session lasts and the feed does not lag, exactly the devices the
  table can reach. The feed delivers what was published since the subscription; the devices are not reached
  through the upstream itself.\<close>

lemma upstream_is_told:
  assumes start: "start = fold (exec_op max_hops) ops (new_registry relay_id)"
    and copied: "rl_registry (nd_relay n) = fold (exec_op max_hops) before start"
    and final: "final = fold (exec_op max_hops) (before @ after) start"
    and feed: "List.map_filter change_of rounds = drop (length (r_published start)) (r_published final)"
    and lag: "list_all (\<lambda>r. \<not> is_lagged r) rounds"
    and apart: "list_all (\<lambda>d. is_routable_for d (we_relay_id w)) (announcements (rl_registry (nd_relay n)))"
      "list_all (\<lambda>c. case c of Online d \<Rightarrow> is_routable_for d (we_relay_id w) | Offline _ \<Rightarrow> True) (r_published final)"
    and up: "pump x w sent rounds n = (None, frames, n')"
  shows "foldl hear Map.empty frames = view final"
proof -
  let ?copied = "rl_registry (nd_relay n)"
  have sound: "sound ?copied" "sound final" by (simp_all add: start copied final sound_run sound_new)
  from up obtain fs where fs: "frames = Announce (announcements ?copied) # fs" "pump_rounds x w rounds n = (None, fs, n')"
    using apart(1) by (auto simp: pump_def send_control_def snapshot_frame_def list_all_iff filter_True Let_def
        split: if_splits prod.splits)
  have "foldl hear (view ?copied) fs = foldl apply_change (view ?copied) (List.map_filter change_of rounds)"
  proof (rule rounds_heard [OF fs(2) lag])
    fix a
    assume "Online a \<in> set (List.map_filter change_of rounds)"
    then have "Online a \<in> set (r_published final)" unfolding feed by (rule in_set_dropD)
    with apart(2) sound(2) show "is_routable_for a (we_relay_id w) \<and> ad_online a"
      by (auto simp: list_all_iff sound_def log_online_def)
  qed
  also have "\<dots> = view final" unfolding feed copied final by (rule table_feed.late_copy)
  finally show ?thesis using sound(1) by (simp add: fs(1) announcements_view sound_def)
qed

definition sample_welcome :: welcome_frame where
  "sample_welcome = \<lparr>we_device_id = ''dev'', we_relay_id = ''U'', we_addresses = [], we_chain = [''T'']\<rparr>"

definition bare_node :: "string list node" where
  "bare_node = \<lparr>nd_relay = sample_relay\<lparr>rl_registry := new_registry ''A''\<rparr>, nd_status = None\<rparr>"

lemma new_table: "r_published (new_registry i) = []" "announcements (new_registry i) = []"
  by (simp_all add: new_registry_def announcements_def map_filter_def)

lemma desk_arrives: "snd (connect sample_desktop 10 (new_registry ''A'')) = desk_table 1 [(''desk'', desk_entry 0)] [desk_online]"
  by (simp add: connect_def next_sequence_def new_registry_def desk_defs connect_locked_def transition_def announcement_of_def
      publish_def Let_def)

theorem upstream_is_told_witness:
  "\<exists>frames n'. pump sample_x sample_welcome True [(\<lambda>s. s, PumpChange desk_online True)] bare_node = (None, frames, n') \<and>
     foldl hear Map.empty frames = view (desk_table 1 [(''desk'', desk_entry 0)] [desk_online])"
proof -
  obtain e frames n' where p: "pump sample_x sample_welcome True [(\<lambda>s. s, PumpChange desk_online True)] bare_node = (e, frames, n')"
    by (metis surj_pair)
  then have "e = None"
    by (auto simp: pump_def send_control_def pump_round_def Let_def desk_online_def split: option.splits if_splits prod.splits)
  with p have p: "pump sample_x sample_welcome True [(\<lambda>s. s, PumpChange desk_online True)] bare_node = (None, frames, n')" by simp
  have "foldl hear Map.empty frames = view (desk_table 1 [(''desk'', desk_entry 0)] [desk_online])"
    by (rule upstream_is_told [OF _ _ _ _ _ _ _ p, where start = "new_registry ''A''" and ops = "[]" and before = "[]"
          and after = "[OpConnect sample_desktop 10]" and max_hops = 8 and relay_id = "''A''"])
      (simp_all add: desk_arrives bare_node_def new_table desk_table_def map_filter_simps desk_online_def is_routable_for_def sample_welcome_def)
  with p show ?thesis by blast
qed

section \<open>Supervision\<close>

definition shows_url :: "string \<Rightarrow> 'l node \<Rightarrow> bool" where
  "shows_url url n \<longleftrightarrow> (\<exists>st. nd_status n = Some st \<and> lk_url st = url)"

lemma shows_url_steps:
  "shows_url url (set_connecting url n)" "shows_url url n \<Longrightarrow> shows_url url (set_connected i n)"
  "shows_url url n \<Longrightarrow> shows_url url (set_error m n)" "shows_url url (with_relay f n) = shows_url url n"
  "shows_url url (set_reach c n) = shows_url url n" "shows_url url (clear_reach n) = shows_url url n"
  by (auto simp: shows_url_def set_connecting_def set_connected_def set_error_def with_relay_def set_reach_def clear_reach_def
      split: option.split)

lemma round_shows: "pump_round x w ev n = (e, fs, n') \<Longrightarrow> shows_url url n' = shows_url url n"
  by (auto simp: pump_round_def handle_message_def handle_control_def send_control_def shows_url_steps
      split: pump_event.splits option.splits up_read.splits sum.splits control_frame.splits if_splits)

lemma rounds_show: "pump_rounds x w rounds n = (e, fs, n') \<Longrightarrow> shows_url url n' = shows_url url n"
proof (induction rounds arbitrary: n fs)
  case (Cons r rounds)
  obtain g ev where r: "r = (g, ev)" by (cases r)
  obtain e1 f1 n1 where p: "pump_round x w ev (with_relay g n) = (e1, f1, n1)" by (cases "pump_round x w ev (with_relay g n)")
  from Cons r p round_shows [OF p, of url] show ?case
    by (cases e1) (auto simp: Let_def shows_url_steps split: prod.splits)
qed simp

lemma session_shows:
  assumes "session_run x lo settings a n = (r, fs, n')" "shows_url url n"
  shows "shows_url url n'"
proof -
  have "shows_url url n1" if "pump x w sent rounds (adopt x settings w n) = (e, f, n1)" for w sent rounds e f n1
    using that rounds_show [of x w rounds "adopt x settings w n"] assms(2)
    by (auto simp: pump_def send_control_def adopt_def shows_url_steps Let_def split: if_splits prod.splits)
  with assms show ?thesis
    by (auto simp: session_run_def send_control_def withdraw_def shows_url_steps
        split: sum.splits option.splits if_splits prod.splits)
qed

definition sample_settings :: upstream_settings where
  "sample_settings = \<lparr>us_url = ''https://up.example'', us_credential = ''id:s'', us_fingerprint = None\<rparr>"

text \<open>How the supervisor leaves the node behind.\<close>

fun settled :: "('h, 'v) link_ops \<Rightarrow> string \<Rightarrow> supervisor_step option \<Rightarrow> 'l node \<Rightarrow> bool" where
  "settled lo url None n = (rl_relay_id (nd_relay n) \<notin> set (reach_chain (rl_reach (nd_relay n))))"
| "settled lo url (Some (StepRetry _)) n = False"
| "settled lo url (Some StepRevoked) n \<longleftrightarrow> rl_reach (nd_relay n) = no_reach \<and> nd_status n = None \<and>
     (d_fail (rl_db (nd_relay n)) = (\<lambda>_. False) \<longrightarrow> fst (load_settings lo (rl_db (nd_relay n))) = Inr None)"
| "settled lo url (Some step) n \<longleftrightarrow> rl_reach (nd_relay n) = no_reach \<and>
     (\<exists>st. nd_status n = Some st \<and> lk_url st = url \<and> lk_state st = UpError \<and> lk_error st \<noteq> None)"

lemma publish_addresses_db [simp]: "rl_db (publish_addresses x s) = rl_db s"
  unfolding publish_addresses_def by (rule fold_keeps; simp add: send_frame_def try_send_def split: route_kind.split)

lemma clear_settings_forgets:
  assumes "d_fail (snd (clear_settings db)) = (\<lambda>_. False)"
  shows "fst (load_settings lo (snd (clear_settings db))) = Inr None"
proof -
  have "d_fail (snd (clear_settings db)) = d_fail db"
    by (simp add: clear_settings_def delete_setting_def statement_cases)
  with assms have "\<not> d_fail db k" for k by (metis (full_types))
  then show ?thesis
    by (simp add: clear_settings_def delete_setting_def statement_cases load_settings_def bindE_def read_setting_def query_def
        map_err_def okE_def)
qed

lemma forget_settled: "settled lo url (Some StepRevoked) (forget x settings reason n)"
  by (simp add: clear_settings_forgets forget_def clear_reach_def set_reach_def with_relay_def swallow_def audit_eq Let_def)

lemma set_error_settled:
  assumes "shows_url url n" "rl_reach (nd_relay n) = no_reach"
  shows "\<exists>st. nd_status (set_error m n) = Some st \<and> lk_url st = url \<and> lk_state st = UpError \<and> lk_error st \<noteq> None"
  using assms by (auto simp: shows_url_def set_error_def)

text \<open>While this relay is linked to another, nothing it tells its devices about the chain above contains itself, whatever
  the upstream sends; and when the supervisor gives up, the addresses of the chain are gone: a link that was
  refused or would loop stays listed with its error, a revoked one is forgotten with its credential. Other tasks leave
  the addresses of the chain to the link.\<close>

lemma link_leaves_no_reach:
  assumes "supervise x lo reset take_delay settings attempts backoff n = (step, b, n')"
    and "rl_reach (nd_relay n) = no_reach" "list_all quiet_attempt attempts"
  shows "settled lo (us_url settings) step n'"
  using assms
proof (induction attempts arbitrary: backoff n)
  case Nil
  then show ?case by (simp add: no_reach_def)
next
  case (Cons a attempts)
  let ?n0 = "set_connecting (us_url settings) (with_relay (at_before a) n)"
  obtain r fs n1 where run: "session_run x lo settings a ?n0 = (r, fs, n1)" by (metis surj_pair)
  have a: "quiet_attempt a" using Cons.prems(3) by simp
  have n0: "rl_reach (nd_relay ?n0) = no_reach" using a Cons.prems(2) by (simp add: quiet_attempt_def quiet_def)
  have shown: "shows_url (us_url settings) n1" by (rule session_shows [OF run]) (rule shows_url_steps)
  show ?case
  proof (cases r)
    case None
    from run a have "settled lo (us_url settings) None n1"
      by (rule session_run_cases) (simp_all add: None)
    with Cons.prems(1) run None show ?thesis by simp
  next
    case (Some outcome)
    have reach: "rl_reach (nd_relay n1) = no_reach"
      using run a by (rule session_run_cases) (use n0 Some in auto)
    obtain st b1 where st: "next_step reset take_delay outcome backoff = (st, b1)" by fastforce
    show ?thesis
    proof (cases st)
      case StepRevoked
      with Cons.prems(1) run Some st show ?thesis by (auto simp: Let_def conclude_def intro: forget_settled simp del: settled.simps)
    next
      case StepStop
      with Cons.prems(1) run Some st set_error_settled [OF shown reach] reach show ?thesis by (auto simp: conclude_def)
    next
      case StepLooped
      with Cons.prems(1) run Some st set_error_settled [of "us_url settings" "with_relay f n1" for f] shown reach
      show ?thesis by (auto simp: Let_def conclude_def shows_url_steps)
    next
      case (StepRetry d)
      with Cons.prems(1) run Some st have
        "supervise x lo reset take_delay settings attempts b1 (set_error (end_message (so_end outcome)) n1) = (step, b, n')"
        by (simp add: Let_def conclude_def)
      with Cons.IH reach Cons.prems(3) show ?thesis by simp
    qed
  qed
qed

definition revoked_attempt :: "string list attempt" where
  "revoked_attempt = \<lparr>at_before = (\<lambda>s. s), at_dial = (\<lambda>_ _. Inr ()), at_hello = True,
     at_reads = [UpOther, UpText (Inr (Welcome ''dev'' ''U'' [] [''T'']))], at_snapshot = True,
     at_rounds = [(\<lambda>s. s, PumpRead (UpText (Inr (Revoked ''removed''))) True)]\<rparr>"

theorem link_leaves_no_reach_witness:
  "\<exists>b n'. supervise sample_x sample_link_ops (\<lambda>b. b) (\<lambda>b. (1, b)) sample_settings [revoked_attempt] () bare_node =
       (Some StepRevoked, b, n') \<and> rl_reach (nd_relay n') = no_reach \<and> nd_status n' = None"
proof -
  obtain step b n' where run: "supervise sample_x sample_link_ops (\<lambda>b. b) (\<lambda>b. (1, b)) sample_settings [revoked_attempt] ()
      bare_node = (step, b, n')" by (metis surj_pair)
  let ?w = "\<lparr>we_device_id = ''dev'', we_relay_id = ''U'', we_addresses = [], we_chain = [''T'']\<rparr>"
  have a: "link_connect sample_link_ops sample_settings (at_dial revoked_attempt) = Inr ()" "at_hello revoked_attempt"
    "await_welcome sample_x (at_reads revoked_attempt) = Inr ?w" "at_before revoked_attempt = (\<lambda>s. s)"
    by (simp_all add: revoked_attempt_def link_connect_def tunnel_request_def sample_link_ops_def sample_settings_def
        list_headers_def visible_def graphic_def await_welcome_def decode_control_def)
  let ?n0 = "set_connecting (us_url sample_settings) (with_relay (at_before revoked_attempt) bare_node)"
  obtain fs n1 where p: "pump sample_x ?w (at_snapshot revoked_attempt) (at_rounds revoked_attempt)
      (adopt sample_x sample_settings ?w ?n0) = (Some (EndRevoked ''removed''), fs, n1)"
    by (simp add: revoked_attempt_def pump_def send_control_def pump_round_def handle_message_def handle_control_def Let_def)
  have "rl_relay_id (nd_relay ?n0) = ''A''" by (simp add: a bare_node_def sample_relay_def)
  with p a have "\<exists>fs n1. session_run sample_x sample_link_ops sample_settings revoked_attempt ?n0 =
      (Some \<lparr>so_connected = True, so_end = EndRevoked ''removed''\<rparr>, fs, n1)"
    by (simp add: session_run_def send_control_def refuse_loop_def)
  with run have "step = Some StepRevoked" by (auto simp: next_step_def Let_def)
  moreover have "settled sample_link_ops (us_url sample_settings) step n'"
    by (rule link_leaves_no_reach [OF run])
       (simp_all add: bare_node_def sample_relay_def quiet_attempt_def quiet_def revoked_attempt_def)
  ultimately show ?thesis using run by simp
qed

section \<open>Changing the upstream\<close>

lemma connect_keeps_reach:
  assumes "upstream_connect x lo url code f actor n = (Inr shown, n1)"
  shows "rl_reach (nd_relay n1) = rl_reach (nd_relay n)" "uv_chain shown = reach_chain (rl_reach (nd_relay n))"
  using assms by (auto simp: upstream_connect_def bindE_def on_relay_def lift_db_def link_start_def set_connecting_def
      link_view_def upstream_chain_def Let_def split: prod.splits sum.splits)

lemma failed_attempts_keep_reach:
  assumes "supervise x lo reset take_delay settings attempts backoff n = (step, backoff', n')"
    and "list_all (\<lambda>a. quiet_attempt a \<and> at_dial a = (\<lambda>_ _. Inl (DialFailed e))) attempts"
  shows "rl_reach (nd_relay n') = rl_reach (nd_relay n)"
  using assms
proof (induction attempts arbitrary: backoff n)
  case (Cons a attempts)
  let ?n0 = "set_connecting (us_url settings) (with_relay (at_before a) n)"
  have a: "quiet_attempt a" "at_dial a = (\<lambda>_ _. Inl (DialFailed e))" using Cons.prems(2) by simp_all
  then obtain m where "link_connect lo settings (at_dial a) = Inl (EndInterrupted m)"
    by (cases "tunnel_request lo settings") (auto simp: link_connect_def)
  then have run: "session_run x lo settings a ?n0 = (Some (failed (EndInterrupted m)), [], ?n0)"
    by (simp add: session_run_def)
  obtain d b1 where "take_delay backoff = (d, b1)" by fastforce
  with run Cons.prems have "rl_reach (nd_relay n') = rl_reach (nd_relay (set_error m ?n0))"
    by (intro Cons.IH [of b1]) (simp_all add: next_step_def conclude_def failed_def Let_def)
  with a(1) show ?case by (simp add: quiet_attempt_def quiet_def)
qed simp

text \<open>An administrator who points the relay to another upstream ends the old session without its clean-up. The answer
  already shows the chain of the upstream that was left, and while the new one cannot be reached the devices keep being
  given its addresses and chain.\<close>

lemma unreachable_upstream_keeps_old_reach:
  assumes "upstream_connect x lo url code f actor n = (Inr shown, n1)"
    and "supervise x lo reset take_delay settings attempts backoff n1 = (step, backoff', n2)"
    and "list_all (\<lambda>a. quiet_attempt a \<and> at_dial a = (\<lambda>_ _. Inl (DialFailed e))) attempts"
  shows "uv_chain shown = upstream_chain (nd_relay n) \<and> rl_reach (nd_relay n2) = rl_reach (nd_relay n)"
  using connect_keeps_reach [OF assms(1)] failed_attempts_keep_reach [OF assms(2,3)] by (simp add: upstream_chain_def)

definition linked_node :: "string list node" where
  "linked_node = \<lparr>nd_relay = sample_relay\<lparr>rl_reach := \<lparr>reach_relays = [], reach_chain = [''OLD'']\<rparr>\<rparr>,
     nd_status = Some \<lparr>lk_url = ''https://old.example'', lk_state = UpConnected, lk_relay_id = Some ''OLD'', lk_error = None\<rparr>\<rparr>"

definition down_attempt :: "string list attempt" where
  "down_attempt = \<lparr>at_before = (\<lambda>s. s), at_dial = (\<lambda>_ _. Inl (DialFailed ''refused'')), at_hello = True, at_reads = [],
     at_snapshot = True, at_rounds = []\<rparr>"

theorem unreachable_upstream_keeps_old_reach_witness:
  "\<exists>shown n1 step b n2.
     upstream_connect sample_x sample_link_ops ''https://up.example/'' ''ABCD'' None ''u1'' linked_node = (Inr shown, n1) \<and>
     supervise sample_x sample_link_ops (\<lambda>b. b) (\<lambda>b. (1, b)) sample_settings [down_attempt] () n1 = (step, b, n2) \<and>
     reach_chain (rl_reach (nd_relay n2)) = [''OLD'']"
proof -
  have "d_fail (rl_db (nd_relay linked_node)) = (\<lambda>_. False)"
    by (simp add: linked_node_def relay_samples)
  with sample_join obtain st db where "join_upstream sample_x sample_link_ops ''https://up.example/'' ''ABCD''
      (pu_host (da_public_url (rl_addressing (nd_relay linked_node)))) None (rl_db (nd_relay linked_node)) = (Inr st, db)"
    by blast
  then obtain shown n1 where c:
      "upstream_connect sample_x sample_link_ops ''https://up.example/'' ''ABCD'' None ''u1'' linked_node = (Inr shown, n1)"
    by (auto simp: upstream_connect_def establish_def bindE_def okE_def on_relay_def lift_db_def link_start_def
        set_connecting_def link_view_def Let_def split: prod.splits)
  obtain step b n2 where run: "supervise sample_x sample_link_ops (\<lambda>b. b) (\<lambda>b. (1, b)) sample_settings [down_attempt] () n1
      = (step, b, n2)" by (metis surj_pair)
  have "list_all (\<lambda>a. quiet_attempt a \<and> at_dial a = (\<lambda>_ _. Inl (DialFailed ''refused''))) [down_attempt]"
    by (simp add: down_attempt_def quiet_attempt_def quiet_def)
  from unreachable_upstream_keeps_old_reach [OF c run this] c run show ?thesis by (auto simp: linked_node_def)
qed

end
