(* ===== verification/Relay_Node.thy ===== *)
theory Relay_Node
  imports Relay_System Upstream_Laws "HOL-Library.Multiset"
begin

text \<open>
  The relay with its link: the step relation of \<open>Relay_System\<close> interleaved with the task that keeps the link to
  an upstream up (\<^verbatim>\<open>src/upstream/mod.rs\<close>, \<^verbatim>\<open>src/upstream/session.rs\<close>) and with the console's requests that
  start and stop that task (\<^verbatim>\<open>src/api/relays.rs\<close>). Between any two awaits of the link, and between its
  subscription to the change feed and its snapshot, the rest of the relay may take any number of steps.

  The methods of the routing table collect their changes under its lock and send them once it is released
  (\<^verbatim>\<open>publish\<close>, \<^verbatim>\<open>src/registry.rs\<close>), so the changes of two methods may reach the feed in another order than
  they reached the table. \<open>log_of\<close> lists the changes in the order of the table, \<open>si_feed\<close> what has been sent, in
  the order it was sent, and \<open>si_unsent\<close> what each step has changed and not sent yet. The feed is read by
  position: \<open>Serving\<close> carries how much of it has been received and which frames have been written.
\<close>

section \<open>States and steps\<close>

datatype link_phase =
    Unlinked
  | Dialling upstream_settings
  | Adopted upstream_settings welcome_frame
  | Subscribed upstream_settings welcome_frame nat
  | Serving upstream_settings welcome_frame nat "control_frame list"
  | Waiting upstream_settings
  | GivenUp

record 'l site =
  si_system :: "'l system"
  si_status :: "link_status option"
  si_link :: link_phase
  si_feed :: "registry_change list"
  si_unsent :: "registry_change list list"

definition node_of :: "'l site \<Rightarrow> 'l node" where
  "node_of z = \<lparr>nd_relay = sy_relay (si_system z), nd_status = si_status z\<rparr>"

definition put_node :: "'l node \<Rightarrow> link_phase \<Rightarrow> 'l site \<Rightarrow> 'l site" where
  "put_node n ph z = z\<lparr>si_system := (si_system z)\<lparr>sy_relay := nd_relay n\<rparr>, si_status := nd_status n, si_link := ph\<rparr>"

definition resting :: "upstream_settings \<Rightarrow> supervisor_step \<Rightarrow> link_phase" where
  "resting settings step = (case step of StepRetry _ \<Rightarrow> Waiting settings | _ \<Rightarrow> GivenUp)"

text \<open>What a round takes from the change feed: the next change, or the news that some were dropped.\<close>

fun received :: "registry_change list \<Rightarrow> nat \<Rightarrow> pump_event \<Rightarrow> nat \<Rightarrow> bool" where
  "received log k (PumpChange c _) k' \<longleftrightarrow> k < length log \<and> log ! k = c \<and> k' = Suc k"
| "received log k (PumpLagged _) k' \<longleftrightarrow> k < k' \<and> k' \<le> length log"
| "received log k _ k' \<longleftrightarrow> k' = k"

definition log_of :: "'l site \<Rightarrow> registry_change list" where
  "log_of z = r_published (rl_registry (sy_relay (si_system z)))"

text \<open>A step of the rest of the relay: what it has added to the changes of the table waits to be sent.\<close>

definition unsent_of :: "registry_change list \<Rightarrow> registry_change list list" where
  "unsent_of cs = (if cs = [] then [] else [cs])"

definition put_system :: "'l system \<Rightarrow> 'l site \<Rightarrow> 'l site" where
  "put_system y z = z\<lparr>si_system := y, si_unsent := si_unsent z @
     unsent_of (drop (length (log_of z)) (r_published (rl_registry (sy_relay y))))\<rparr>"

inductive site_step ::
  "'l externals \<Rightarrow> ('h, 'v, 'u, 's, 'w) proxy_ops \<Rightarrow> ('h, 'v) link_ops \<Rightarrow> (string \<Rightarrow> string option) \<Rightarrow> 'l site \<Rightarrow> 'l site \<Rightarrow> bool"
  for x :: "'l externals" and p :: "('h, 'v, 'u, 's, 'w) proxy_ops" and lo :: "('h, 'v) link_ops"
    and assets :: "string \<Rightarrow> string option" where
  Inside: "system_step x p assets (si_system z) y \<Longrightarrow> site_step x p lo assets z (put_system y z)"
| Published: "si_unsent z = before @ (c # cs) # after \<Longrightarrow>
    site_step x p lo assets z (z\<lparr>si_feed := si_feed z @ [c], si_unsent := before @ unsent_of cs @ after\<rparr>)"
| Resumed: "si_link z = Unlinked \<Longrightarrow> fst (load_settings lo (rl_db (nd_relay (node_of z)))) = Inr (Some settings) \<Longrightarrow>
    site_step x p lo assets z (put_node (resume lo (node_of z)) (Dialling settings) z)"
| Listed: "list_relays x (po_headers p) headers (node_of z) = (r, n) \<Longrightarrow>
    site_step x p lo assets z (put_node n (si_link z) z)"
| Pointed: "set_upstream x lo headers request (node_of z) = (Inr shown, n) \<Longrightarrow> us_url settings = uv_url shown \<Longrightarrow>
    site_step x p lo assets z (put_node n (Dialling settings) z)"
| PointFailed: "set_upstream x lo headers request (node_of z) = (Inl e, n) \<Longrightarrow>
    site_step x p lo assets z (put_node n (si_link z) z)"
| Dropped: "fst (admin_user x (po_headers p) headers (nd_relay (node_of z))) = Inr admin \<Longrightarrow>
    clear_upstream x (po_headers p) headers (node_of z) = (r, n) \<Longrightarrow>
    site_step x p lo assets z (put_node n Unlinked z)"
| DropRefused: "fst (admin_user x (po_headers p) headers (nd_relay (node_of z))) = Inl e \<Longrightarrow>
    clear_upstream x (po_headers p) headers (node_of z) = (r, n) \<Longrightarrow>
    site_step x p lo assets z (put_node n (si_link z) z)"
| Failed: "si_link z = Dialling settings \<Longrightarrow> session_run x lo settings a (node_of z) = (Some (failed e), frames, n) \<Longrightarrow>
    next_step reset take_delay (failed e) () = (step, ()) \<Longrightarrow>
    site_step x p lo assets z (put_node (conclude x settings step (end_message e) n) (resting settings step) z)"
| Welcomed: "si_link z = Dialling settings \<Longrightarrow> link_connect lo settings dial = Inr () \<Longrightarrow> await_welcome x reads = Inr w \<Longrightarrow>
    refuse_loop (nd_relay (node_of z)) w = None \<Longrightarrow>
    site_step x p lo assets z (put_node (adopt x settings w (node_of z)) (Adopted settings w) z)"
| Subscribes: "si_link z = Adopted settings w \<Longrightarrow>
    site_step x p lo assets z (z\<lparr>si_link := Subscribed settings w (length (si_feed z))\<rparr>)"
| Copied: "si_link z = Subscribed settings w k \<Longrightarrow>
    send_control True (snapshot_frame (nd_relay (node_of z)) (we_relay_id w)) (node_of z) = (None, frames, n) \<Longrightarrow>
    site_step x p lo assets z (put_node n (Serving settings w k frames) z)"
| CopyFailed: "si_link z = Subscribed settings w k \<Longrightarrow>
    send_control False (snapshot_frame (nd_relay (node_of z)) (we_relay_id w)) (node_of z) = (Some e, frames, n) \<Longrightarrow>
    next_step reset take_delay \<lparr>so_connected = True, so_end = e\<rparr> () = (step, ()) \<Longrightarrow>
    site_step x p lo assets z (put_node (conclude x settings step (end_message e) (withdraw x settings (end_message e) n))
      (resting settings step) z)"
| Round: "si_link z = Serving settings w k told \<Longrightarrow> received (si_feed z) k ev k' \<Longrightarrow>
    pump_round x w ev (node_of z) = (None, frames, n) \<Longrightarrow>
    site_step x p lo assets z (put_node n (Serving settings w k' (told @ frames)) z)"
| RoundEnds: "si_link z = Serving settings w k told \<Longrightarrow> received (si_feed z) k ev k' \<Longrightarrow>
    pump_round x w ev (node_of z) = (Some e, frames, n) \<Longrightarrow>
    next_step reset take_delay \<lparr>so_connected = True, so_end = e\<rparr> () = (step, ()) \<Longrightarrow>
    site_step x p lo assets z (put_node (conclude x settings step (end_message e) (withdraw x settings (end_message e) n))
      (resting settings step) z)"
| Retried: "si_link z = Waiting settings \<Longrightarrow>
    site_step x p lo assets z (put_node (set_connecting (us_url settings) (node_of z)) (Dialling settings) z)"

inductive site_run ::
  "'l externals \<Rightarrow> ('h, 'v, 'u, 's, 'w) proxy_ops \<Rightarrow> ('h, 'v) link_ops \<Rightarrow> (string \<Rightarrow> string option) \<Rightarrow> 'l site \<Rightarrow> 'l site \<Rightarrow> bool"
  for x :: "'l externals" and p :: "('h, 'v, 'u, 's, 'w) proxy_ops" and lo :: "('h, 'v) link_ops"
    and assets :: "string \<Rightarrow> string option" where
  site_start: "site_run x p lo assets z z"
| site_more: "site_run x p lo assets z z1 \<Longrightarrow> site_step x p lo assets z1 z2 \<Longrightarrow> site_run x p lo assets z z2"

definition site_started :: "'l site \<Rightarrow> bool" where
  "site_started z \<longleftrightarrow> started (si_system z) \<and> rl_reach (sy_relay (si_system z)) = no_reach \<and> si_status z = None \<and>
     si_link z = Unlinked \<and> si_feed z = [] \<and> si_unsent z = []"

lemma put_system_simps [simp]:
  "si_system (put_system y z) = y" "si_status (put_system y z) = si_status z" "si_link (put_system y z) = si_link z"
  "si_feed (put_system y z) = si_feed z" "node_of (put_system y z) = (node_of z)\<lparr>nd_relay := sy_relay y\<rparr>"
  "log_of (put_system y z) = r_published (rl_registry (sy_relay y))"
  by (simp_all add: put_system_def node_of_def log_of_def)

lemma put_system_same: "rl_registry (sy_relay y) = rl_registry (sy_relay (si_system z)) \<Longrightarrow> put_system y z = z\<lparr>si_system := y\<rparr>"
  by (simp add: put_system_def log_of_def unsent_of_def)

lemma concat_unsent_of [simp]: "concat (unsent_of cs) = cs"
  by (simp add: unsent_of_def)

section \<open>What the rest of the relay does to the table\<close>

lemma effect_reach: "api_effect s s' \<Longrightarrow> rl_reach s' = rl_reach s \<and> rl_relay_id s' = rl_relay_id s \<and> rl_registry s' = rl_registry s"
  by (simp add: api_effect_def)

lemma register_keeps: "register x pr s = (serial, s') \<Longrightarrow> rl_reach s' = rl_reach s \<and> rl_relay_id s' = rl_relay_id s"
  by (auto simp: register_def with_clock_eq close_tunnel_def try_send_def Let_def split: prod.splits option.splits)

lemma system_step_reach:
  "system_step x p assets y y' \<Longrightarrow> rl_reach (sy_relay y') = rl_reach (sy_relay y) \<and> rl_relay_id (sy_relay y') = rl_relay_id (sy_relay y)"
proof (induction rule: system_step.induct)
  case (Connected t y frame sent hello answer serial s)
  from Connected(4) show ?case
    by (rule tunnel_connect_eq) (auto simp: audit_eq swallow_def dest: register_keeps)
next
  case (Frame t y serial kind frame)
  then show ?case
    by (auto simp: handle_control_frame_def with_clock_eq split: control_frame.split)
next
  case (Ended t y serial kind cause)
  then show ?case by (simp add: tunnel_disconnect_def audit_eq swallow_def Let_def)
qed (auto dest!: effect_host effect_upgrade simp: effect_reach exec_api_effect [THEN effect_reach] leave_effect [THEN effect_reach])

lemma frame_table:
  "\<exists>ops. rl_registry (handle_control_frame x h kind frame s) = fold (exec_op (x_max_hops x)) ops (rl_registry s)"
proof -
  have none: "\<exists>ops. r = fold (exec_op m) ops r" for m r by (rule exI [of _ "[]"]) simp
  have one: "\<exists>ops. exec_op m op r = fold (exec_op m) ops r" for m op r by (rule exI [of _ "[op]"]) simp
  note table = one [of "x_max_hops x" "OpAnnounce _ _ _ _"] one [of "x_max_hops x" "OpWithdraw _ _ _"]
    one [of "x_max_hops x" "OpSnapshot _ _ _ _"]
  show ?thesis
    using none table [unfolded exec_op.simps]
    by (auto simp: handle_control_frame_def with_clock_eq send_frame_def try_send_def split: control_frame.split)
qed

lemma system_step_table:
  "system_step x p assets y y' \<Longrightarrow>
   \<exists>ops. rl_registry (sy_relay y') = fold (exec_op (x_max_hops x)) ops (rl_registry (sy_relay y))"
proof (induction rule: system_step.induct)
  case (Connected t y frame sent hello answer serial s)
  from connect_effect(3) [OF Connected(4)] obtain now where now: "rl_registry s =
      snd (connect (presence_of (tt_device t) (tt_peer t) (tt_handle t) hello) now (rl_registry (sy_relay y)))" by blast
  show ?case
    by (rule exI [of _ "[OpConnect (presence_of (tt_device t) (tt_peer t) (tt_handle t) hello) now]"]) (simp add: now)
next
  case (Frame t y serial kind frame)
  show ?case using frame_table by simp
next
  case (Ended t y serial kind cause)
  show ?case by (rule exI [of _ "[OpDisconnect (d_id (tt_device t)) serial]"]) (simp add: disconnect_effect)
qed (auto dest!: effect_host effect_upgrade simp: effect_reach exec_api_effect [THEN effect_reach] leave_effect [THEN effect_reach]
    intro: exI [of _ "[]"])


section \<open>What the link does to the relay\<close>

text \<open>The link and the requests that control it write to the store through its methods, queue frames and set the reach;
  the routing table and the relay's identity are not theirs.\<close>

definition link_effect :: "'l relay \<Rightarrow> 'l relay \<Rightarrow> bool" where
  "link_effect s s' \<longleftrightarrow> store_kept (rl_db s) (rl_db s') \<and> rl_registry s' = rl_registry s \<and> rl_relay_id s' = rl_relay_id s \<and>
     prefix (rl_outbox s) (rl_outbox s')"

interpretation links: handler_relation link_effect store_kept
  by unfold_locales (auto simp: link_effect_def kept.R_refl try_send_def intro: kept.R_trans prefix_order.trans)

lemma links_reach: "link_effect s (s\<lparr>rl_reach := c\<rparr>)"
  by (simp add: link_effect_def kept.R_refl)

lemma links_send: "link_effect s (send_frame h f s)"
  by (simp add: send_frame_def links.S_send)

lemma links_publish: "link_effect s (publish_addresses x s)"
  unfolding publish_addresses_def by (rule links.obeys_fold) (simp add: links.R_refl links_send split: route_kind.split)

lemma links_audit: "link_effect s (snd (audit x e s))"
  using links.obeys_audit [of x e] by (simp add: links.obeys_def)

lemma links_swallow: "kept.obeys m \<Longrightarrow> link_effect s (swallow m s)"
  by (simp add: swallow_def kept.obeys_def links.S_db)

lemma links_records: "link_effect s (record_connected x st i s)" "link_effect s (record_disconnected x st i s)"
  by (simp_all add: record_connected_def record_disconnected_def links_audit)

lemma links_status: "nd_relay (n\<lparr>nd_status := st\<rparr>) = nd_relay n"
  by simp

lemmas links_intros = links_reach links_publish links_audit links_swallow links_records

lemma adopt_effect: "link_effect (nd_relay n) (nd_relay (adopt x st w n))"
  unfolding adopt_def link_steps by (intro links.R_trans [OF links.R_trans [OF links_reach links_records(1)] links_publish])

lemma withdraw_effect: "link_effect (nd_relay n) (nd_relay (withdraw x st m n))"
  unfolding withdraw_def clear_reach_def link_steps
  by (intro links.R_trans [OF links.R_trans [OF links_reach links_records(2)] links_publish])

lemma forget_effect: "link_effect (nd_relay n) (nd_relay (forget x st m n))"
  unfolding forget_def clear_reach_def Let_def link_steps links_status clear_settings_def
  by (intro links.R_trans [OF links.R_trans [OF links.R_trans [OF links_audit links_swallow [OF kept.obeys_methods(2) [OF setting_keys(1)]]] links_reach] links_publish])

lemma conclude_effect: "link_effect (nd_relay n) (nd_relay (conclude x st step m n))"
  by (cases step) (simp_all add: conclude_def forget_effect links.R_refl links_audit)

lemma round_effect: "pump_round x w ev n = (e, frames, n') \<Longrightarrow> link_effect (nd_relay n) (nd_relay n')"
  by (auto simp: pump_round_def handle_message_def handle_control_def send_control_def links.R_refl
      intro: links.R_trans [OF links_reach links_publish]
      split: pump_event.splits option.splits up_read.splits sum.splits control_frame.splits if_splits)

lemma kept_load: "kept.obeys (load_settings lo)"
  unfolding load_settings_def by (intro kept.obeys_control kept.obeys_db_intros kept.obeys_reads)

lemma resume_effect: "link_effect (nd_relay n) (nd_relay (resume lo n))"
proof -
  obtain r s where r: "lift_db (load_settings lo) (nd_relay n) = (r, s)" by fastforce
  with links.obeys_lift_db [OF kept_load] have "link_effect (nd_relay n) s" by (rule links.obeysD)
  with r show ?thesis by (auto simp: resume_def on_relay_def link_start_def split: sum.split option.split)
qed

lemma kept_establish: "kept.obeys (establish x lo url code name f actor)"
proof -
  have "kept.obeys (okE settings \<circ> audit_write x e)" for settings :: upstream_settings and e
    by (simp add: kept.obeys_def okE_def kept.R_audit)
  then show ?thesis
    unfolding establish_def join_upstream_def store_settings_def Let_def
    by (intro kept.obeys_control kept.obeys_db_intros kept.obeys_methods) (simp_all add: kept.obeys_def okE_def kept.R_audit)
qed

text \<open>Requests that leave the reach alone, whatever they answer.\<close>

definition still :: "'l node \<Rightarrow> 'l node \<Rightarrow> bool" where
  "still n n' \<longleftrightarrow> api_effect (nd_relay n) (nd_relay n')"

interpretation nodes: step_relation still
  by unfold_locales (auto simp: still_def handlers.R_refl intro: handlers.R_trans)

lemma still_on_relay: "handlers.obeys m \<Longrightarrow> nodes.obeys (on_relay m)"
  by (auto simp: nodes.obeys_def handlers.obeys_def still_def on_relay_def split: prod.splits) (metis snd_conv)

lemma still_connect: "nodes.obeys (upstream_connect (x :: 'a externals) lo url code f actor)"
  unfolding nodes.obeys_def
proof
  fix n :: "'a node"
  let ?m = "on_relay (lift_db (establish x lo url code (pu_host (da_public_url (rl_addressing (nd_relay n)))) f (Some actor)))"
  obtain r n1 where m: "?m n = (r, n1)" by fastforce
  have "nodes.obeys ?m" by (intro still_on_relay handlers.obeys_lift_db kept_establish)
  then have "still n n1" using m by (rule nodes.obeysD)
  with m show "still n (snd (upstream_connect x lo url code f actor n))"
    by (auto simp: upstream_connect_def bindE_def still_def link_start_def Let_def split: sum.split)
qed

lemma still_set_upstream: "nodes.obeys (set_upstream x lo headers request)"
  unfolding set_upstream_def
  by (intro nodes.obeys_intros nodes.obeys_pure still_on_relay still_connect handlers.obeys_session)

lemma still_list: "nodes.obeys (list_relays x ops headers)"
  unfolding list_relays_def
  by (intro nodes.obeys_bind still_on_relay handlers.obeys_session) (simp add: nodes.obeys_def nodes.R_refl)

lemma on_relay_status: "on_relay m n = (r, n') \<Longrightarrow> nd_status n' = nd_status n"
  by (auto simp: on_relay_def split: prod.splits)

lemma failed_connect_status:
  assumes "upstream_connect x lo url code f actor n = (Inl e, n')"
  shows "nd_status n' = nd_status n"
  using assms
  by (auto simp: upstream_connect_def bindE_def link_start_def set_connecting_def link_view_def Let_def
      dest: on_relay_status split: prod.splits sum.splits)

lemma failed_set_upstream_status:
  assumes "set_upstream x lo headers request n = (Inl e, n')"
  shows "nd_status n' = nd_status n"
proof -
  obtain r n1 where a: "on_relay (admin_user x (lo_headers lo) headers) n = (r, n1)" by fastforce
  note same = on_relay_status [OF a]
  from assms a same show ?thesis
    by (auto simp: set_upstream_def bindE_def check_def map_err_def okE_def errE_def dest: failed_connect_status
        split: sum.splits prod.splits)
qed

lemma list_status: "list_relays x ops headers n = (r, n') \<Longrightarrow> nd_status n' = nd_status n"
  by (auto simp: list_relays_def bindE_def dest: on_relay_status split: prod.splits sum.splits)

lemma disconnect_node:
  assumes "upstream_disconnect x actor n = (r, n')"
  shows "link_effect (nd_relay n) (nd_relay n')" "rl_reach (nd_relay n') = no_reach" "nd_status n' = None"
proof -
  let ?n1 = "with_relay (publish_addresses x) (link_stop n)"
  have n1: "link_effect (nd_relay n) (nd_relay ?n1)" "rl_reach (nd_relay ?n1) = no_reach" "nd_status ?n1 = None"
    unfolding link_stop_def clear_reach_def
    by (simp_all add: links.R_trans [OF links_reach links_publish])
  obtain r1 s2 where c: "lift_db clear_settings (nd_relay ?n1) = (r1, s2)" by fastforce
  have "handlers.obeys (lift_db clear_settings)"
    unfolding clear_settings_def by (intro handlers.obeys_lift_db kept.obeys_methods setting_keys)
  then have s2: "api_effect (nd_relay ?n1) s2" using c by (rule handlers.obeysD)
  have store: "store_kept (rl_db (nd_relay n)) (rl_db s2)"
    using n1(1) s2 by (auto simp: link_effect_def api_effect_def intro: kept.R_trans)
  note kept.R_trans [OF store kept.R_audit]
  with assms c s2 n1 store show "link_effect (nd_relay n) (nd_relay n')" "rl_reach (nd_relay n') = no_reach" "nd_status n' = None"
    by (auto simp: upstream_disconnect_def bindE_def map_err_def on_relay_def Let_def audit_eq api_effect_def link_effect_def
        split: sum.splits)
qed

section \<open>The invariant\<close>

definition apart :: "registry_change list \<Rightarrow> string \<Rightarrow> bool" where
  "apart log u \<longleftrightarrow> list_all (\<lambda>c. case c of Online d \<Rightarrow> is_routable_for d u | Offline _ \<Rightarrow> True) log"

text \<open>The changes of one device, and what they leave of it: the changes of other devices do not matter.\<close>

definition of_device :: "string \<Rightarrow> registry_change list \<Rightarrow> registry_change list" where
  "of_device i = filter (\<lambda>c. change_id c = i)"

lemma of_device_simps [simp]:
  "of_device i [] = []" "of_device i (c # cs) = (if change_id c = i then c # of_device i cs else of_device i cs)"
  "of_device i (cs @ ds) = of_device i cs @ of_device i ds" "of_device i (of_device i cs) = of_device i cs"
  by (simp_all add: of_device_def)

lemma replay_device: "v i = v' i \<Longrightarrow> foldl apply_change v (of_device i cs) i = foldl apply_change v' cs i"
proof (induction cs arbitrary: v v')
  case (Cons c cs)
  have "change_id c = i \<Longrightarrow> apply_change v c i = apply_change v' c i" "change_id c \<noteq> i \<Longrightarrow> v i = apply_change v' c i"
    using Cons.prems by (cases c; simp)+
  then show ?case using Cons.IH by (cases "change_id c = i") simp_all
qed simp

lemma replay_same: "v i = v' i \<Longrightarrow> of_device i cs = of_device i ds \<Longrightarrow> foldl apply_change v cs i = foldl apply_change v' ds i"
  using replay_device [of v i v cs] replay_device [of v i v' ds] by simp

text \<open>What the upstream will know once it has received the rest of the feed, and what is still to be sent.\<close>

definition will_know :: "registry_change list \<Rightarrow> control_frame list \<Rightarrow> (string \<rightharpoonup> announced_device)" where
  "will_know cs told = foldl apply_change (foldl hear Map.empty told) cs"

definition replayed :: "registry \<Rightarrow> bool" where
  "replayed r \<longleftrightarrow> sound r \<and> view r = foldl apply_change Map.empty (r_published r)"

definition joined :: "'l relay \<Rightarrow> welcome_frame \<Rightarrow> bool" where
  "joined s w \<longleftrightarrow> rl_relay_id s \<notin> set (we_relay_id w # we_chain w)"

text \<open>What is written to the upstream amounts to the table, for every device of which no change has overtaken another
  on its way to the feed.\<close>

definition told_ok :: "registry_change list \<Rightarrow> registry \<Rightarrow> string \<Rightarrow> nat \<Rightarrow> control_frame list \<Rightarrow> bool" where
  "told_ok feed r u k told \<longleftrightarrow> (\<forall>i rest. of_device i (r_published r) = of_device i feed @ rest \<longrightarrow>
     apart (of_device i (r_published r)) u \<longrightarrow> will_know (drop k feed @ rest) told i = view r i)"

fun link_ok :: "registry_change list \<Rightarrow> 'l relay \<Rightarrow> link_status option \<Rightarrow> link_phase \<Rightarrow> bool" where
  "link_ok feed s status Unlinked \<longleftrightarrow> rl_reach s = no_reach \<and> status = None"
| "link_ok feed s status (Adopted settings w) \<longleftrightarrow> joined s w"
| "link_ok feed s status (Subscribed settings w k) \<longleftrightarrow> joined s w \<and> k \<le> length feed"
| "link_ok feed s status (Serving settings w k told) \<longleftrightarrow> joined s w \<and> k \<le> length feed \<and>
     told_ok feed (rl_registry s) (we_relay_id w) k told"
| "link_ok feed s status _ \<longleftrightarrow> True"

text \<open>Every change of the table is sent once, or waits to be.\<close>

definition feed_ok :: "'l site \<Rightarrow> bool" where
  "feed_ok z \<longleftrightarrow> mset (si_feed z) + mset (concat (si_unsent z)) = mset (log_of z)"

definition relay_ok :: "'l relay \<Rightarrow> bool" where
  "relay_ok s \<longleftrightarrow> replayed (rl_registry s) \<and> rl_relay_id s \<notin> set (upstream_chain s)"

definition site_inv :: "'l site \<Rightarrow> bool" where
  "site_inv z \<longleftrightarrow> system_inv (si_system z) \<and> relay_ok (sy_relay (si_system z)) \<and> feed_ok z \<and>
     link_ok (si_feed z) (sy_relay (si_system z)) (si_status z) (si_link z)"

text \<open>So the table's changes of a device are at least as many as those that were sent.\<close>

lemma feed_devices: "feed_ok z \<Longrightarrow> length (of_device i (si_feed z)) \<le> length (of_device i (log_of z))"
proof -
  assume "feed_ok z"
  then have "filter_mset (\<lambda>c. change_id c = i) (mset (si_feed z)) \<subseteq># filter_mset (\<lambda>c. change_id c = i) (mset (log_of z))"
    unfolding feed_ok_def by (metis mset_subset_eq_add_left multiset_filter_mono)
  then show ?thesis
    unfolding of_device_def by (metis mset_filter size_mset size_mset_mono)
qed

lemma replayed_ops:
  assumes "replayed r"
  shows "replayed (fold (exec_op max_hops) ops r)"
    and "\<exists>cs. r_published (fold (exec_op max_hops) ops r) = r_published r @ cs \<and>
       view (fold (exec_op max_hops) ops r) = foldl apply_change (view r) cs"
proof -
  show feed: "\<exists>cs. r_published (fold (exec_op max_hops) ops r) = r_published r @ cs \<and>
       view (fold (exec_op max_hops) ops r) = foldl apply_change (view r) cs" by (rule table_feed.run_feed)
  with assms show "replayed (fold (exec_op max_hops) ops r)" by (auto simp: replayed_def sound_run)
qed

lemma told_ok_inside:
  assumes "told_ok feed r u k told" "r_published r' = r_published r @ cs" "view r' = foldl apply_change (view r) cs"
    and "\<And>i. length (of_device i feed) \<le> length (of_device i (r_published r))"
  shows "told_ok feed r' u k told"
  unfolding told_ok_def
proof (intro allI impI)
  fix i rest
  assume rest: "of_device i (r_published r') = of_device i feed @ rest" and a: "apart (of_device i (r_published r')) u"
  have "prefix (of_device i feed) (of_device i (r_published r'))" unfolding rest by simp
  moreover have "prefix (of_device i (r_published r)) (of_device i (r_published r'))" by (simp add: assms(2))
  ultimately have "prefix (of_device i feed) (of_device i (r_published r))"
    using assms(4) by (rule prefix_length_prefix)
  then obtain rest0 where rest0: "of_device i (r_published r) = of_device i feed @ rest0" by (auto simp: prefix_def)
  with rest have "rest = rest0 @ of_device i cs" by (simp add: assms(2))
  moreover have "will_know (drop k feed @ rest0) told i = view r i"
    using assms(1) rest0 a by (auto simp: told_ok_def assms(2) apart_def)
  moreover have "foldl apply_change (will_know (drop k feed @ rest0) told) (of_device i cs) i = foldl apply_change (view r) cs i"
    using calculation(2) by (rule replay_device)
  ultimately show "will_know (drop k feed @ rest) told i = view r' i" by (simp add: will_know_def assms(3))
qed

lemma link_ok_inside:
  assumes "link_ok feed s status ph" "rl_reach s' = rl_reach s" "rl_relay_id s' = rl_relay_id s"
    and "r_published (rl_registry s') = r_published (rl_registry s) @ cs"
    and "view (rl_registry s') = foldl apply_change (view (rl_registry s)) cs"
    and "\<And>i. length (of_device i feed) \<le> length (of_device i (r_published (rl_registry s)))"
  shows "link_ok feed s' status ph"
  using assms(1-3) told_ok_inside [OF _ assms(4-6)] by (cases ph) (simp_all add: joined_def)

lemma link_ok_published:
  assumes "link_ok feed s status ph"
  shows "link_ok (feed @ [c]) s status ph"
proof (cases ph)
  case (Serving settings w k told)
  with assms have ok: "joined s w" "k \<le> length feed" "told_ok feed (rl_registry s) (we_relay_id w) k told" by simp_all
  have "will_know (drop k feed @ c # rest) told i = view (rl_registry s) i"
    if "of_device i (r_published (rl_registry s)) = of_device i (feed @ [c]) @ rest"
      "apart (of_device i (r_published (rl_registry s))) (we_relay_id w)" for i rest
  proof (cases "change_id c = i")
    case True
    with ok(3) that show ?thesis by (simp add: told_ok_def)
  next
    case False
    with ok(3) that have "will_know (drop k feed @ rest) told i = view (rl_registry s) i" by (simp add: told_ok_def)
    moreover have "will_know (drop k feed @ c # rest) told i = will_know (drop k feed @ rest) told i"
      unfolding will_know_def by (rule replay_same) (simp_all add: False)
    ultimately show ?thesis by simp
  qed
  with ok Serving show ?thesis by (simp add: told_ok_def)
qed (use assms in simp_all)

lemma published_online:
  assumes "replayed r" "view r i = Some a"
  shows "Online a \<in> set (r_published r)"
proof -
  from assms have "foldl apply_change Map.empty (r_published r) i = Some a" by (simp add: replayed_def)
  then have "find (\<lambda>c. change_id c = i) (rev (r_published r)) = Some (Online a)"
    by (auto simp: replay_lookup split: option.splits registry_change.splits)
  then show ?thesis by (auto simp: find_Some_iff) (metis nth_mem length_rev set_rev)
qed

lemma announced_in_view:
  assumes "keyed (r_entries r)" "a \<in> set (announcements r)"
  shows "view r (ad_id a) = Some a"
proof -
  from assms(2) obtain d e where e: "(d, e) \<in> set (r_entries r)" "announcement_of (r_relay_id r) e = Some a"
    by (auto simp: announcements_def map_filter_def)
  with assms(1) have "map_of (r_entries r) d = Some e" "od_device_id (e_device e) = d" by (auto simp: keyed_def)
  with e show ?thesis using announcement_of_id [of "r_relay_id r" e a] by (simp add: view_def view_of_def)
qed

lemma map_of_filtered:
  "(\<And>a. a \<in> set as \<Longrightarrow> ad_id a = i \<Longrightarrow> P a) \<Longrightarrow>
   map_of (map (\<lambda>d. (ad_id d, d)) (filter P as)) i = map_of (map (\<lambda>d. (ad_id d, d)) as) i"
  by (induction as) auto

lemma snapshot_device:
  assumes "replayed (rl_registry s)" "apart (of_device i (r_published (rl_registry s))) u"
  shows "hear v (snapshot_frame s u) i = view (rl_registry s) i"
proof -
  let ?r = "rl_registry s"
  have k: "keyed (r_entries ?r)" using assms(1) by (simp add: replayed_def sound_def)
  have "is_routable_for a u" if "a \<in> set (announcements ?r)" "ad_id a = i" for a
    using published_online [OF assms(1) announced_in_view [OF k that(1)]] that assms(2)
    by (auto simp: apart_def list_all_iff of_device_def)
  then have "map_of (map (\<lambda>d. (ad_id d, d)) (filter (\<lambda>device. is_routable_for device u) (announcements ?r))) i =
      map_of (map (\<lambda>d. (ad_id d, d)) (announcements ?r)) i"
    by (rule map_of_filtered)
  with k show ?thesis by (simp add: snapshot_frame_def announcements_view)
qed

lemma told_snapshot:
  assumes "replayed (rl_registry s)" "k \<le> length feed"
  shows "told_ok feed (rl_registry s) u k (told @ [snapshot_frame s u])"
  unfolding told_ok_def
proof (intro allI impI)
  let ?r = "rl_registry s"
  fix i rest
  assume rest: "of_device i (r_published ?r) = of_device i feed @ rest" and a: "apart (of_device i (r_published ?r)) u"
  have own: "of_device i rest = rest"
    by (metis rest of_device_simps(3,4) same_append_eq)
  have split: "of_device i (r_published ?r) = of_device i (take k feed) @ of_device i (drop k feed @ rest)"
    unfolding rest using own of_device_simps(3) [of i "take k feed" "drop k feed"] by simp
  have view: "view ?r i = foldl apply_change (foldl apply_change Map.empty (of_device i (take k feed))) (of_device i (drop k feed @ rest)) i"
    using replay_device [of Map.empty i Map.empty "r_published ?r"] assms(1) by (simp add: replayed_def split flip: foldl_append)
  have "will_know (drop k feed @ rest) (told @ [snapshot_frame s u]) i = foldl apply_change (view ?r) (of_device i (drop k feed @ rest)) i"
    unfolding will_know_def using snapshot_device [OF assms(1) a] by (intro replay_same) simp_all
  also have "\<dots> = foldl apply_change (foldl apply_change (foldl apply_change Map.empty (of_device i (take k feed)))
      (of_device i (drop k feed @ rest))) (of_device i (drop k feed @ rest)) i"
    using view by (rule replay_same) simp
  also have "\<dots> = view ?r i" unfolding replay_twice view ..
  finally show "will_know (drop k feed @ rest) (told @ [snapshot_frame s u]) i = view ?r i" .
qed

lemma round_heard_at:
  assumes "pump_round x w ev n = (None, frames, n')" "\<not> is_lagged (id :: unit \<Rightarrow> unit, ev)"
    and "\<And>a. change_of (id :: unit \<Rightarrow> unit, ev) = Some (Online a) \<Longrightarrow> ad_id a = i \<Longrightarrow> is_routable_for a (we_relay_id w) \<and> ad_online a"
  shows "foldl hear v frames i = foldl apply_change v (option_list (change_of (id :: unit \<Rightarrow> unit, ev))) i"
proof (cases "\<exists>a sent. ev = PumpChange (Online a) sent \<and> ad_id a \<noteq> i")
  case True
  with assms(1) show ?thesis by (auto simp: pump_round_def send_control_def split: if_splits)
next
  case False
  with assms(3) show ?thesis by (subst round_heard [OF assms(1,2)]) (cases ev; auto)+
qed

lemma round_told:
  assumes "pump_round x w ev n = (None, frames, n')" "received feed k ev k'" "r = rl_registry (nd_relay n)"
    and "replayed r" "k \<le> length feed" "told_ok feed r (we_relay_id w) k told"
  shows "told_ok feed r (we_relay_id w) k' (told @ frames)"
proof (cases "\<exists>sent. ev = PumpLagged sent")
  case True
  with assms show ?thesis
    using told_snapshot [of "nd_relay n" k' feed] by (auto simp: pump_round_def send_control_def split: if_splits)
next
  case False
  show ?thesis
    unfolding told_ok_def
  proof (intro allI impI)
    fix i rest
    assume rest: "of_device i (r_published r) = of_device i feed @ rest" and a: "apart (of_device i (r_published r)) (we_relay_id w)"
    have known: "will_know (drop k feed @ rest) told i = view r i" using assms(6) rest a by (simp add: told_ok_def)
    have heard: "foldl hear v frames i = foldl apply_change v (option_list (change_of (id :: unit \<Rightarrow> unit, ev))) i" for v
    proof (rule round_heard_at [OF assms(1)])
      show "\<not> is_lagged (id :: unit \<Rightarrow> unit, ev)" using False by (cases ev) auto
      fix d
      assume "change_of (id :: unit \<Rightarrow> unit, ev) = Some (Online d)" "ad_id d = i"
      with assms(2) have "Online d \<in> set (of_device i feed)" by (cases ev) (auto simp: in_set_conv_nth of_device_def)
      then have "Online d \<in> set (of_device i (r_published r))" by (simp add: rest)
      with assms(4) a show "is_routable_for d (we_relay_id w) \<and> ad_online d"
        by (auto simp: apart_def list_all_iff replayed_def sound_def log_online_def of_device_def)
    qed
    show "will_know (drop k' feed @ rest) (told @ frames) i = view r i"
    proof (cases "change_of (id :: unit \<Rightarrow> unit, ev)")
      case None
      with False assms(2) have "k' = k" by (cases ev) auto
      moreover have "foldl hear Map.empty (told @ frames) i = foldl hear Map.empty told i" using heard None by simp
      ultimately show ?thesis using known unfolding will_know_def by (metis replay_same)
    next
      case (Some c)
      with assms(2) have c: "k < length feed" "feed ! k = c" "k' = Suc k" by (cases ev; auto)+
      then have "will_know (drop k feed @ rest) told = foldl apply_change (apply_change (foldl hear Map.empty told) c) (drop k' feed @ rest)"
        by (simp add: will_know_def flip: Cons_nth_drop_Suc)
      moreover have "foldl hear Map.empty (told @ frames) i = apply_change (foldl hear Map.empty told) c i"
        using heard Some by simp
      ultimately show ?thesis using known unfolding will_know_def by (metis replay_same)
    qed
  qed
qed

lemma received_bound: "received log k ev k' \<Longrightarrow> k \<le> length log \<Longrightarrow> k' \<le> length log"
  by (cases ev) auto


section \<open>Every step keeps it\<close>

lemma system_inv_link:
  assumes "system_inv y" "link_effect (sy_relay y) s"
  shows "system_inv (y\<lparr>sy_relay := s\<rparr>)"
  using assms by (intro system_invI [OF assms(1)]) (auto simp: link_effect_def system_inv_def)

lemma link_of_api: "api_effect s s' \<Longrightarrow> link_effect s s'"
  by (simp add: link_effect_def api_effect_def)

lemma put_node_inv:
  assumes "site_inv z" "link_effect (nd_relay (node_of z)) (nd_relay n)"
    and "rl_relay_id (nd_relay n) \<notin> set (upstream_chain (nd_relay n))" "link_ok (si_feed z) (nd_relay n) (nd_status n) ph"
  shows "site_inv (put_node n ph z)"
  using assms system_inv_link [of "si_system z" "nd_relay n"]
  by (simp add: site_inv_def put_node_def node_of_def relay_ok_def feed_ok_def log_of_def) (simp add: link_effect_def)

lemma site_inv_node:
  assumes "site_inv z"
  shows "rl_relay_id (nd_relay (node_of z)) \<notin> set (upstream_chain (nd_relay (node_of z)))"
    "replayed (rl_registry (nd_relay (node_of z)))" "link_ok (si_feed z) (nd_relay (node_of z)) (nd_status (node_of z)) (si_link z)"
    "length (of_device i (si_feed z)) \<le> length (of_device i (r_published (rl_registry (nd_relay (node_of z)))))"
  using assms feed_devices [of z i] by (simp_all add: site_inv_def relay_ok_def node_of_def log_of_def)

lemma conclude_chain:
  assumes "rl_relay_id (nd_relay n) \<notin> set (upstream_chain (nd_relay n))"
  shows "rl_relay_id (nd_relay (conclude x st step m n)) \<notin> set (upstream_chain (nd_relay (conclude x st step m n)))"
proof -
  have "rl_reach (nd_relay (forget x st m n)) = no_reach"
    by (simp add: forget_def clear_reach_def Let_def)
  moreover have "rl_reach (nd_relay (conclude x st step m n)) = rl_reach (nd_relay n)" if "step \<noteq> StepRevoked"
    using that by (cases step) (simp_all add: conclude_def)
  moreover have "conclude x st StepRevoked m n = forget x st m n" by (simp add: conclude_def)
  moreover have "rl_relay_id (nd_relay (conclude x st step m n)) = rl_relay_id (nd_relay n)"
    using conclude_effect [of n x st step m] by (simp add: link_effect_def)
  ultimately show ?thesis using assms by (cases "step = StepRevoked") (simp_all add: upstream_chain_def no_reach_def)
qed

lemma resting_ok: "link_ok feed s status (resting settings step)"
  by (cases step) (simp_all add: resting_def)

lemma concluded_inv:
  assumes "site_inv z" "link_effect (nd_relay (node_of z)) (nd_relay n)"
    and "rl_relay_id (nd_relay n) \<notin> set (upstream_chain (nd_relay n))"
  shows "site_inv (put_node (conclude x st step m n) (resting st step) z)"
  by (rule put_node_inv [OF assms(1) links.R_trans [OF assms(2) conclude_effect] conclude_chain [OF assms(3)] resting_ok])

lemma withdrawn_inv:
  assumes "site_inv z" "link_effect (nd_relay (node_of z)) (nd_relay n)"
  shows "site_inv (put_node (conclude x st step m (withdraw x st m' n)) (resting st step) z)"
  using assms by (intro concluded_inv)
    (auto intro: links.R_trans [OF _ withdraw_effect] simp: withdraw_relay upstream_chain_def no_reach_def)

lemma round_chain:
  assumes "pump_round x w ev n = (e, frames, n')" "joined (nd_relay n) w"
    and "rl_relay_id (nd_relay n) \<notin> set (upstream_chain (nd_relay n))"
  shows "rl_relay_id (nd_relay n') \<notin> set (upstream_chain (nd_relay n'))"
  using assms
  by (auto simp: pump_round_def handle_message_def handle_control_def send_control_def from_welcome_def joined_def
      upstream_chain_def split: pump_event.splits option.splits up_read.splits sum.splits control_frame.splits if_splits)

lemma still_inv:
  assumes "site_inv z" "still (node_of z) n" "link_ok (si_feed z) (nd_relay (node_of z)) (nd_status n) ph"
  shows "site_inv (put_node n ph z)"
proof (rule put_node_inv [OF assms(1)])
  note e = assms(2) [unfolded still_def]
  show "link_effect (nd_relay (node_of z)) (nd_relay n)" by (rule link_of_api [OF e])
  show "rl_relay_id (nd_relay n) \<notin> set (upstream_chain (nd_relay n))"
    using e site_inv_node(1) [OF assms(1)] by (simp add: api_effect_def upstream_chain_def)
  show "link_ok (si_feed z) (nd_relay n) (nd_status n) ph"
    by (rule link_ok_inside [OF assms(3), where cs = "[]"])
       (use e site_inv_node(4) [OF assms(1)] in \<open>simp_all add: api_effect_def\<close>)
qed

lemma failed_run: "session_run x lo st a n = (Some (failed e), frames, n') \<Longrightarrow> n' = n"
  by (auto simp: session_run_def send_control_def failed_def split: sum.splits option.splits if_splits prod.splits)

lemma refuse_joined: "refuse_loop s w = None \<longleftrightarrow> joined s w"
  by (auto simp: refuse_loop_def joined_def)

lemma joined_effect: "link_effect s s' \<Longrightarrow> joined s' w = joined s w"
  by (simp add: link_effect_def joined_def)


lemma inside_inv:
  assumes "site_inv z" "system_step x p assets (si_system z) y"
  shows "site_inv (put_system y z)"
proof -
  let ?r = "rl_registry (sy_relay (si_system z))"
  from system_step_table [OF assms(2)] obtain ops where
    ops: "rl_registry (sy_relay y) = fold (exec_op (x_max_hops x)) ops ?r" by blast
  have ok: "replayed ?r" using assms(1) by (simp add: site_inv_def relay_ok_def)
  from replayed_ops [OF ok, of "x_max_hops x" ops] obtain cs where
    "replayed (rl_registry (sy_relay y))" "r_published (rl_registry (sy_relay y)) = r_published ?r @ cs"
    "view (rl_registry (sy_relay y)) = foldl apply_change (view ?r) cs" unfolding ops by blast
  moreover have "feed_ok (put_system y z)"
    using assms(1) calculation(2) by (simp add: site_inv_def feed_ok_def) (simp add: put_system_def log_of_def)
  moreover note system_step_reach [OF assms(2)] system_step_inv [OF assms(2)]
  ultimately show ?thesis
    using assms(1) link_ok_inside [of "si_feed z" "sy_relay (si_system z)" "si_status z" "si_link z" "sy_relay y" cs]
      feed_devices [of z]
    by (simp add: site_inv_def relay_ok_def upstream_chain_def log_of_def)
qed

lemma dropped_node:
  assumes "fst (admin_user x ops headers (nd_relay m)) = Inr admin" "clear_upstream x ops headers m = (r, n)"
  shows "link_effect (nd_relay m) (nd_relay n)" "rl_reach (nd_relay n) = no_reach" "nd_status n = None"
proof -
  obtain s where s: "admin_user x ops headers (nd_relay m) = (Inr admin, s)" using assms(1) by (metis prod.collapse)
  have e: "link_effect (nd_relay m) s"
    by (rule link_of_api [OF handlers.obeysD [OF handlers.obeys_session(3) s]])
  obtain r' where d: "upstream_disconnect x (u_id (fst admin)) (m\<lparr>nd_relay := s\<rparr>) = (r', n)"
    using assms(2) s by (auto simp: clear_upstream_def bindE_def on_relay_def map_err_def split: prod.splits sum.splits)
  from disconnect_node [OF d] links.R_trans [OF e]
  show "link_effect (nd_relay m) (nd_relay n)" "rl_reach (nd_relay n) = no_reach" "nd_status n = None" by simp_all
qed

lemma refused_drop:
  assumes "fst (admin_user x ops headers (nd_relay n)) = Inl e" "clear_upstream x ops headers n = (r, n')"
  shows "still n n' \<and> nd_status n' = nd_status n"
proof -
  obtain s where s: "admin_user x ops headers (nd_relay n) = (Inl e, s)" using assms(1) by (metis prod.collapse)
  with assms(2) have "n' = n\<lparr>nd_relay := s\<rparr>" by (auto simp: clear_upstream_def bindE_def on_relay_def)
  with handlers.obeysD [OF handlers.obeys_session(3) s] show ?thesis by (simp add: still_def)
qed

lemma site_step_inv: "site_step x p lo assets z z' \<Longrightarrow> site_inv z \<Longrightarrow> site_inv z'"
proof (induction rule: site_step.induct)
  case (Inside z y)
  then show ?case by (blast intro: inside_inv)
next
  case (Published z before c cs after)
  then show ?case by (simp add: site_inv_def feed_ok_def log_of_def link_ok_published add.assoc)
next
  case (Resumed z settings)
  have "rl_reach (nd_relay (resume lo (node_of z))) = rl_reach (nd_relay (node_of z))"
    by (auto simp: resume_def on_relay_def link_start_def lift_db_def split: prod.splits sum.splits option.splits)
  with Resumed site_inv_node(1) [OF Resumed(3)] resume_effect [of "node_of z" lo] show ?case
    by (intro put_node_inv) (auto simp: link_effect_def upstream_chain_def)
next
  case (Listed headers z r n)
  then show ?case
    using site_inv_node(3) [OF Listed(2)] list_status [OF Listed(1)]
    by (intro still_inv nodes.obeysD [OF still_list Listed(1)]) simp_all
next
  case (Pointed headers request z shown n settings)
  then show ?case by (intro still_inv nodes.obeysD [OF still_set_upstream Pointed(1)]) simp_all
next
  case (PointFailed headers request z e n)
  then show ?case
    using site_inv_node(3) [OF PointFailed(2)] failed_set_upstream_status [OF PointFailed(1)]
    by (intro still_inv nodes.obeysD [OF still_set_upstream PointFailed(1)]) simp_all
next
  case (Dropped headers z admin r n)
  then show ?case
    using dropped_node [OF Dropped(1,2)] by (intro put_node_inv) (simp_all add: upstream_chain_def no_reach_def)
next
  case (DropRefused headers z e r n)
  then show ?case
    using site_inv_node(3) [OF DropRefused(3)] refused_drop [OF DropRefused(1,2)] by (intro still_inv) simp_all
next
  case (Failed z settings a e frames n reset take_delay step)
  then show ?case
    using failed_run [OF Failed(2)] site_inv_node(1) [OF Failed(4)] by (intro concluded_inv) (simp_all add: links.R_refl)
next
  case (Welcomed z settings dial reads w)
  have "joined (nd_relay (node_of z)) w" using Welcomed(4) by (simp add: refuse_joined)
  with adopt_relay [of x settings w "node_of z"] Welcomed(5) show ?case
    by (intro put_node_inv) (auto simp: adopt_effect joined_def upstream_chain_def)
next
  case (Subscribes z settings w)
  then show ?case by (simp add: site_inv_def log_of_def feed_ok_def)
next
  case (Copied z settings w k frames n)
  then have n: "n = node_of z" "frames = [] @ [snapshot_frame (nd_relay (node_of z)) (we_relay_id w)]"
    by (auto simp: send_control_def)
  note ok = site_inv_node [OF Copied(3)]
  from ok(3) Copied(1) have "link_ok (si_feed z) (nd_relay n) (nd_status n) (Serving settings w k frames)"
    using told_snapshot [OF ok(2), where told = "[]"] unfolding n by simp
  with Copied(3) ok(1) show ?case unfolding n by (intro put_node_inv) (simp_all add: links.R_refl)
next
  case (CopyFailed z settings w k e frames n reset take_delay step)
  then show ?case by (intro withdrawn_inv) (auto simp: send_control_def links.R_refl)
next
  case (Round z settings w k told ev k' frames n)
  note ok = site_inv_node [OF Round(4)] and e = round_effect [OF Round(3)]
  let ?r = "rl_registry (nd_relay (node_of z))"
  have r: "rl_registry (nd_relay n) = ?r" "joined (nd_relay n) w = joined (nd_relay (node_of z)) w"
    using e by (simp_all add: link_effect_def joined_effect)
  show ?case
  proof (rule put_node_inv [OF Round(4) e])
    show "rl_relay_id (nd_relay n) \<notin> set (upstream_chain (nd_relay n))"
      using round_chain [OF Round(3) _ ok(1)] ok(3) Round(1) by simp
    show "link_ok (si_feed z) (nd_relay n) (nd_status n) (Serving settings w k' (told @ frames))"
      using ok(3) Round(1) received_bound [OF Round(2)] round_told [OF Round(3,2) refl ok(2)]
      by (simp add: r)
  qed
next
  case (RoundEnds z settings w k told ev k' e frames n reset take_delay step)
  then show ?case by (blast intro: withdrawn_inv round_effect)
next
  case (Retried z settings)
  then show ?case using site_inv_node(1) [OF Retried(2)] by (intro put_node_inv) (simp_all add: links.R_refl)
qed

lemma site_run_inv: "site_run x p lo assets z z' \<Longrightarrow> site_inv z \<Longrightarrow> site_inv z'"
  by (induction rule: site_run.induct) (blast intro: site_step_inv)+

lemma site_started_inv: "site_started z \<Longrightarrow> site_inv z"
proof -
  have "replayed (new_registry i)" for i
    by (simp add: replayed_def sound_new) (simp add: new_registry_def view_def view_of_def fun_eq_iff)
  then show "site_started z \<Longrightarrow> site_inv z"
    by (simp add: site_started_def site_inv_def started_inv relay_ok_def upstream_chain_def no_reach_def) (simp add: started_def feed_ok_def log_of_def new_registry_def)
qed


lemma site_run_Cons: "site_run x p lo assets z1 z2 \<Longrightarrow> site_step x p lo assets z z1 \<Longrightarrow> site_run x p lo assets z z2"
  by (induction rule: site_run.induct) (blast intro: site_run.intros)+

lemma site_run_trans:
  assumes "site_run x p lo assets z z1" "site_run x p lo assets z1 z2"
  shows "site_run x p lo assets z z2"
  using assms(2,1) by (induction rule: site_run.induct) (blast intro: site_run.intros)+

end
