(* ===== verification/Http.thy ===== *)
theory Http
  imports Relay_Node
begin

text \<open>
  The HTTP surface of the relay: the routing table of the API (\<^verbatim>\<open>src/api/mod.rs\<close>), the extractors its handlers
  name and the order they run in, the layers around the routes and the fallback behind them (\<^verbatim>\<open>src/server.rs\<close>).
  One request is a function on the relay and its link. Matching a path against a pattern, decoding a path
  parameter, parsing a body or a query and checking a WebSocket upgrade belong to axum and serde: they are the
  fields of \<open>http_ops\<close>, as are the paths that the protocol crate names.
\<close>

section \<open>Requests and replies\<close>

datatype json_rejection = JsonDataError | JsonSyntaxError | MissingJsonContentType | OtherJsonRejection

text \<open>A parser of a body takes the largest body it may read, the headers and the body.\<close>

record ('h, 'b) http_ops =
  ho_health_path :: string
  ho_enroll_path :: string
  ho_tunnel_path :: string
  ho_capture :: "string \<Rightarrow> string \<Rightarrow> string list option"
  ho_path_param :: "string \<Rightarrow> string option"
  ho_enroll :: "nat \<Rightarrow> 'h \<Rightarrow> 'b \<Rightarrow> json_rejection + enroll_request"
  ho_login :: "nat \<Rightarrow> 'h \<Rightarrow> 'b \<Rightarrow> json_rejection + login_request"
  ho_password_change :: "nat \<Rightarrow> 'h \<Rightarrow> 'b \<Rightarrow> json_rejection + password_change_request"
  ho_device_update :: "nat \<Rightarrow> 'h \<Rightarrow> 'b \<Rightarrow> json_rejection + device_update_request"
  ho_create_user :: "nat \<Rightarrow> 'h \<Rightarrow> 'b \<Rightarrow> json_rejection + create_user_request"
  ho_update_user :: "nat \<Rightarrow> 'h \<Rightarrow> 'b \<Rightarrow> json_rejection + update_user_request"
  ho_create_enrollment :: "nat \<Rightarrow> 'h \<Rightarrow> 'b \<Rightarrow> json_rejection + create_enrollment_request"
  ho_upstream :: "nat \<Rightarrow> 'h \<Rightarrow> 'b \<Rightarrow> json_rejection + upstream_request"
  ho_audit_query :: "string option \<Rightarrow> audit_parameters option"
  ho_websocket :: "string \<Rightarrow> 'h \<Rightarrow> nat option"
  ho_version :: string

record ('h, 'b) http_request =
  hr_method :: string
  hr_body :: 'b
  hr_request :: "'h request"

datatype answer =
    NoBody
  | HealthAnswer string string u32
  | EnrolledAnswer enroll_response
  | UserAnswer user_view
  | UsersAnswer "user_view list"
  | DeviceAnswer device_view
  | DevicesAnswer "device_view list"
  | EnrollmentAnswer enrollment_view string
  | EnrollmentsAnswer "enrollment_view list"
  | RelaysAnswer "upstream_view option" "downstream_view list"
  | UpstreamAnswer upstream_view
  | AuditAnswer "audit_record list"
  | SettingsAnswer string string string

text \<open>A reply is an answer with its status and cookie, the error shape of the API, a refusal of axum's own, what
  the proxy and the console answer, or the switch to the tunnel of a device.\<close>

datatype ('h, 'v) reply =
    Reply nat "'v option" answer
  | Failure api_error
  | Rejection nat
  | FromRelay "'h response"
  | Switching device_record string

section \<open>Extractors\<close>

definition max_api_body_bytes :: nat where
  "max_api_body_bytes = 64 * 1024"

fun describe_json_rejection :: "json_rejection \<Rightarrow> api_message" where
  "describe_json_rejection JsonDataError = IncompleteJson"
| "describe_json_rejection JsonSyntaxError = MalformedJson"
| "describe_json_rejection MissingJsonContentType = MissingJsonType"
| "describe_json_rejection OtherJsonRejection = UnreadableBody"

text \<open>An extractor that looks only at the request returns the refusal or what it found.\<close>

fun and_then :: "'e + 'a \<Rightarrow> ('a \<Rightarrow> 'e + 'b) \<Rightarrow> 'e + 'b" where
  "and_then (Inl e) f = Inl e"
| "and_then (Inr a) f = f a"

definition api_json :: "json_rejection + 'a \<Rightarrow> ('h, 'v) reply + 'a" where
  "api_json parsed =
     (case parsed of
        Inl rejection \<Rightarrow> Inl (Failure (bad_request (describe_json_rejection rejection)))
      | Inr a \<Rightarrow> Inr a)"

definition api_query :: "'a option \<Rightarrow> ('h, 'v) reply + 'a" where
  "api_query parsed =
     (case parsed of None \<Rightarrow> Inl (Failure (bad_request MalformedQuery)) | Some a \<Rightarrow> Inr a)"

definition client_ip ::
  "('h, 'v, 'u, 's, 'w) proxy_ops \<Rightarrow> 'h request \<Rightarrow> 'l relay \<Rightarrow> ('h, 'v) reply + string" where
  "client_ip p rq s =
     (case rq_peer rq of
        None \<Rightarrow> Inl (Failure internal)
      | Some peer \<Rightarrow> Inr (cc_ip (resolve_client (po_headers p) (po_names p) (po_parse_ip p) (po_trusted p)
          (rl_tls_enabled s) (rl_addressing s) (rq_headers rq) peer)))"

text \<open>\<^verbatim>\<open>Path<String>\<close> of a route with one parameter: the refusal of axum is a plain 400.\<close>

definition path_id :: "('h, 'b) http_ops \<Rightarrow> string list \<Rightarrow> ('h, 'v) reply + string" where
  "path_id h captured =
     (case captured of
        [raw] \<Rightarrow> (case ho_path_param h raw of Some i \<Rightarrow> Inr i | None \<Rightarrow> Inl (Rejection 400))
      | _ \<Rightarrow> Inl (Rejection 500))"

definition body_of ::
  "(nat \<Rightarrow> 'h \<Rightarrow> 'b \<Rightarrow> json_rejection + 'a) \<Rightarrow> ('h, 'b) http_request \<Rightarrow> ('h, 'v) reply + 'a" where
  "body_of parse rq = api_json (parse max_api_body_bytes (rq_headers (hr_request rq)) (hr_body rq))"

text \<open>
  The handlers of \<open>Api\<close> begin with their guard. Where further extractors follow it, a refusal of theirs comes
  after the guard, which has looked the session up.
\<close>

definition after_guard ::
  "('s \<Rightarrow> (api_error + 'g) \<times> 's) \<Rightarrow> ('h, 'v) reply + 'a \<Rightarrow> ('a \<Rightarrow> 's \<Rightarrow> ('h, 'v) reply \<times> 's)
     \<Rightarrow> 's \<Rightarrow> ('h, 'v) reply \<times> 's" where
  "after_guard session parts handler s =
     (case parts of
        Inr a \<Rightarrow> handler a s
      | Inl refusal \<Rightarrow>
          (case session s of
             (Inl e, s1) \<Rightarrow> (Failure e, s1)
           | (Inr _, s1) \<Rightarrow> (refusal, s1)))"

definition respond ::
  "('a \<Rightarrow> ('h, 'v) reply) \<Rightarrow> ('s \<Rightarrow> (api_error + 'a) \<times> 's) \<Rightarrow> 's \<Rightarrow> ('h, 'v) reply \<times> 's" where
  "respond f m s = (case m s of (Inl e, s1) \<Rightarrow> (Failure e, s1) | (Inr a, s1) \<Rightarrow> (f a, s1))"

definition with_cookie :: "('b \<Rightarrow> answer) \<Rightarrow> nat \<times> 'v option \<times> 'b \<Rightarrow> ('h, 'v) reply" where
  "with_cookie f r = (case r of (status, cookie, b) \<Rightarrow> Reply status cookie (f b))"

section \<open>The routing table\<close>

text \<open>Most handlers need the shared state alone; those of the upstream link also need its status.\<close>

datatype relay_endpoint =
    Health | Enroll | Login | Logout | Me | ChangePassword
  | ListOwn | UpdateOwn | RevokeOwn
  | ListUsers | CreateUser | UpdateUser | DeleteUser
  | ListAll | UpdateAny | RevokeAny | DisconnectAny
  | ListEnrollments | CreateEnrollment | CancelEnrollment
  | ListAudit | ReadSettings
  | UpgradeTunnel | RootPage

datatype link_endpoint = ListRelays | SetUpstream | ClearUpstream

datatype endpoint = OnRelay relay_endpoint | OnLink link_endpoint

type_synonym routes = "(string \<times> (string \<times> endpoint) list) list"

definition api_routes :: "('h, 'b) http_ops \<Rightarrow> routes" where
  "api_routes h =
     [(ho_health_path h, [(''GET'', OnRelay Health)]),
      (ho_enroll_path h, [(''POST'', OnRelay Enroll)]),
      (''/api/auth/login'', [(''POST'', OnRelay Login)]),
      (''/api/auth/logout'', [(''POST'', OnRelay Logout)]),
      (''/api/me'', [(''GET'', OnRelay Me)]),
      (''/api/me/password'', [(''POST'', OnRelay ChangePassword)]),
      (''/api/devices'', [(''GET'', OnRelay ListOwn)]),
      (''/api/devices/{id}'', [(''PATCH'', OnRelay UpdateOwn)]),
      (''/api/devices/{id}/revoke'', [(''POST'', OnRelay RevokeOwn)]),
      (''/api/admin/users'', [(''GET'', OnRelay ListUsers), (''POST'', OnRelay CreateUser)]),
      (''/api/admin/users/{id}'', [(''PATCH'', OnRelay UpdateUser), (''DELETE'', OnRelay DeleteUser)]),
      (''/api/admin/devices'', [(''GET'', OnRelay ListAll)]),
      (''/api/admin/devices/{id}'', [(''PATCH'', OnRelay UpdateAny)]),
      (''/api/admin/devices/{id}/revoke'', [(''POST'', OnRelay RevokeAny)]),
      (''/api/admin/devices/{id}/disconnect'', [(''POST'', OnRelay DisconnectAny)]),
      (''/api/admin/enrollments'', [(''GET'', OnRelay ListEnrollments), (''POST'', OnRelay CreateEnrollment)]),
      (''/api/admin/enrollments/{id}'', [(''DELETE'', OnRelay CancelEnrollment)]),
      (''/api/admin/relays'', [(''GET'', OnLink ListRelays)]),
      (''/api/admin/relays/upstream'', [(''POST'', OnLink SetUpstream), (''DELETE'', OnLink ClearUpstream)]),
      (''/api/admin/audit'', [(''GET'', OnRelay ListAudit)]),
      (''/api/admin/settings'', [(''GET'', OnRelay ReadSettings)])]"

definition server_routes :: "('h, 'b) http_ops \<Rightarrow> routes" where
  "server_routes h = api_routes h @ [(ho_tunnel_path h, [(''GET'', OnRelay UpgradeTunnel)]), (''/'', [(''GET'', OnRelay RootPage)])]"

text \<open>A path that no pattern matches is the fallback's; one that a pattern matches under another method is
  refused. A \<^verbatim>\<open>get\<close> route also answers \<^verbatim>\<open>HEAD\<close>.\<close>

datatype match = Unclaimed | WrongMethod | Claimed endpoint "string list"

definition method_endpoint :: "string \<Rightarrow> (string \<times> endpoint) list \<Rightarrow> endpoint option" where
  "method_endpoint http_method methods =
     (case map_of methods http_method of
        Some e \<Rightarrow> Some e
      | None \<Rightarrow> if http_method = ''HEAD'' then map_of methods ''GET'' else None)"

fun find_route :: "(string \<Rightarrow> string \<Rightarrow> string list option) \<Rightarrow> string \<Rightarrow> string \<Rightarrow> routes \<Rightarrow> match" where
  "find_route capture http_method path [] = Unclaimed"
| "find_route capture http_method path ((pattern, methods) # routes) =
     (case capture pattern path of
        None \<Rightarrow> find_route capture http_method path routes
      | Some captured \<Rightarrow>
          (case method_endpoint http_method methods of
             Some e \<Rightarrow> Claimed e captured
           | None \<Rightarrow> WrongMethod))"

section \<open>The handlers with their extractors\<close>

text \<open>The result of every extractor that follows a handler's guard, in the order of its arguments.\<close>

definition client_and_id ::
  "('h, 'v, 'u, 's, 'w) proxy_ops \<Rightarrow> ('h, 'b) http_ops \<Rightarrow> string list \<Rightarrow> ('h, 'b) http_request \<Rightarrow> 'l relay
     \<Rightarrow> ('h, 'v) reply + string \<times> string" where
  "client_and_id p h captured rq s =
     and_then (client_ip p (hr_request rq) s) (\<lambda>ip. and_then (path_id h captured) (\<lambda>i. Inr (ip, i)))"

definition client_and_body ::
  "('h, 'v, 'u, 's, 'w) proxy_ops \<Rightarrow> (nat \<Rightarrow> 'h \<Rightarrow> 'b \<Rightarrow> json_rejection + 'a) \<Rightarrow> ('h, 'b) http_request \<Rightarrow> 'l relay
     \<Rightarrow> ('h, 'v) reply + string \<times> 'a" where
  "client_and_body p parse rq s =
     and_then (client_ip p (hr_request rq) s) (\<lambda>ip. and_then (body_of parse rq) (\<lambda>a. Inr (ip, a)))"

definition client_id_body ::
  "('h, 'v, 'u, 's, 'w) proxy_ops \<Rightarrow> ('h, 'b) http_ops \<Rightarrow> (nat \<Rightarrow> 'h \<Rightarrow> 'b \<Rightarrow> json_rejection + 'a) \<Rightarrow> string list
     \<Rightarrow> ('h, 'b) http_request \<Rightarrow> 'l relay \<Rightarrow> ('h, 'v) reply + string \<times> string \<times> 'a" where
  "client_id_body p h parse captured rq s =
     and_then (client_and_id p h captured rq s) (\<lambda>(ip, i). and_then (body_of parse rq) (\<lambda>a. Inr (ip, i, a)))"

fun call_endpoint ::
  "'l externals \<Rightarrow> ('h, 'v, 'u, 's, 'w) proxy_ops \<Rightarrow> ('h, 'b) http_ops \<Rightarrow> relay_endpoint \<Rightarrow> string list
     \<Rightarrow> ('h, 'b) http_request \<Rightarrow> 'l relay \<Rightarrow> ('h, 'v) reply \<times> 'l relay" where
  "call_endpoint x p h Health captured rq s =
     (Reply 200 None (HealthAnswer (ho_version h) (rl_relay_id s) (x_protocol_version x)), s)"
| "call_endpoint x p h Enroll captured rq s =
     (case client_and_body p (ho_enroll h) rq s of
        Inl refusal \<Rightarrow> (refusal, s)
      | Inr (ip, a) \<Rightarrow> respond (\<lambda>r. Reply 201 None (EnrolledAnswer r)) (enroll x ip a) s)"
| "call_endpoint x p h Login captured rq s =
     (case client_and_body p (ho_login h) rq s of
        Inl refusal \<Rightarrow> (refusal, s)
      | Inr (ip, a) \<Rightarrow> respond (with_cookie UserAnswer) (login x (po_headers p) ip a) s)"
| "call_endpoint x p h Logout captured rq s =
     respond (with_cookie (\<lambda>_. NoBody)) (logout x (po_headers p) (rq_headers (hr_request rq))) s"
| "call_endpoint x p h Me captured rq s =
     respond (\<lambda>u. Reply 200 None (UserAnswer u)) (me x (po_headers p) (rq_headers (hr_request rq))) s"
| "call_endpoint x p h ChangePassword captured rq s =
     (case client_ip p (hr_request rq) s of
        Inl refusal \<Rightarrow> (refusal, s)
      | Inr ip \<Rightarrow>
          after_guard (session_user x (po_headers p) (rq_headers (hr_request rq)))
            (body_of (ho_password_change h) rq)
            (\<lambda>a. respond (with_cookie (\<lambda>_. NoBody))
              (change_password x (po_headers p) (rq_headers (hr_request rq)) ip a)) s)"
| "call_endpoint x p h ListOwn captured rq s =
     respond (\<lambda>ds. Reply 200 None (DevicesAnswer ds))
       (list_own_devices x (po_headers p) (rq_headers (hr_request rq))) s"
| "call_endpoint x p h UpdateOwn captured rq s =
     after_guard (session_user x (po_headers p) (rq_headers (hr_request rq)))
       (client_id_body p h (ho_device_update h) captured rq s)
       (\<lambda>(ip, i, a). respond (\<lambda>d. Reply 200 None (DeviceAnswer d))
         (update_own x (po_headers p) (rq_headers (hr_request rq)) ip i a)) s"
| "call_endpoint x p h RevokeOwn captured rq s =
     after_guard (session_user x (po_headers p) (rq_headers (hr_request rq)))
       (client_and_id p h captured rq s)
       (\<lambda>(ip, i). respond (\<lambda>d. Reply 200 None (DeviceAnswer d))
         (revoke_own x (po_headers p) (rq_headers (hr_request rq)) ip i)) s"
| "call_endpoint x p h ListUsers captured rq s =
     respond (\<lambda>us. Reply 200 None (UsersAnswer us))
       (list_users_api x (po_headers p) (rq_headers (hr_request rq))) s"
| "call_endpoint x p h CreateUser captured rq s =
     after_guard (admin_user x (po_headers p) (rq_headers (hr_request rq)))
       (client_and_body p (ho_create_user h) rq s)
       (\<lambda>(ip, a). respond (\<lambda>u. Reply 201 None (UserAnswer u))
         (create_user_api x (po_headers p) (rq_headers (hr_request rq)) ip a)) s"
| "call_endpoint x p h UpdateUser captured rq s =
     after_guard (admin_user x (po_headers p) (rq_headers (hr_request rq)))
       (client_id_body p h (ho_update_user h) captured rq s)
       (\<lambda>(ip, i, a). respond (\<lambda>u. Reply 200 None (UserAnswer u))
         (update_user_api x (po_headers p) (rq_headers (hr_request rq)) ip i a)) s"
| "call_endpoint x p h DeleteUser captured rq s =
     after_guard (admin_user x (po_headers p) (rq_headers (hr_request rq)))
       (client_and_id p h captured rq s)
       (\<lambda>(ip, i). respond (\<lambda>_. Reply 204 None NoBody)
         (delete_user_api x (po_headers p) (rq_headers (hr_request rq)) ip i)) s"
| "call_endpoint x p h ListAll captured rq s =
     respond (\<lambda>ds. Reply 200 None (DevicesAnswer ds))
       (list_all_devices x (po_headers p) (rq_headers (hr_request rq))) s"
| "call_endpoint x p h UpdateAny captured rq s =
     after_guard (admin_user x (po_headers p) (rq_headers (hr_request rq)))
       (client_id_body p h (ho_device_update h) captured rq s)
       (\<lambda>(ip, i, a). respond (\<lambda>d. Reply 200 None (DeviceAnswer d))
         (update_any x (po_headers p) (rq_headers (hr_request rq)) ip i a)) s"
| "call_endpoint x p h RevokeAny captured rq s =
     after_guard (admin_user x (po_headers p) (rq_headers (hr_request rq)))
       (client_and_id p h captured rq s)
       (\<lambda>(ip, i). respond (\<lambda>d. Reply 200 None (DeviceAnswer d))
         (revoke_any x (po_headers p) (rq_headers (hr_request rq)) ip i)) s"
| "call_endpoint x p h DisconnectAny captured rq s =
     after_guard (admin_user x (po_headers p) (rq_headers (hr_request rq)))
       (client_and_id p h captured rq s)
       (\<lambda>(ip, i). respond (\<lambda>_. Reply 204 None NoBody)
         (disconnect_any x (po_headers p) (rq_headers (hr_request rq)) ip i)) s"
| "call_endpoint x p h ListEnrollments captured rq s =
     respond (\<lambda>es. Reply 200 None (EnrollmentsAnswer es))
       (list_enrollments_api x (po_headers p) (rq_headers (hr_request rq))) s"
| "call_endpoint x p h CreateEnrollment captured rq s =
     after_guard (admin_user x (po_headers p) (rq_headers (hr_request rq)))
       (client_and_body p (ho_create_enrollment h) rq s)
       (\<lambda>(ip, a). respond (\<lambda>(e, code). Reply 201 None (EnrollmentAnswer e code))
         (create_enrollment_api x (po_headers p) (rq_headers (hr_request rq)) ip a)) s"
| "call_endpoint x p h CancelEnrollment captured rq s =
     after_guard (admin_user x (po_headers p) (rq_headers (hr_request rq)))
       (client_and_id p h captured rq s)
       (\<lambda>(ip, i). respond (\<lambda>_. Reply 204 None NoBody)
         (cancel_enrollment_api x (po_headers p) (rq_headers (hr_request rq)) ip i)) s"
| "call_endpoint x p h ListAudit captured rq s =
     after_guard (admin_user x (po_headers p) (rq_headers (hr_request rq)))
       (api_query (ho_audit_query h (rq_query (hr_request rq))))
       (\<lambda>a. respond (\<lambda>rs. Reply 200 None (AuditAnswer rs))
         (list_audit_api x (po_headers p) (rq_headers (hr_request rq)) a)) s"
| "call_endpoint x p h ReadSettings captured rq s =
     respond (\<lambda>(relay_id, url). Reply 200 None (SettingsAnswer relay_id url (ho_version h)))
       (settings_api x (po_headers p) (rq_headers (hr_request rq))) s"
| "call_endpoint x p h UpgradeTunnel captured rq s =
     (case rq_peer (hr_request rq) of
        None \<Rightarrow> (Rejection 500, s)
      | Some peer \<Rightarrow>
          (case ho_websocket h (hr_method rq) (rq_headers (hr_request rq)) of
             Some status \<Rightarrow> (Rejection status, s)
           | None \<Rightarrow>
               let ip = cc_ip (resolve_client (po_headers p) (po_names p) (po_parse_ip p) (po_trusted p)
                     (rl_tls_enabled s) (rl_addressing s) (rq_headers (hr_request rq)) peer)
               in respond (\<lambda>device. Switching device ip) (upgrade x (po_headers p) (rq_headers (hr_request rq)) ip) s))"
| "call_endpoint x p h RootPage captured rq s = (FromRelay (Redirect ''/console/''), s)"

fun call_link_endpoint ::
  "'l externals \<Rightarrow> ('h, 'v, 'u, 's, 'w) proxy_ops \<Rightarrow> ('h, 'v) link_ops \<Rightarrow> ('h, 'b) http_ops \<Rightarrow> link_endpoint
     \<Rightarrow> ('h, 'b) http_request \<Rightarrow> 'l node \<Rightarrow> ('h, 'v) reply \<times> 'l node" where
  "call_link_endpoint x p lo h ListRelays rq n =
     respond (\<lambda>(up, down). Reply 200 None (RelaysAnswer up down))
       (list_relays x (po_headers p) (rq_headers (hr_request rq))) n"
| "call_link_endpoint x p lo h SetUpstream rq n =
     after_guard (on_relay (admin_user x (lo_headers lo) (rq_headers (hr_request rq))))
       (body_of (ho_upstream h) rq)
       (\<lambda>a. respond (\<lambda>v. Reply 201 None (UpstreamAnswer v))
         (set_upstream x lo (rq_headers (hr_request rq)) a)) n"
| "call_link_endpoint x p lo h ClearUpstream rq n =
     respond (\<lambda>_. Reply 204 None NoBody) (clear_upstream x (po_headers p) (rq_headers (hr_request rq))) n"

fun serve_endpoint ::
  "'l externals \<Rightarrow> ('h, 'v, 'u, 's, 'w) proxy_ops \<Rightarrow> ('h, 'v) link_ops \<Rightarrow> ('h, 'b) http_ops \<Rightarrow> endpoint
     \<Rightarrow> string list \<Rightarrow> ('h, 'b) http_request \<Rightarrow> 'l node \<Rightarrow> ('h, 'v) reply \<times> 'l node" where
  "serve_endpoint x p lo h (OnRelay e) captured rq n = on_relay (call_endpoint x p h e captured rq) n"
| "serve_endpoint x p lo h (OnLink e) captured rq n = call_link_endpoint x p lo h e rq n"

section \<open>The layers\<close>

text \<open>The routes and the fallback.\<close>

definition serve_routes ::
  "'l externals \<Rightarrow> ('h, 'v, 'u, 's, 'w) proxy_ops \<Rightarrow> ('h, 'v) link_ops \<Rightarrow> ('h, 'b) http_ops
     \<Rightarrow> (string \<Rightarrow> string option) \<Rightarrow> ('h, 'b) http_request \<Rightarrow> 'l node \<Rightarrow> ('h, 'v) reply \<times> 'l node" where
  "serve_routes x p lo h assets rq n =
     (case find_route (ho_capture h) (hr_method rq) (rq_path (hr_request rq)) (server_routes h) of
        Claimed e captured \<Rightarrow> serve_endpoint x p lo h e captured rq n
      | WrongMethod \<Rightarrow> (Rejection 405, n)
      | Unclaimed \<Rightarrow> apfst FromRelay (on_relay (dispatch x p assets (hr_request rq)) n))"

definition csrf_layer ::
  "('h, 'v, 'u, 's, 'w) proxy_ops \<Rightarrow> ('h, 'b) http_ops \<Rightarrow> (('h, 'b) http_request \<Rightarrow> 'n \<Rightarrow> ('h, 'v) reply \<times> 'n)
     \<Rightarrow> ('h, 'b) http_request \<Rightarrow> 'n \<Rightarrow> ('h, 'v) reply \<times> 'n" where
  "csrf_layer p h inner rq n =
     (case require_csrf_marker (ho_enroll_path h) (ho_health_path h) (hr_method rq) (rq_path (hr_request rq))
             (header_value (po_headers p) (rq_headers (hr_request rq)) ''x-requested-with'') of
        Inl e \<Rightarrow> (Failure e, n)
      | Inr _ \<Rightarrow> inner rq n)"

text \<open>One request, from the outermost layer on: \<^verbatim>\<open>router\<close> in \<^verbatim>\<open>src/server.rs\<close>.\<close>

definition serve ::
  "'l externals \<Rightarrow> ('h, 'v, 'u, 's, 'w) proxy_ops \<Rightarrow> ('h, 'v) link_ops \<Rightarrow> ('h, 'b) http_ops
     \<Rightarrow> (string \<Rightarrow> string option) \<Rightarrow> ('h, 'b) http_request \<Rightarrow> 'l node \<Rightarrow> ('h, 'v) reply \<times> 'l node" where
  "serve x p lo h assets rq n =
     (case host_target p (hr_request rq) (nd_relay n) of
        Some target \<Rightarrow> apfst FromRelay (on_relay (forward_to_device x p target (hr_request rq)) n)
      | None \<Rightarrow> csrf_layer p h (serve_routes x p lo h assets) rq n)"

end
