(* ===== verification/Relay_Node_Laws.thy ===== *)
theory Relay_Node_Laws
  imports Relay_Node
begin

text \<open>
  What holds in every state the relay with its link can reach: routes are backed by tunnels, a revoked device stays
  out, the chain above never contains the relay itself, and an upstream's copy follows the routing table. The
  witnesses are runs of a small relay that starts with a stored upstream and sees a desktop connect.
\<close>

section \<open>The shape of a step\<close>

lemma still_link: "nodes.obeys m \<Longrightarrow> m n = (r, n') \<Longrightarrow> link_effect (nd_relay n) (nd_relay n')"
  using nodes.obeysD [of m n r n'] by (simp add: still_def link_of_api)

lemma site_step_shape:
  assumes "site_step x p lo assets z z'"
  shows "system_step x p assets (si_system z) (si_system z') \<or>
    (\<exists>s. si_system z' = (si_system z)\<lparr>sy_relay := s\<rparr> \<and> link_effect (sy_relay (si_system z)) s)"
proof -
  have put: "?thesis" if "z' = put_node n ph z" "link_effect (nd_relay (node_of z)) (nd_relay n)" for n ph
    using that by (auto simp: put_node_def node_of_def)
  from assms show ?thesis
  proof cases
    case (Inside y)
    then show ?thesis by simp
  next
    case (Published before c cs after)
    then have "si_system z' = (si_system z)\<lparr>sy_relay := sy_relay (si_system z)\<rparr>" by simp
    then show ?thesis using links.R_refl by blast
  next
    case (Resumed settings)
    show ?thesis by (rule put [OF Resumed(1) resume_effect])
  next
    case (Listed headers r n)
    show ?thesis by (rule put [OF Listed(1) still_link [OF still_list Listed(2)]])
  next
    case (Pointed headers request shown n settings)
    show ?thesis by (rule put [OF Pointed(1) still_link [OF still_set_upstream Pointed(2)]])
  next
    case (PointFailed headers request e n)
    show ?thesis by (rule put [OF PointFailed(1) still_link [OF still_set_upstream PointFailed(2)]])
  next
    case (Dropped headers admin r n)
    show ?thesis by (rule put [OF Dropped(1) dropped_node(1) [OF Dropped(2,3)]])
  next
    case (DropRefused headers e r n)
    then show ?thesis using refused_drop [OF DropRefused(2,3)] by (intro put [OF DropRefused(1)]) (simp add: still_def link_of_api)
  next
    case (Failed settings a e frames n reset take_delay step)
    show ?thesis using failed_run [OF Failed(3)] by (intro put [OF Failed(1)]) (simp add: conclude_effect)
  next
    case (Welcomed settings dial reads w)
    show ?thesis by (rule put [OF Welcomed(1) adopt_effect])
  next
    case (Subscribes settings w)
    then have "si_system z' = (si_system z)\<lparr>sy_relay := sy_relay (si_system z)\<rparr>" by simp
    then show ?thesis using links.R_refl by blast
  next
    case (Copied settings w k frames n)
    then show ?thesis by (intro put [OF Copied(1)]) (auto simp: send_control_def links.R_refl)
  next
    case (CopyFailed settings w k e frames n reset take_delay step)
    then have "n = node_of z" by (auto simp: send_control_def)
    then show ?thesis by (intro put [OF CopyFailed(1)]) (simp add: links.R_trans [OF withdraw_effect conclude_effect])
  next
    case (Round settings w k told ev k' frames n)
    show ?thesis by (rule put [OF Round(1) round_effect [OF Round(4)]])
  next
    case (RoundEnds settings w k told ev k' e frames n reset take_delay step)
    show ?thesis by (rule put [OF RoundEnds(1) links.R_trans [OF round_effect [OF RoundEnds(4)] links.R_trans [OF withdraw_effect conclude_effect]]])
  next
    case (Retried settings)
    then show ?thesis by (intro put [OF Retried(1)]) (simp add: links.R_refl)
  qed
qed

lemma shut_out_link: "shut_out i y \<Longrightarrow> link_effect (sy_relay y) s \<Longrightarrow> shut_out i (y\<lparr>sy_relay := s\<rparr>)"
  unfolding shut_out_def link_effect_def store_kept_def using revoked_row_mono by fastforce

lemma shut_out_site: "site_step x p lo assets z z' \<Longrightarrow> site_inv z \<Longrightarrow> shut_out i (si_system z) \<Longrightarrow> shut_out i (si_system z')"
  by (drule site_step_shape) (auto simp: site_inv_def system_inv_def intro: shut_out_step shut_out_link)

lemma shut_out_sites:
  "site_run x p lo assets z z' \<Longrightarrow> site_inv z \<Longrightarrow> shut_out i (si_system z) \<Longrightarrow> shut_out i (si_system z')"
proof (induction rule: site_run.induct)
  case (site_more z z1 z2)
  then show ?case using shut_out_site site_run_inv by blast
qed

lemma catch_up:
  assumes "site_inv z" "si_link z = Serving settings w k told"
  shows "\<exists>z' told'. site_run x p lo assets z z' \<and> si_system z' = si_system z \<and> si_feed z' = si_feed z \<and>
    si_link z' = Serving settings w (length (si_feed z)) told'"
  using assms
proof (induction "length (si_feed z) - k" arbitrary: z k told)
  case 0
  then have "k = length (si_feed z)" by (simp add: site_inv_def)
  with 0 show ?case by (blast intro: site_run.site_start)
next
  case (Suc m)
  let ?c = "si_feed z ! k"
  have k: "k < length (si_feed z)" using Suc(2) by simp
  obtain frames n where r: "pump_round x w (PumpChange ?c True) (node_of z) = (None, frames, n)" "n = node_of z"
    by (cases "announcement_frame ?c (we_relay_id w)") (auto simp: pump_round_def send_control_def)
  let ?z1 = "put_node n (Serving settings w (Suc k) (told @ frames)) z"
  have step: "site_step x p lo assets z ?z1"
    by (rule site_step.Round [OF Suc(4) _ r(1)]) (simp add: k)
  have same: "si_system ?z1 = si_system z" "si_feed ?z1 = si_feed z"
    by (simp_all add: put_node_def r(2) node_of_def)
  have "\<exists>z' told'. site_run x p lo assets ?z1 z' \<and> si_system z' = si_system ?z1 \<and> si_feed z' = si_feed ?z1 \<and>
      si_link z' = Serving settings w (length (si_feed ?z1)) told'"
    by (rule Suc(1)) (use Suc(2) same site_step_inv [OF step Suc(3)] in \<open>simp_all add: put_node_def\<close>)
  then obtain z' told' where z': "site_run x p lo assets ?z1 z'" "si_system z' = si_system z" "si_feed z' = si_feed z"
      "si_link z' = Serving settings w (length (si_feed z)) told'" by (auto simp: same)
  have "site_run x p lo assets z z'" using z'(1) step by (rule site_run_Cons)
  with z' show ?case by blast
qed

section \<open>Runs of a small relay\<close>

lemma inside_run:
  "system_run x p assets y y' \<Longrightarrow> si_system z = y \<Longrightarrow>
   \<exists>z'. site_run x p lo assets z z' \<and> si_system z' = y' \<and> si_link z' = si_link z \<and> si_feed z' = si_feed z"
proof (induction rule: system_run.induct)
  case (run_start y)
  then show ?case using site_run.site_start by blast
next
  case (run_step y y1 y2)
  then obtain z1 where z1: "site_run x p lo assets z z1" "si_system z1 = y1" "si_link z1 = si_link z" "si_feed z1 = si_feed z" by blast
  have "site_step x p lo assets z1 (put_system y2 z1)" using run_step(2) z1(2) by (intro site_step.Inside) simp
  with z1 show ?case by (intro exI [of _ "put_system y2 z1"]) (auto intro: site_run.site_more)
qed

definition site_of :: "'l system \<Rightarrow> 'l site" where
  "site_of y = \<lparr>si_system = y, si_status = None, si_link = Unlinked, si_feed = [], si_unsent = []\<rparr>"

text \<open>A relay that starts with a stored upstream, serves it, and then sees a desktop connect.\<close>

definition linked_system :: "string list system" where
  "linked_system = fresh_system\<lparr>sy_relay := (sy_relay fresh_system)\<lparr>rl_db := (rl_db sample_relay)\<lparr>d_settings :=
     [(setting_upstream, lo_encode sample_link_ops sample_settings, 0)]\<rparr>\<rparr>\<rparr>"

lemma linked_started: "site_started (site_of linked_system)"
proof -
  have "db_inv (rl_db sample_relay)"
    using fresh_started by (simp add: started_def fresh_system_def)
  then have "db_inv ((rl_db sample_relay)\<lparr>d_settings := [(setting_upstream, lo_encode sample_link_ops sample_settings, 0)]\<rparr>)"
    by (simp add: db_inv_def)
  then show ?thesis
    by (simp add: site_started_def site_of_def started_def linked_system_def fresh_system_def) (simp add: sample_relay_def)
qed

lemma resumed_node:
  "\<exists>n. resume sample_link_ops (node_of (site_of linked_system)) = n \<and> nd_relay n = (sy_relay linked_system)\<lparr>rl_db :=
     (rl_db (sy_relay linked_system))\<lparr>d_stmts := 1\<rparr>\<rparr> \<and>
   fst (load_settings sample_link_ops (rl_db (nd_relay (node_of (site_of linked_system))))) = Inr (Some sample_settings)"
proof -
  have "load_settings sample_link_ops (rl_db (sy_relay linked_system)) =
      (Inr (Some sample_settings), (rl_db (sy_relay linked_system))\<lparr>d_stmts := 1\<rparr>)"
    by (simp add: load_settings_def bindE_def read_setting_def query_def statement_cases map_err_def okE_def linked_system_def
        sample_link_ops_decode) (simp add: relay_samples)
  then show ?thesis
    by (simp add: resume_def on_relay_def lift_db_def node_of_def site_of_def link_start_def set_connecting_def)
qed

lemma publish_lockout [simp]: "rl_lockout (publish_addresses x s) = rl_lockout s"
  unfolding publish_addresses_def by (rule fold_keeps; simp add: send_frame_def try_send_def split: route_kind.split)

lemma adopt_store:
  "d_devices (rl_db (nd_relay (adopt x st w n))) = d_devices (rl_db (nd_relay n))"
  "d_fail (rl_db (nd_relay (adopt x st w n))) = d_fail (rl_db (nd_relay n))"
  "rl_lockout (nd_relay (adopt x st w n)) = rl_lockout (nd_relay n)"
  by (simp_all add: adopt_def record_connected_def audit_eq)

lemma linked_serves:
  "\<exists>z'. site_run sample_x sample_ops sample_link_ops assets (site_of linked_system) z' \<and>
     si_link z' = Serving sample_settings sample_welcome 0 [Announce []] \<and> sy_tasks (si_system z') = [] \<and>
     rl_registry (sy_relay (si_system z')) = new_registry ''A'' \<and> rl_lockout (sy_relay (si_system z')) = [] \<and> si_feed z' = [] \<and>
     d_devices (rl_db (sy_relay (si_system z'))) = [sample_device_row] \<and> d_fail (rl_db (sy_relay (si_system z'))) = (\<lambda>_. False)"
proof -
  let ?z = "site_of linked_system" and ?step = "site_step sample_x sample_ops sample_link_ops assets"
  from resumed_node obtain n where n: "resume sample_link_ops (node_of ?z) = n" "nd_relay n = (sy_relay linked_system)\<lparr>rl_db :=
      (rl_db (sy_relay linked_system))\<lparr>d_stmts := 1\<rparr>\<rparr>"
    "fst (load_settings sample_link_ops (rl_db (nd_relay (node_of ?z)))) = Inr (Some sample_settings)" by blast
  let ?z1 = "put_node n (Dialling sample_settings) ?z"
  have s1: "?step ?z ?z1" using site_step.Resumed [OF _ n(3)] unfolding n(1) by (simp add: site_of_def)
  have n1: "node_of ?z1 = n" by (simp add: node_of_def put_node_def)
  have relay: "rl_relay_id (nd_relay n) = ''A''" "rl_registry (nd_relay n) = new_registry ''A''" "rl_lockout (nd_relay n) = []"
    "d_devices (rl_db (nd_relay n)) = [sample_device_row]" "d_fail (rl_db (nd_relay n)) = (\<lambda>_. False)"
    by (simp_all add: n(2) linked_system_def fresh_system_def relay_samples)
  let ?n2 = "adopt sample_x sample_settings sample_welcome n"
  let ?z2 = "put_node ?n2 (Adopted sample_settings sample_welcome) ?z1"
  have "link_connect sample_link_ops sample_settings (\<lambda>_ _. Inr ()) = Inr ()"
    "await_welcome sample_x [UpText (Inr (Welcome ''dev'' ''U'' [] [''T'']))] = Inr sample_welcome"
    by (simp_all add: link_connect_def tunnel_request_def sample_link_ops_def sample_settings_def list_headers_def visible_def
        graphic_def await_welcome_def decode_control_def sample_welcome_def)
  moreover have "refuse_loop (nd_relay (node_of ?z1)) sample_welcome = None"
    by (simp add: refuse_loop_def n1 relay sample_welcome_def)
  ultimately have s2: "?step ?z1 ?z2"
    using site_step.Welcomed [of ?z1 sample_settings sample_link_ops "\<lambda>_ _. Inr ()" sample_x _ sample_welcome sample_ops assets]
    by (simp add: n1) (simp add: put_node_def)
  have reg: "rl_registry (nd_relay ?n2) = new_registry ''A''"
    using adopt_effect [of n sample_x sample_settings sample_welcome] relay(2) by (simp add: link_effect_def)
  let ?z3 = "?z2\<lparr>si_link := Subscribed sample_settings sample_welcome 0\<rparr>"
  have "si_feed ?z2 = []" by (simp add: put_node_def site_of_def)
  then have s3: "?step ?z2 ?z3"
    using site_step.Subscribes [of ?z2 sample_settings sample_welcome] by (simp add: put_node_def)
  let ?z4 = "put_node ?n2 (Serving sample_settings sample_welcome 0 [Announce []]) ?z3"
  have "send_control True (snapshot_frame (nd_relay (node_of ?z3)) (we_relay_id sample_welcome)) (node_of ?z3) =
      (None, [Announce []], ?n2)"
    by (simp add: send_control_def snapshot_frame_def node_of_def put_node_def reg new_table)
  then have s4: "?step ?z3 ?z4" by (intro site_step.Copied) simp_all
  have "site_run sample_x sample_ops sample_link_ops assets ?z ?z4"
    by (rule site_run.site_more [OF site_run.site_more [OF site_run.site_more [OF site_run.site_more [OF site_run.site_start s1] s2] s3] s4])
  then show ?thesis
    by (rule exI [of _ ?z4, OF conjI]) (simp add: put_node_def reg adopt_store relay site_of_def linked_system_def fresh_system_def)
qed

lemma desk_announced:
  assumes "dp_device_id pr = ''desk''" "dp_kind pr = Desktop"
  shows "r_published (snd (connect pr now (new_registry ''A''))) =
    [Online \<lparr>ad_id = ''desk'', ad_name = dp_name pr, ad_online = True, ad_via = [''A'']\<rparr>]"
  using assms by (simp add: connect_def next_sequence_def new_registry_def connect_locked_def transition_def announcement_of_def
      publish_def Let_def)

lemma first_unsent: "concat us = c # cs \<Longrightarrow> \<exists>before ds after. us = before @ (c # ds) # after"
proof (induction us)
  case (Cons u us)
  show ?case
  proof (cases u)
    case Nil
    with Cons obtain before ds after where "us = before @ (c # ds) # after" by auto
    then have "u # us = (u # before) @ (c # ds) # after" by simp
    then show ?thesis by blast
  next
    case (Cons a ds)
    with Cons.prems have "u # us = [] @ (c # ds) # us" by simp
    then show ?thesis by blast
  qed
qed simp

text \<open>The desktop's change is first in the table, then on the feed.\<close>

lemma linked_run:
  "\<exists>z' name c. site_run sample_x sample_ops sample_link_ops assets (site_of linked_system) z' \<and>
     si_link z' = Serving sample_settings sample_welcome 0 [Announce []] \<and> si_feed z' = [] \<and> log_of z' = [c] \<and>
     c = Online \<lparr>ad_id = ''desk'', ad_name = name, ad_online = True, ad_via = [''A'']\<rparr>"
proof -
  from linked_serves obtain z1 where z1: "site_run sample_x sample_ops sample_link_ops assets (site_of linked_system) z1"
     "si_link z1 = Serving sample_settings sample_welcome 0 [Announce []]" "sy_tasks (si_system z1) = []"
     "rl_registry (sy_relay (si_system z1)) = new_registry ''A''" "rl_lockout (sy_relay (si_system z1)) = []" "si_feed z1 = []"
     "d_devices (rl_db (sy_relay (si_system z1))) = [sample_device_row]" "d_fail (rl_db (sy_relay (si_system z1))) = (\<lambda>_. False)"
    by blast
  from desk_joins [OF z1(7,8,5,3)] obtain y pr now where y: "system_run sample_x sample_ops assets (si_system z1) y"
    "dp_device_id pr = ''desk''" "dp_kind pr = Desktop" "rl_registry (sy_relay y) = snd (connect pr now (new_registry ''A''))"
    unfolding z1(4) by blast
  from inside_run [OF y(1) refl, of sample_link_ops] obtain z2 where
    z2: "site_run sample_x sample_ops sample_link_ops assets z1 z2" "si_system z2 = y" "si_link z2 = si_link z1" "si_feed z2 = si_feed z1"
    by blast
  have "site_run sample_x sample_ops sample_link_ops assets (site_of linked_system) z2"
    by (rule site_run_trans [OF z1(1) z2(1)])
  with z1(2,6) z2(2-4) desk_announced [OF y(2,3)] y(4) show ?thesis
    by (intro exI [of _ z2] exI [of _ "dp_name pr"]) (simp add: log_of_def)
qed

lemma linked_published:
  "\<exists>z' name c. site_run sample_x sample_ops sample_link_ops assets (site_of linked_system) z' \<and>
     si_link z' = Serving sample_settings sample_welcome 0 [Announce []] \<and> si_feed z' = [c] \<and> log_of z' = [c] \<and>
     c = Online \<lparr>ad_id = ''desk'', ad_name = name, ad_online = True, ad_via = [''A'']\<rparr>"
proof -
  from linked_run [of assets] obtain z name c where z: "site_run sample_x sample_ops sample_link_ops assets (site_of linked_system) z"
    "si_link z = Serving sample_settings sample_welcome 0 [Announce []]" "si_feed z = []" "log_of z = [c]"
    "c = Online \<lparr>ad_id = ''desk'', ad_name = name, ad_online = True, ad_via = [''A'']\<rparr>" by blast
  have "feed_ok z" using site_run_inv [OF z(1) site_started_inv [OF linked_started]] by (simp add: site_inv_def)
  with z(3,4) have "mset (concat (si_unsent z)) = {#c#}" by (simp add: feed_ok_def)
  then have "concat (si_unsent z) = [c]" by simp
  from first_unsent [OF this] obtain before cs after where u: "si_unsent z = before @ (c # cs) # after" by blast
  let ?z = "z\<lparr>si_feed := si_feed z @ [c], si_unsent := before @ unsent_of cs @ after\<rparr>"
  have "site_run sample_x sample_ops sample_link_ops assets (site_of linked_system) ?z"
    by (rule site_run.site_more [OF z(1) site_step.Published [OF u]])
  with z show ?thesis by (intro exI [of _ ?z] exI [of _ name]) (simp add: log_of_def)
qed

lemma sample_apart: "apart [Online \<lparr>ad_id = i, ad_name = name, ad_online = True, ad_via = [''A'']\<rparr>] (we_relay_id sample_welcome)"
  by (simp add: apart_def is_routable_for_def sample_welcome_def)

section \<open>Properties\<close>

text \<open>C1: however requests, upgrades, frames, clean-ups and the link to an upstream interleave, in every state the relay can
  reach the store is consistent, a directly connected device is routed to exactly by the tunnel of a running
  task that authenticated as this device, and every announced route leads through the tunnel of a device
  that was enrolled as a relay.\<close>

theorem routes_are_backed:
  assumes "site_started z" "site_run x p lo assets z z'"
  shows "db_inv (rl_db (sy_relay (si_system z'))) \<and>
    (\<forall>i h. route (rl_registry (sy_relay (si_system z'))) i = Some (Direct h) \<longrightarrow>
       (\<exists>t \<in> set (sy_tasks (si_system z')). d_id (tt_device t) = i \<and> tt_handle t = h \<and>
          (\<exists>serial. tt_phase t = Running serial (d_kind (tt_device t))) \<and>
          enrolled (rl_db (sy_relay (si_system z'))) i (d_kind (tt_device t)))) \<and>
    (\<forall>i h hops. route (rl_registry (sy_relay (si_system z'))) i = Some (Via h hops) \<longrightarrow>
       enrolled (rl_db (sy_relay (si_system z'))) (th_device_id h) Relay)"
proof -
  have "site_inv z'" by (rule site_run_inv [OF assms(2) site_started_inv [OF assms(1)]])
  then show ?thesis by (intro backed_routes) (simp add: site_inv_def)
qed

theorem routes_are_backed_witness:
  "\<exists>z'. site_run sample_x sample_ops sample_link_ops (\<lambda>_. None) (site_of fresh_system) z' \<and>
     (\<exists>t \<in> set (sy_tasks (si_system z')). d_id (tt_device t) = ''desk'')"
proof -
  have "d_devices (rl_db (sy_relay fresh_system)) = [sample_device_row]" "d_fail (rl_db (sy_relay fresh_system)) = (\<lambda>_. False)"
    "rl_lockout (sy_relay fresh_system) = []" "sy_tasks fresh_system = []"
    by (simp_all add: fresh_system_def relay_samples)
  from desk_joins [OF this] obtain y' pr now where y': "system_run sample_x sample_ops (\<lambda>_. None) fresh_system y'"
    "dp_device_id pr = ''desk''" "rl_registry (sy_relay y') = snd (connect pr now (rl_registry (sy_relay fresh_system)))"
    by blast
  then have r: "route (rl_registry (sy_relay y')) ''desk'' = Some (Direct (dp_handle pr))"
    by (simp add: route_def connect_entry)
  from inside_run [OF y'(1), of "site_of fresh_system" sample_link_ops] obtain z' where
    run: "site_run sample_x sample_ops sample_link_ops (\<lambda>_. None) (site_of fresh_system) z'" "si_system z' = y'"
    by (auto simp: site_of_def)
  have "site_started (site_of fresh_system)"
    using fresh_started by (simp add: site_started_def site_of_def) (simp add: fresh_system_def sample_relay_def)
  from routes_are_backed [OF this run(1)] r have "\<exists>t \<in> set (sy_tasks (si_system z')). d_id (tt_device t) = ''desk''"
    unfolding run(2) by metis
  with run(1) show ?thesis by blast
qed

text \<open>C11: once a device is revoked and none of its tunnels is being served or admitted, nothing that happens
  afterwards, no request, no upgrade, no frame and nothing the upstream sends, connects it to the relay again.\<close>

theorem revoked_device_stays_out:
  assumes "site_started z" "site_run x p lo assets z z1" "site_run x p lo assets z1 z2"
    and "row \<in> set (d_devices (rl_db (sy_relay (si_system z1))))" "dw_revoked_at row \<noteq> None"
    and "\<forall>t \<in> set (sy_tasks (si_system z1)). d_id (tt_device t) \<noteq> dw_id row"
  shows "route (rl_registry (sy_relay (si_system z2))) (dw_id row) \<noteq> Some (Direct h)"
proof -
  have inv: "site_inv z1" by (rule site_run_inv [OF assms(2) site_started_inv [OF assms(1)]])
  have "shut_out (dw_id row) (si_system z1)" using assms(4-6) by (auto simp: shut_out_def)
  from shut_out_sites [OF assms(3) inv this] show ?thesis
    using site_run_inv [OF assms(3) inv] by (intro shut_out_route) (simp_all add: site_inv_def)
qed

theorem revoked_device_stays_out_witness:
  "\<exists>z2. site_run sample_x sample_ops sample_link_ops (\<lambda>_. None) (site_of revoked_system) z2 \<and>
     sy_relay (si_system z2) = exec_api sample_x list_headers (CallMe []) (sy_relay revoked_system) \<and>
     route (rl_registry (sy_relay (si_system z2))) ''desk'' \<noteq> Some (Direct (desk_handle))"
proof -
  let ?row = "sample_device_row\<lparr>dw_revoked_at := Some 5\<rparr>" and ?z = "site_of revoked_system"
  let ?z2 = "put_system (revoked_system\<lparr>sy_relay := exec_api sample_x list_headers (CallMe []) (sy_relay revoked_system)\<rparr>) ?z"
  have "site_started ?z"
    using revoked_started by (simp add: site_started_def site_of_def) (simp add: revoked_system_def fresh_system_def sample_relay_def)
  moreover have "system_step sample_x sample_ops (\<lambda>_. None) (si_system ?z) (si_system ?z2)"
    using system_step.Api [of sample_x sample_ops "\<lambda>_. None" revoked_system "CallMe []"] by (simp add: sample_ops_def site_of_def)
  then have run: "site_run sample_x sample_ops sample_link_ops (\<lambda>_. None) ?z ?z2"
    using site_step.Inside [of sample_x sample_ops "\<lambda>_. None" ?z _ sample_link_ops] site_run.intros by fastforce
  moreover have "?row \<in> set (d_devices (rl_db (sy_relay (si_system ?z))))" "dw_revoked_at ?row \<noteq> None"
      "\<forall>t \<in> set (sy_tasks (si_system ?z)). d_id (tt_device t) \<noteq> dw_id ?row"
    by (simp_all add: revoked_system_def fresh_system_def site_of_def)
  moreover have "dw_id ?row = ''desk''" by (simp add: sample_device_row_def)
  ultimately have "route (rl_registry (sy_relay (si_system ?z2))) ''desk'' \<noteq> Some (Direct (desk_handle))"
    using revoked_device_stays_out [of ?z sample_x sample_ops sample_link_ops "\<lambda>_. None" ?z ?z2 ?row] site_run.site_start by metis
  with run show ?thesis by (intro exI [of _ ?z2]) simp
qed



text \<open>C5: from every reachable state in which the link serves an upstream, the link can forward what the feed still holds, with
  nothing else changing on the relay, and then the upstream's copy of every device whose changes have all been sent, in
  the order in which they reached the table, is exactly the route this relay has to that device. The device is one the
  upstream may be told of: none of its routes led through the upstream itself.\<close>

theorem upstream_catches_up:
  assumes "site_started z" "site_run x p lo assets z z1" "si_link z1 = Serving settings w k told"
  shows "\<exists>z2 told'. site_run x p lo assets z1 z2 \<and> si_system z2 = si_system z1 \<and> si_feed z2 = si_feed z1 \<and>
    si_link z2 = Serving settings w (length (si_feed z1)) told' \<and>
    (\<forall>i. of_device i (si_feed z1) = of_device i (log_of z1) \<longrightarrow> apart (of_device i (log_of z1)) (we_relay_id w) \<longrightarrow>
       foldl hear Map.empty told' i = view (rl_registry (sy_relay (si_system z1))) i)"
proof -
  have inv: "site_inv z1" by (rule site_run_inv [OF assms(2) site_started_inv [OF assms(1)]])
  from catch_up [OF inv assms(3), of x p lo assets] obtain z2 told' where z2: "site_run x p lo assets z1 z2"
      "si_system z2 = si_system z1" "si_feed z2 = si_feed z1" "si_link z2 = Serving settings w (length (si_feed z1)) told'" by blast
  have "told_ok (si_feed z1) (rl_registry (sy_relay (si_system z1))) (we_relay_id w) (length (si_feed z1)) told'"
    using site_run_inv [OF z2(1) inv] z2(2-4) by (simp add: site_inv_def)
  then have "foldl hear Map.empty told' i = view (rl_registry (sy_relay (si_system z1))) i"
    if "of_device i (si_feed z1) = of_device i (log_of z1)" "apart (of_device i (log_of z1)) (we_relay_id w)" for i
    using that unfolding told_ok_def log_of_def will_know_def
    by (elim allE [of _ i] allE [of _ "[]"]) simp
  with z2 show ?thesis by blast
qed

theorem upstream_catches_up_witness:
  "\<exists>z1 z2 told. site_run sample_x sample_ops sample_link_ops (\<lambda>_. None) (site_of linked_system) z1 \<and>
     site_run sample_x sample_ops sample_link_ops (\<lambda>_. None) z1 z2 \<and>
     si_link z1 = Serving sample_settings sample_welcome 0 [Announce []] \<and>
     si_link z2 = Serving sample_settings sample_welcome 1 told \<and>
     foldl hear Map.empty told ''desk'' = view (rl_registry (sy_relay (si_system z1))) ''desk''"
proof -
  from linked_published obtain z' name c where z': "site_run sample_x sample_ops sample_link_ops (\<lambda>_. None) (site_of linked_system) z'"
     "si_link z' = Serving sample_settings sample_welcome 0 [Announce []]" "si_feed z' = [c]" "log_of z' = [c]"
     "c = Online \<lparr>ad_id = ''desk'', ad_name = name, ad_online = True, ad_via = [''A'']\<rparr>" by blast
  have "apart (of_device ''desk'' [c]) (we_relay_id sample_welcome)" by (simp add: z'(5) sample_apart)
  with upstream_catches_up [OF linked_started z'(1,2)] z'(1-4) show ?thesis by (metis One_nat_def length_Cons list.size(3))
qed

text \<open>C12: in every state the relay with its link can reach, the chain of relays above that it reports to its devices does not
  contain the relay itself; while no upstream is configured, the chain is empty and no upstream is listed.\<close>

theorem chain_excludes_self:
  assumes "site_started z" "site_run x p lo assets z z'"
  shows "rl_relay_id (sy_relay (si_system z')) \<notin> set (upstream_chain (sy_relay (si_system z'))) \<and>
    (si_link z' = Unlinked \<longrightarrow> rl_reach (sy_relay (si_system z')) = no_reach \<and> link_view (node_of z') = None)"
  using site_run_inv [OF assms(2) site_started_inv [OF assms(1)]]
  by (auto simp: site_inv_def relay_ok_def link_view_def node_of_def)

theorem chain_excludes_self_witness:
  "\<exists>z'. site_run sample_x sample_ops sample_link_ops (\<lambda>_. None) (site_of linked_system) z' \<and>
     si_link z' = Serving sample_settings sample_welcome 0 [Announce []] \<and>
     rl_relay_id (sy_relay (si_system z')) \<notin> set (upstream_chain (sy_relay (si_system z')))"
  using linked_run chain_excludes_self [OF linked_started] by metis

end
