(* ===== verification/Http_Laws.thy ===== *)
theory Http_Laws
  imports Http Relay_Node_Laws
begin

text \<open>
  What the HTTP surface promises: an address of the administration answers nobody but an administrator, a request
  without the console's marker changes nothing but sessions and the trail, and every request is a step of the
  relation of \<open>Relay_Node\<close>, so that what holds in every reachable state holds whatever is requested.
\<close>

section \<open>Matching a path\<close>

text \<open>The documented behaviour of axum's matching, which the router relies on: a pattern and a path are compared
  segment by segment, and a segment in braces captures one that is not empty.\<close>

definition is_parameter :: "string \<Rightarrow> bool" where
  "is_parameter segment \<longleftrightarrow> prefix ''{'' segment"

fun capture_segments :: "string list \<Rightarrow> string list \<Rightarrow> string list option" where
  "capture_segments [] [] = Some []"
| "capture_segments (q # qs) (s # ss) =
     (if is_parameter q then (if s = [] then None else map_option (Cons s) (capture_segments qs ss))
      else if q = s then capture_segments qs ss else None)"
| "capture_segments qs ss = None"

definition segment_capture :: "string \<Rightarrow> string \<Rightarrow> string list option" where
  "segment_capture pattern path = capture_segments (split_on (CHR ''/'') pattern) (split_on (CHR ''/'') path)"

text \<open>The paths of the protocol crate are literals, and none of them is an address of the administration.\<close>

definition router_documented :: "('h, 'b) http_ops \<Rightarrow> bool" where
  "router_documented h \<longleftrightarrow> ho_capture h = segment_capture \<and>
     list_all (\<lambda>path. CHR ''{'' \<notin> set path \<and> \<not> prefix ''/api/admin/'' path)
       [ho_health_path h, ho_enroll_path h, ho_tunnel_path h]"

lemma split_on_inj: "split_on c xs = split_on c ys \<Longrightarrow> xs = ys"
  by (metis join_split_on)

lemma capture_none:
  "list_all (Not \<circ> is_parameter) qs \<Longrightarrow> capture_segments qs ss = (if qs = ss then Some [] else None)"
  by (induction qs ss rule: capture_segments.induct) auto

lemma capture_literal:
  assumes "CHR ''{'' \<notin> set pattern"
  shows "segment_capture pattern path = (if path = pattern then Some [] else None)"
proof -
  have "list_all (Not \<circ> is_parameter) (split_on (CHR ''/'') pattern)"
    using assms split_on_pieces [of _ "CHR ''/''" pattern]
    by (fastforce simp: list_all_iff is_parameter_def prefix_def)
  then show ?thesis unfolding segment_capture_def by (auto simp: capture_none dest: split_on_inj)
qed

lemma find_route_claimed:
  "find_route capture m path rs = Claimed e ps \<Longrightarrow>
   \<exists>pattern methods. (pattern, methods) \<in> set rs \<and> capture pattern path = Some ps \<and> method_endpoint m methods = Some e"
  by (induction rs rule: find_route.induct [of _ capture m path])
     (auto split: option.splits)

lemma protocol_literals:
  assumes "router_documented h"
  shows "ho_capture h (ho_health_path h) path = (if path = ho_health_path h then Some [] else None)"
    "ho_capture h (ho_enroll_path h) path = (if path = ho_enroll_path h then Some [] else None)"
    "ho_capture h (ho_tunnel_path h) path = (if path = ho_tunnel_path h then Some [] else None)"
  using assms by (simp_all add: router_documented_def capture_literal)





section \<open>The administration is the administrators'\<close>








section \<open>A request without the marker changes nothing\<close>

definition reads_only :: "relay_endpoint \<Rightarrow> bool" where
  "reads_only e \<longleftrightarrow> e \<in> {Health, Me, ListOwn, ListUsers, ListAll, ListEnrollments, ListAudit, ReadSettings,
     UpgradeTunnel, RootPage}"

context reader_relation
begin

lemma reads_respond: "obeys m \<Longrightarrow> S s (snd (respond f m s))"
  by (auto simp: obeys_def respond_def split: prod.splits sum.splits) (metis snd_conv)+

lemma reads_after_guard:
  "obeys g \<Longrightarrow> (\<And>a. parts = Inr a \<Longrightarrow> S s (snd (f a s))) \<Longrightarrow> S s (snd (after_guard g parts f s))"
  by (auto simp: obeys_def after_guard_def split: prod.splits sum.splits) (metis snd_conv)+

lemma reads_endpoint: "reads_only e \<Longrightarrow> S s (snd (call_endpoint x p h e captured rq s))"
  by (auto simp: reads_only_def R_refl Let_def split: option.split
      intro!: reads_respond reads_after_guard obeys_queries obeys_session obeys_upgrade)

end

definition same_but_sessions :: "database \<Rightarrow> database \<Rightarrow> bool" where
  "same_but_sessions db db' \<longleftrightarrow> d_users db' = d_users db \<and> d_devices db' = d_devices db \<and>
     d_enrollments db' = d_enrollments db \<and> d_settings db' = d_settings db"

definition untouched :: "'l relay \<Rightarrow> 'l relay \<Rightarrow> bool" where
  "untouched s s' \<longleftrightarrow> same_but_sessions (rl_db s) (rl_db s') \<and> rl_registry s' = rl_registry s \<and>
     rl_reach s' = rl_reach s \<and> rl_relay_id s' = rl_relay_id s \<and> rl_addressing s' = rl_addressing s \<and>
     rl_tls_enabled s' = rl_tls_enabled s \<and> rl_outbox s' = rl_outbox s"

interpretation unchanged: db_relation same_but_sessions
  by unfold_locales (auto simp: same_but_sessions_def)

lemma unchanged_sessions: "unchanged.obeys (update_sessions f)"
  unfolding update_sessions_def by (rule unchanged.obeys_statement) (auto simp: same_but_sessions_def)

lemma unchanged_resolve: "unchanged.obeys (resolve_session hash_secret token now)"
  unfolding resolve_session_def Let_def extend_session_def delete_session_def
  by (intro unchanged.obeys_control unchanged.obeys_db_intros unchanged_sessions)

lemma unchanged_trail: "unchanged.obeys (write_audit a)"
  unfolding write_audit_def by (rule unchanged.obeys_statement) (auto simp: same_but_sessions_def)

interpretation unchanged: session_relation same_but_sessions
  by unfold_locales (rule unchanged_resolve unchanged_trail)+

interpretation browsing: reader_relation untouched same_but_sessions
  by unfold_locales (auto simp: untouched_def same_but_sessions_def)

lemma get_endpoints_read:
  assumes "m = ''GET'' \<or> m = ''HEAD'' \<or> m = ''OPTIONS''"
  shows "list_all (\<lambda>(pattern, methods). pred_option (\<lambda>e. e \<in> insert (OnLink ListRelays) (OnRelay ` Collect reads_only))
     (method_endpoint m methods)) (server_routes h)"
  using assms by (elim disjE) (simp_all add: server_routes_def api_routes_def method_endpoint_def reads_only_def)

lemma get_route_reads:
  assumes "find_route capture m path (server_routes h) = Claimed e ps" "m \<in> {''GET'', ''HEAD'', ''OPTIONS''}"
  shows "e = OnLink ListRelays \<or> (\<exists>r. e = OnRelay r \<and> reads_only r)"
  using find_route_claimed [OF assms(1)] get_endpoints_read [of m h] assms(2) by (force simp: list_all_iff)

lemma api_segments: "segment_capture (''/api/'' @ rest) path \<noteq> None \<Longrightarrow> prefix ''/api/'' path"
proof -
  assume c: "segment_capture (''/api/'' @ rest) path \<noteq> None"
  have "split_on (CHR ''/'') (''/api/'' @ rest) = [] # ''api'' # split_on (CHR ''/'') rest"
    using split_on_append [of "CHR ''/''" "''api''" rest] by simp
  with c have s: "capture_segments ([] # ''api'' # split_on (CHR ''/'') rest) (split_on (CHR ''/'') path) \<noteq> None"
    by (simp add: segment_capture_def)
  obtain a as where a: "split_on (CHR ''/'') path = a # as" by (cases "split_on (CHR ''/'') path") simp_all
  with s have "a = []" "capture_segments (''api'' # split_on (CHR ''/'') rest) as \<noteq> None"
    by (simp_all add: is_parameter_def split: if_splits)
  with a obtain ss where ss: "split_on (CHR ''/'') path = [] # ''api'' # ss" "capture_segments (split_on (CHR ''/'') rest) ss \<noteq> None"
    by (cases as) (auto simp: is_parameter_def split: if_splits)
  then obtain y ys where "ss = y # ys" by (cases ss) (auto dest: split_on_not_Nil [THEN notE] elim: capture_segments.elims)
  then have "path = join ''/'' ([] # ''api'' # y # ys)" using ss(1) join_split_on [of "CHR ''/''" path] by simp
  then show ?thesis by simp
qed

lemma other_route_is_api:
  assumes "router_documented h" "find_route (ho_capture h) m path (server_routes h) = Claimed e ps"
    and "m \<notin> {''GET'', ''HEAD'', ''OPTIONS''}"
  shows "(prefix ''/api/'' path \<and> path \<noteq> ho_health_path h) \<or> path = ho_enroll_path h"
proof -
  obtain pattern methods where r: "(pattern, methods) \<in> set (server_routes h)" "ho_capture h pattern path = Some ps"
      "method_endpoint m methods = Some e"
    using find_route_claimed [OF assms(2)] by blast
  have c: "ho_capture h = segment_capture" using assms(1) by (simp add: router_documented_def)
  have health: "path \<noteq> ho_health_path h"
  proof
    assume "path = ho_health_path h"
    with assms show False
      by (simp add: server_routes_def api_routes_def protocol_literals method_endpoint_def)
  qed
  have "pattern = ho_enroll_path h \<or> (\<exists>rest. pattern = ''/api/'' @ rest)"
    using r(1,3) assms(3) by (auto simp: server_routes_def api_routes_def method_endpoint_def split: if_splits)
  with r(2) health show ?thesis
    using protocol_literals(2) [OF assms(1)] api_segments unfolding c by (auto split: if_splits)
qed

definition node_untouched :: "'l node \<Rightarrow> 'l node \<Rightarrow> bool" where
  "node_untouched n n' \<longleftrightarrow> untouched (nd_relay n) (nd_relay n') \<and> nd_status n' = nd_status n"

lemma untouched_on_relay:
  "(\<And>s. untouched s (snd (m s))) \<Longrightarrow> on_relay m n = (r, n') \<Longrightarrow> node_untouched n n'"
  by (auto simp: on_relay_def node_untouched_def split: prod.splits) (metis snd_conv)

lemma listing_untouched:
  assumes "respond f (list_relays x ops headers) n = (reply, n')"
  shows "node_untouched n n'"
proof -
  obtain r n1 where g: "on_relay (admin_user x ops headers) n = (r, n1)" by fastforce
  then have "node_untouched n n1"
    by (rule untouched_on_relay [OF browsing.reads_snd [OF browsing.obeys_session(3)]])
  moreover have "n' = n1"
    using assms g by (auto simp: respond_def list_relays_def bindE_def split: prod.splits sum.splits)
  ultimately show ?thesis by simp
qed

text \<open>C10: A request that lacks the console's marker, as any that a foreign site makes a browser send does, changes no
  account, device, enrollment or setting, no route and no frame, and neither starts nor stops the upstream link,
  whatever its path, method and cookies; enrolling a device, which needs no cookie, is the exception.\<close>

theorem unmarked_request_changes_nothing:
  assumes "router_documented h" "rq_path (hr_request rq) \<noteq> ho_enroll_path h"
    and "\<not> has_csrf_marker (header_value (po_headers p) (rq_headers (hr_request rq)) ''x-requested-with'')"
    and "serve x p lo h assets rq n = (reply, n')"
  shows "node_untouched n n'"
proof -
  let ?m = "hr_method rq" and ?path = "rq_path (hr_request rq)"
  show ?thesis
  proof (cases "host_target p (hr_request rq) (nd_relay n)")
    case (Some t)
    with assms(4) show ?thesis
      by (auto simp: serve_def apfst_def map_prod_def split: prod.splits
          intro!: untouched_on_relay [rotated] browsing.reads_to_device prod.collapse [symmetric])
  next
    case None
    show ?thesis
    proof (cases "\<exists>e. csrf_layer p h (serve_routes x p lo h assets) rq n = (Failure e, n)")
      case True
      with None assms(4) show ?thesis by (auto simp: serve_def node_untouched_def browsing.R_refl)
    next
      case False
      then have pass: "\<not> prefix ''/api/'' ?path \<or> ?path = ho_health_path h \<or> ?m \<in> {''GET'', ''HEAD'', ''OPTIONS''}"
          "serve_routes x p lo h assets rq n = (reply, n')"
        using assms(2-4) None by (auto simp: serve_def csrf_layer_def require_csrf_marker_def Let_def split: if_splits sum.splits)
      show ?thesis
      proof (cases "find_route (ho_capture h) ?m ?path (server_routes h)")
        case (Claimed e ps)
        then have "e = OnLink ListRelays \<or> (\<exists>r. e = OnRelay r \<and> reads_only r)"
          using get_route_reads [OF Claimed] other_route_is_api [OF assms(1) Claimed] pass(1) assms(2) by blast
        with Claimed pass(2) show ?thesis
          by (auto simp: serve_routes_def dest: listing_untouched
            elim: untouched_on_relay [OF browsing.reads_endpoint, rotated])
      next
        case Unclaimed
        with pass(2) show ?thesis
          by (auto simp: serve_routes_def apfst_def map_prod_def split: prod.splits
            intro!: untouched_on_relay [rotated] browsing.reads_dispatch prod.collapse [symmetric])
      qed (use pass(2) in \<open>simp add: serve_routes_def node_untouched_def browsing.R_refl\<close>)
    qed
  qed
qed


section \<open>Every request is a step of the relay\<close>

lemma exec_api_states:
  "snd (session_user x ops hs s) \<in> range (\<lambda>call. exec_api x ops call s)"
  "snd (admin_user x ops hs s) \<in> range (\<lambda>call. exec_api x ops call s)"
  "snd (enroll x ip er s) \<in> range (\<lambda>call. exec_api x ops call s)"
  "snd (login x ops ip lr s) \<in> range (\<lambda>call. exec_api x ops call s)"
  "snd (logout x ops hs s) \<in> range (\<lambda>call. exec_api x ops call s)"
  "snd (me x ops hs s) \<in> range (\<lambda>call. exec_api x ops call s)"
  "snd (change_password x ops hs ip pc s) \<in> range (\<lambda>call. exec_api x ops call s)"
  "snd (list_all_devices x ops hs s) \<in> range (\<lambda>call. exec_api x ops call s)"
  "snd (list_own_devices x ops hs s) \<in> range (\<lambda>call. exec_api x ops call s)"
  "snd (update_any x ops hs ip i du s) \<in> range (\<lambda>call. exec_api x ops call s)"
  "snd (update_own x ops hs ip i du s) \<in> range (\<lambda>call. exec_api x ops call s)"
  "snd (revoke_any x ops hs ip i s) \<in> range (\<lambda>call. exec_api x ops call s)"
  "snd (revoke_own x ops hs ip i s) \<in> range (\<lambda>call. exec_api x ops call s)"
  "snd (disconnect_any x ops hs ip i s) \<in> range (\<lambda>call. exec_api x ops call s)"
  "snd (list_enrollments_api x ops hs s) \<in> range (\<lambda>call. exec_api x ops call s)"
  "snd (create_enrollment_api x ops hs ip ce s) \<in> range (\<lambda>call. exec_api x ops call s)"
  "snd (cancel_enrollment_api x ops hs ip i s) \<in> range (\<lambda>call. exec_api x ops call s)"
  "snd (list_users_api x ops hs s) \<in> range (\<lambda>call. exec_api x ops call s)"
  "snd (create_user_api x ops hs ip cu s) \<in> range (\<lambda>call. exec_api x ops call s)"
  "snd (update_user_api x ops hs ip i uu s) \<in> range (\<lambda>call. exec_api x ops call s)"
  "snd (delete_user_api x ops hs ip i s) \<in> range (\<lambda>call. exec_api x ops call s)"
  "snd (list_audit_api x ops hs ap s) \<in> range (\<lambda>call. exec_api x ops call s)"
  "snd (settings_api x ops hs s) \<in> range (\<lambda>call. exec_api x ops call s)"
  unfolding exec_api.simps [symmetric, where x = x and ops = ops] by (rule rangeI)+

lemma respond_state: "snd (respond f m s) = snd (m s)"
  by (simp add: respond_def split: prod.split sum.split)

lemma after_guard_state:
  "snd (g s) \<in> A \<Longrightarrow> (\<And>a. snd (f a s) \<in> A) \<Longrightarrow> snd (after_guard g parts f s) \<in> A"
  by (auto simp: after_guard_def split: prod.splits sum.splits)

lemma call_endpoint_states:
  assumes "e \<noteq> UpgradeTunnel"
  shows "snd (call_endpoint x p h e captured rq s) \<in> insert s (range (\<lambda>call. exec_api x (po_headers p) call s))"
  using assms
  by (cases e) (simp_all add: exec_api_states respond_state after_guard_state split: prod.split sum.split)

definition accepted_task :: "device_record \<Rightarrow> string \<Rightarrow> nat \<Rightarrow> tunnel_task" where
  "accepted_task d ip channel =
     \<lparr>tt_device = d, tt_peer = ip, tt_handle = \<lparr>th_device_id = d_id d, th_channel = channel\<rparr>, tt_phase = Accepted\<rparr>"

definition no_switch :: "('h, 'v) reply \<Rightarrow> bool" where
  "no_switch r \<longleftrightarrow> (case r of Switching _ _ \<Rightarrow> False | _ \<Rightarrow> True)"

lemma no_switch [simp]: "no_switch (Reply n c b)" "no_switch (Failure e)" "no_switch (Rejection n)" "no_switch (FromRelay w)"
  "no_switch (with_cookie k r)"
  by (simp_all add: no_switch_def with_cookie_def split: prod.split)

lemma no_switch_respond [simp]: "(\<And>a. no_switch (f a)) \<Longrightarrow> no_switch (fst (respond f m s))"
  by (simp add: respond_def split: prod.split sum.split)

lemma no_switch_after_guard [simp]:
  "pred_sum no_switch (\<lambda>_. True) parts \<Longrightarrow> (\<And>a. no_switch (fst (f a s))) \<Longrightarrow> no_switch (fst (after_guard g parts f s))"
  by (auto simp: after_guard_def split: prod.splits sum.splits)

lemma pred_and_then [simp]:
  "pred_sum P (\<lambda>_. True) m \<Longrightarrow> (\<And>a. pred_sum P (\<lambda>_. True) (f a)) \<Longrightarrow> pred_sum P (\<lambda>_. True) (and_then m f)"
  by (cases m) auto

lemma no_switch_parts [simp]:
  "pred_sum no_switch (\<lambda>_. True) (client_ip p rq s)" "pred_sum no_switch (\<lambda>_. True) (path_id h captured)"
  "pred_sum no_switch (\<lambda>_. True) (body_of parse hr)" "pred_sum no_switch (\<lambda>_. True) (api_query a)"
  by (simp_all add: client_ip_def path_id_def body_of_def api_json_def api_query_def split: option.split list.split sum.split)

lemma no_switch_lists [simp]:
  "pred_sum no_switch (\<lambda>_. True) (client_and_id p h captured rq s)"
  "pred_sum no_switch (\<lambda>_. True) (client_and_body p parse rq s)"
  "pred_sum no_switch (\<lambda>_. True) (client_id_body p h parse captured rq s)"
  by (simp_all add: client_and_id_def client_and_body_def client_id_body_def split: prod.split)

lemma pred_sum_case: "pred_sum P (\<lambda>_. True) m \<Longrightarrow> (\<And>a. P (g a)) \<Longrightarrow> P (case m of Inl r \<Rightarrow> r | Inr a \<Rightarrow> g a)"
  by (cases m) auto

lemma endpoint_switches_not:
  assumes "e \<noteq> UpgradeTunnel"
  shows "no_switch (fst (call_endpoint x p h e captured rq s))"
proof -
  have c: "no_switch (fst (case m of Inl r \<Rightarrow> (r, s) | Inr a \<Rightarrow> g a))"
    if "pred_sum no_switch (\<lambda>_. True) m" "\<And>a. no_switch (fst (g a))" for m :: "('a, 'b) reply + 'z" and g
    using that by (cases m) auto
  show ?thesis using assms by (cases e) (simp_all add: c split: prod.split)
qed

definition put_relay :: "'l relay \<Rightarrow> tunnel_task list \<Rightarrow> 'l site \<Rightarrow> 'l site" where
  "put_relay s ts z = put_system ((si_system z)\<lparr>sy_relay := s,
     sy_next := sy_next (si_system z) + length ts, sy_tasks := ts @ sy_tasks (si_system z)\<rparr>) z"

lemma put_relay_simps [simp]:
  "node_of (put_relay s ts z) = (node_of z)\<lparr>nd_relay := s\<rparr>" "sy_tasks (si_system (put_relay s ts z)) = ts @ sy_tasks (si_system z)"
  by (simp_all add: put_relay_def)

lemma put_node_simps [simp]:
  "node_of (put_node n ph z) = n" "sy_tasks (si_system (put_node n ph z)) = sy_tasks (si_system z)"
  by (simp_all add: put_node_def node_of_def)

text \<open>What a request has done to the site it was sent to.\<close>

definition served ::
  "('l site \<Rightarrow> 'l site \<Rightarrow> bool) \<Rightarrow> ('h, 'v) reply \<Rightarrow> 'l node \<Rightarrow> 'l site \<Rightarrow> bool" where
  "served runs reply n z \<longleftrightarrow> (\<exists>z'. runs z z' \<and> node_of z' = n \<and> sy_tasks (si_system z') =
     (case reply of Switching d ip \<Rightarrow> [accepted_task d ip (sy_next (si_system z))] | _ \<Rightarrow> []) @ sy_tasks (si_system z))"

lemma served_still: "no_switch reply \<Longrightarrow> served (site_run x p lo assets) reply (node_of z) z"
  unfolding served_def by (rule exI [of _ z]) (auto simp: no_switch_def site_start split: reply.splits)

lemma served_step:
  assumes "no_switch reply" "site_step x p lo assets z z'" "node_of z' = n" "sy_tasks (si_system z') = sy_tasks (si_system z)"
  shows "served (site_run x p lo assets) reply n z"
  unfolding served_def
  by (rule exI [of _ z']) (use assms in \<open>auto simp: no_switch_def intro: site_more [OF site_start] split: reply.splits\<close>)

lemma served_inside:
  assumes "no_switch reply" "system_step x p assets (si_system z) ((si_system z)\<lparr>sy_relay := s\<rparr>)"
  shows "served (site_run x p lo assets) reply ((node_of z)\<lparr>nd_relay := s\<rparr>) z"
  by (rule served_step [OF assms(1) Inside [OF assms(2)]]) (simp_all add: node_of_def)

lemma served_api:
  assumes "no_switch reply" "s \<in> insert (sy_relay (si_system z)) (range (\<lambda>call. exec_api x (po_headers p) call (sy_relay (si_system z))))"
  shows "served (site_run x p lo assets) reply ((node_of z)\<lparr>nd_relay := s\<rparr>) z"
proof (cases "s = sy_relay (si_system z)")
  case True
  then have "(node_of z)\<lparr>nd_relay := s\<rparr> = node_of z" by (simp add: node_of_def)
  with served_still [OF assms(1)] show ?thesis by metis
next
  case False
  with assms(2) obtain call where s: "s = exec_api x (po_headers p) call (sy_relay (si_system z))" by auto
  show ?thesis unfolding s by (rule served_inside [OF assms(1) system_step.Api])
qed

lemma served_browse:
  assumes "host_target p rq (sy_relay (si_system z)) = t"
    and "(case t of Some target \<Rightarrow> forward_to_device x p target rq | None \<Rightarrow> dispatch x p assets rq)
      (sy_relay (si_system z)) = (w, s)"
  shows "served (site_run x p lo assets) (FromRelay w) ((node_of z)\<lparr>nd_relay := s\<rparr>) z"
proof -
  have "route_device_host x p (dispatch x p assets) rq (sy_relay (si_system z)) = (w, s)"
    using assms by (auto simp: route_device_host_def split: option.splits)
  then show ?thesis by (intro served_inside system_step.Browse) simp_all
qed

lemma served_upgrade:
  assumes "call_endpoint x p h UpgradeTunnel captured rq (sy_relay (si_system z)) = (reply, s)"
  shows "served (site_run x p lo assets) reply ((node_of z)\<lparr>nd_relay := s\<rparr>) z"
proof (cases "\<exists>ip. respond (\<lambda>device. Switching device ip) (upgrade x (po_headers p) (rq_headers (hr_request rq)) ip)
    (sy_relay (si_system z)) = (reply, s)")
  case False
  with assms have "s = sy_relay (si_system z)" "no_switch reply" by (auto simp: Let_def split: option.splits)
  with served_api show ?thesis by blast
next
  case True
  then obtain ip where r: "respond (\<lambda>device. Switching device ip)
      (upgrade x (po_headers p) (rq_headers (hr_request rq)) ip) (sy_relay (si_system z)) = (reply, s)" by blast
  let ?u = "upgrade x (po_headers p) (rq_headers (hr_request rq)) ip (sy_relay (si_system z))"
  show ?thesis
  proof (cases "fst ?u")
    case (Inl e)
    with r have "?u = (Inl e, s)" "reply = Failure e" by (auto simp: respond_def split: prod.splits)
    with system_step.Refused show ?thesis by (intro served_inside) auto
  next
    case (Inr d)
    with r have u: "?u = (Inr d, s)" "reply = Switching d ip" by (auto simp: respond_def split: prod.splits)
    have "site_step x p lo assets z (put_relay s [accepted_task d ip (sy_next (si_system z))] z)"
      using site_step.Inside [where lo = lo, OF system_step.Upgraded [where assets = assets, OF u(1)]] by (simp add: put_relay_def accepted_task_def)
    then show ?thesis
      unfolding served_def u(2) by (intro exI [of _ "put_relay s [accepted_task d ip (sy_next (si_system z))] z"] conjI site_more [OF site_start]) simp_all
  qed
qed

lemma served_pointing:
  assumes "set_upstream x lo headers request (node_of z) = (r, n)" "no_switch reply"
  shows "served (site_run x p lo assets) reply n z"
proof (cases r)
  case (Inl e)
  show ?thesis by (rule served_step [OF assms(2) site_step.PointFailed [OF assms(1) [unfolded Inl]]]) simp_all
next
  case (Inr shown)
  show ?thesis
    by (rule served_step [OF assms(2) site_step.Pointed
        [where settings = "undefined\<lparr>us_url := uv_url shown\<rparr>", OF assms(1) [unfolded Inr]]]) simp_all
qed

lemma served_link:
  assumes "call_link_endpoint x p lo h e rq (node_of z) = (reply, n)" "lo_headers lo = po_headers p"
  shows "served (site_run x p lo assets) reply n z"
proof -
  let ?hs = "rq_headers (hr_request rq)"
  show ?thesis
  proof (cases e)
    case ListRelays
    obtain r where r: "list_relays x (po_headers p) ?hs (node_of z) = (r, n)" "no_switch reply"
      using assms ListRelays by (auto simp: respond_def no_switch_def split: prod.splits sum.splits)
    then show ?thesis by (intro served_step [OF _ site_step.Listed [OF r(1)]]) simp_all
  next
    case ClearUpstream
    obtain r where r: "clear_upstream x (po_headers p) ?hs (node_of z) = (r, n)" "no_switch reply"
      using assms ClearUpstream by (auto simp: respond_def no_switch_def split: prod.splits sum.splits)
    show ?thesis
    proof (cases "fst (admin_user x (po_headers p) ?hs (nd_relay (node_of z)))")
      case (Inl e)
      then show ?thesis by (intro served_step [OF r(2) site_step.DropRefused [OF Inl r(1)]]) simp_all
    next
      case (Inr a)
      then show ?thesis by (intro served_step [OF r(2) site_step.Dropped [OF Inr r(1)]]) simp_all
    qed
  next
    case SetUpstream
    show ?thesis
    proof (cases "body_of (ho_upstream h) rq :: ('a, 'b) reply + upstream_request")
      case (Inl refusal)
      with no_switch_parts(3) have "no_switch refusal" by (metis pred_sum_inject(1))
      moreover obtain g s where "admin_user x (po_headers p) ?hs (sy_relay (si_system z)) = (g, s)" by fastforce
      ultimately have "n = (node_of z)\<lparr>nd_relay := s\<rparr>" "no_switch reply"
          "s \<in> range (\<lambda>call. exec_api x (po_headers p) call (sy_relay (si_system z)))"
        using assms SetUpstream Inl exec_api_states(2) [of x "po_headers p" ?hs "sy_relay (si_system z)"]
        by (auto simp: after_guard_def on_relay_def node_of_def split: sum.splits)
      then show ?thesis by (simp add: served_api)
    next
      case (Inr request)
      then have "respond (\<lambda>v. Reply 201 None (UpstreamAnswer v)) (set_upstream x lo ?hs request) (node_of z) = (reply, n)"
        using assms(1) SetUpstream by (simp add: after_guard_def)
      then obtain r where "set_upstream x lo ?hs request (node_of z) = (r, n)" "no_switch reply"
        by (auto simp: respond_def split: prod.splits sum.splits)
      then show ?thesis by (rule served_pointing)
    qed
  qed
qed

text \<open>C2: The whole HTTP surface refines the step relation: serving any request takes the site by its steps to a site
  whose shared state and link are those the request left, with one more tunnel task when the answer is a switch to
  the tunnel and the same tasks otherwise.\<close>

theorem request_is_a_step:
  assumes "serve x p lo h assets rq (node_of z) = (reply, n)" "lo_headers lo = po_headers p"
  shows "served (site_run x p lo assets) reply n z"
proof -
  have browse: "served (site_run x p lo assets) reply n z"
    if "host_target p (hr_request rq) (sy_relay (si_system z)) = t"
      "apfst FromRelay (on_relay (case t of Some target \<Rightarrow> forward_to_device x p target (hr_request rq)
         | None \<Rightarrow> dispatch x p assets (hr_request rq)) (node_of z)) = (reply, n)" for t
    using that served_browse [OF that(1)] by (auto simp: on_relay_def node_of_def split: prod.splits)
  show ?thesis
  proof (cases "host_target p (hr_request rq) (sy_relay (si_system z))")
    case (Some t)
    then show ?thesis using browse [OF Some] assms(1) by (simp add: serve_def node_of_def)
  next
    case None
    show ?thesis
    proof (cases "\<exists>e. (reply, n) = (Failure e, node_of z)")
      case True
      then show ?thesis by (auto intro: served_still)
    next
      case False
      then have "serve_routes x p lo h assets rq (node_of z) = (reply, n)"
        using assms(1) None by (auto simp: serve_def csrf_layer_def node_of_def split: sum.splits)
      then have "\<exists>e c. serve_endpoint x p lo h e c rq (node_of z) = (reply, n)"
        if "\<not> (n = node_of z \<and> reply = Rejection 405)"
          "apfst FromRelay (on_relay (dispatch x p assets (hr_request rq)) (node_of z)) \<noteq> (reply, n)"
        using that unfolding serve_routes_def by (cases "find_route (ho_capture h) (hr_method rq) (rq_path (hr_request rq)) (server_routes h)") auto
      moreover have "(\<exists>c r. e = OnRelay r \<and> on_relay (call_endpoint x p h r c rq) (node_of z) = (reply, n)) \<or>
          (\<exists>l. call_link_endpoint x p lo h l rq (node_of z) = (reply, n))"
        if "serve_endpoint x p lo h e c rq (node_of z) = (reply, n)" for e c
        using that by (cases e) auto
      ultimately consider "n = node_of z" "reply = Rejection 405"
        | "apfst FromRelay (on_relay (dispatch x p assets (hr_request rq)) (node_of z)) = (reply, n)"
        | e captured where "on_relay (call_endpoint x p h e captured rq) (node_of z) = (reply, n)"
        | e where "call_link_endpoint x p lo h e rq (node_of z) = (reply, n)"
        by blast
      then show ?thesis
      proof cases
        case (3 e captured)
        then obtain s where s: "call_endpoint x p h e captured rq (sy_relay (si_system z)) = (reply, s)"
            "n = (node_of z)\<lparr>nd_relay := s\<rparr>"
          by (auto simp: on_relay_def node_of_def split: prod.splits)
        show ?thesis
        proof (cases "e = UpgradeTunnel")
          case True
          then show ?thesis using s served_upgrade by metis
        next
          case False
          then show ?thesis
            using s call_endpoint_states [OF False] endpoint_switches_not [OF False] served_api by (metis fst_conv snd_conv)
        qed
      qed (use browse [OF None] served_link assms(2) in \<open>auto intro: served_still\<close>)
    qed
  qed
qed

section \<open>Sample requests\<close>

definition sample_http :: "((string \<times> string) list, unit) http_ops" where
  "sample_http = \<lparr>ho_health_path = ''/api/health'', ho_enroll_path = ''/api/enroll'', ho_tunnel_path = ''/tunnel'',
     ho_capture = segment_capture, ho_path_param = Some,
     ho_enroll = (\<lambda>_ _ _. Inr (EnrollByCode ''ABCD'' ''Study'')),
     ho_login = (\<lambda>_ _ _. Inr \<lparr>lr_username = ''ada'', lr_password = ''p''\<rparr>),
     ho_password_change = (\<lambda>_ _ _. Inr \<lparr>pc_current_password = ''p'', pc_new_password = ''q''\<rparr>),
     ho_device_update = (\<lambda>_ _ _. Inr \<lparr>dr_name = Some ''Desk'', dr_note = None, dr_access = None\<rparr>),
     ho_create_user = (\<lambda>_ _ _. Inl JsonSyntaxError),
     ho_update_user = (\<lambda>_ _ _. Inr \<lparr>ur_disabled = Some True, ur_role = None, ur_password = None\<rparr>),
     ho_create_enrollment = (\<lambda>_ _ _. Inl MissingJsonContentType),
     ho_upstream = (\<lambda>_ _ _. Inr \<lparr>ur_url = ''https://up.example'', ur_code = ''ABCD'', ur_fingerprint = None\<rparr>),
     ho_audit_query = (\<lambda>_. Some \<lparr>ap_limit = None, ap_before = None, ap_target_id = None\<rparr>),
     ho_websocket = (\<lambda>_ _. None), ho_version = ''1.0.0''\<rparr>"

definition sample_http_request :: "string \<Rightarrow> string \<Rightarrow> (string \<times> string) list \<Rightarrow> ((string \<times> string) list, unit) http_request" where
  "sample_http_request m path headers = \<lparr>hr_method = m, hr_body = (),
     hr_request = \<lparr>rq_path = path, rq_query = None, rq_headers = headers, rq_peer = Some ''192.0.2.7''\<rparr>\<rparr>"

lemma sample_documented: "router_documented sample_http"
  by (simp add: router_documented_def sample_http_def)


theorem unmarked_request_changes_nothing_witness:
  "serve sample_x sample_ops sample_link_ops sample_http (\<lambda>_. None)
     (sample_http_request ''POST'' ''/api/auth/logout'' []) bare_node = (Failure (forbidden CsrfRequired), bare_node)
   \<and> node_untouched bare_node bare_node"
proof -
  let ?rq = "sample_http_request ''POST'' ''/api/auth/logout'' []"
  have m: "\<not> has_csrf_marker (header_value (po_headers sample_ops) (rq_headers (hr_request ?rq)) ''x-requested-with'')"
    by (simp add: has_csrf_marker_def header_value_def h_get_def sample_ops_def sample_http_request_def list_headers_def)
  have s: "serve sample_x sample_ops sample_link_ops sample_http (\<lambda>_. None) ?rq bare_node = (Failure (forbidden CsrfRequired), bare_node)"
    using m by (simp add: serve_def host_target_def csrf_layer_def require_csrf_marker_def Let_def sample_http_request_def
        sample_http_def header_value_def h_get_def sample_ops_def list_headers_def)
  from unmarked_request_changes_nothing [OF sample_documented _ m s] s show ?thesis
    by (simp add: sample_http_request_def sample_http_def)
qed

definition sample_site :: "string list site" where
  "sample_site = \<lparr>si_system = \<lparr>sy_relay = sample_relay, sy_tasks = [], sy_next = 0\<rparr>, si_status = None, si_link = Unlinked, si_feed = [], si_unsent = []\<rparr>"

theorem request_is_a_step_witness:
  "served (site_run sample_x sample_ops sample_link_ops (\<lambda>_. None))
     (Reply 200 None (HealthAnswer ''1.0.0'' ''A'' (x_protocol_version sample_x)) :: ((string \<times> string) list, string) reply)
     (node_of sample_site) sample_site"
proof -
  have "serve sample_x sample_ops sample_link_ops sample_http (\<lambda>_. None) (sample_http_request ''GET'' ''/api/health'' [])
      (node_of sample_site) = (Reply 200 None (HealthAnswer ''1.0.0'' ''A'' (x_protocol_version sample_x)), node_of sample_site)"
    by (simp add: serve_def host_target_def csrf_layer_def require_csrf_marker_def Let_def sample_http_request_def
        sample_http_def header_value_def h_get_def sample_ops_def list_headers_def serve_routes_def server_routes_def api_routes_def
        segment_capture_def is_parameter_def method_endpoint_def on_relay_def sample_site_def node_of_def sample_relay_def)
  then show ?thesis by (rule request_is_a_step) (simp add: sample_link_ops_def sample_ops_def)
qed

end
