(* ===== verification/Schema.thy ===== *)
theory Schema
  imports Database_Laws
begin

text \<open>
  Bringing the schema of the store up to date (\<^verbatim>\<open>migrate\<close> and \<^verbatim>\<open>ensure_column\<close> in \<^verbatim>\<open>src/db/mod.rs\<close>,
  \<^verbatim>\<open>migrations/0001_initial.sql\<close>). A connection holds its tables with their columns and rows; any statement may
  fail, and a batch stops at the first that does. Every start runs the whole migration, so what matters is that
  it can be interrupted anywhere, run again, and leaves a store that is up to date as it is.
\<close>

section \<open>Tables and statements\<close>

record column =
  cl_name :: string
  cl_type :: string
  cl_not_null :: bool
  cl_default :: "string option"
  cl_constraint :: string

record table =
  tb_columns :: "column list"
  tb_rows :: "string option list list"

record connection =
  cn_tables :: "string \<Rightarrow> table option"
  cn_indexes :: "string list"
  cn_fail :: "nat \<Rightarrow> bool"
  cn_calls :: nat

datatype ddl =
    CreateTable string "column list"
  | CreateIndex string string "string list"

definition table_columns :: "connection \<Rightarrow> string \<Rightarrow> string list" where
  "table_columns c t = (case cn_tables c t of None \<Rightarrow> [] | Some tb \<Rightarrow> map cl_name (tb_columns tb))"

definition sql :: "(connection \<Rightarrow> (database_error + 'a) \<times> connection) \<Rightarrow> connection \<Rightarrow> (database_error + 'a) \<times> connection" where
  "sql f c =
     (let c1 = c\<lparr>cn_calls := cn_calls c + 1\<rparr>
      in if cn_fail c (cn_calls c) then (Inl (Sqlite OtherFailure), c1) else f c1)"

text \<open>\<^verbatim>\<open>IF NOT EXISTS\<close> on both kinds of statement.\<close>

fun run_ddl :: "ddl \<Rightarrow> connection \<Rightarrow> (database_error + unit) \<times> connection" where
  "run_ddl (CreateTable t cs) c =
     (if cn_tables c t \<noteq> None then okE () c
      else okE () (c\<lparr>cn_tables := (cn_tables c)(t \<mapsto> \<lparr>tb_columns = cs, tb_rows = []\<rparr>)\<rparr>))"
| "run_ddl (CreateIndex i t cs) c =
     (if i \<in> set (cn_indexes c) then okE () c
      else if list_all (\<lambda>n. n \<in> set (table_columns c t)) cs then okE () (c\<lparr>cn_indexes := i # cn_indexes c\<rparr>)
      else errE (Sqlite OtherFailure) c)"

fun execute_batch :: "ddl list \<Rightarrow> connection \<Rightarrow> (database_error + unit) \<times> connection" where
  "execute_batch [] = okE ()"
| "execute_batch (d # ds) = bindE (sql (run_ddl d)) (\<lambda>_. execute_batch ds)"

text \<open>A column that may not be null is refused without a default; the rows that exist take the default.\<close>

definition alter_table :: "string \<Rightarrow> column \<Rightarrow> connection \<Rightarrow> (database_error + unit) \<times> connection" where
  "alter_table t col c =
     (case cn_tables c t of
        None \<Rightarrow> errE (Sqlite OtherFailure) c
      | Some tb \<Rightarrow>
          if cl_name col \<in> set (table_columns c t) \<or> cl_not_null col \<and> cl_default col = None
          then errE (Sqlite OtherFailure) c
          else okE () (c\<lparr>cn_tables := (cn_tables c)(t \<mapsto> \<lparr>tb_columns = tb_columns tb @ [col],
                 tb_rows = map (\<lambda>row. row @ [cl_default col]) (tb_rows tb)\<rparr>)\<rparr>))"

section \<open>The migration\<close>

definition plain :: "string \<Rightarrow> string \<Rightarrow> column" where
  "plain n t = \<lparr>cl_name = n, cl_type = t, cl_not_null = False, cl_default = None, cl_constraint = []\<rparr>"

definition needed :: "string \<Rightarrow> string \<Rightarrow> column" where
  "needed n t = (plain n t)\<lparr>cl_not_null := True\<rparr>"

definition defaulted :: "string \<Rightarrow> string \<Rightarrow> string \<Rightarrow> column" where
  "defaulted n t d = (needed n t)\<lparr>cl_default := Some d\<rparr>"

definition constrained :: "string \<Rightarrow> column \<Rightarrow> column" where
  "constrained k col = col\<lparr>cl_constraint := k\<rparr>"

definition cancelled_at_column :: column where
  "cancelled_at_column = plain ''cancelled_at'' ''INTEGER''"

definition created_at_column :: column where
  "created_at_column = defaulted ''created_at'' ''INTEGER'' ''0''"

definition access_column :: column where
  "access_column = defaulted ''access'' ''TEXT'' (access_str Public)"

definition initial_migration :: "ddl list" where
  "initial_migration =
     [CreateTable ''relay_settings''
        [constrained ''PRIMARY KEY'' (plain ''key'' ''TEXT''), needed ''value'' ''TEXT'', needed ''updated_at'' ''INTEGER''],
      CreateTable ''users''
        [constrained ''PRIMARY KEY'' (plain ''id'' ''TEXT''), constrained ''UNIQUE'' (needed ''username'' ''TEXT''),
         needed ''password_hash'' ''TEXT'', needed ''role'' ''TEXT'', defaulted ''disabled'' ''INTEGER'' ''0'',
         needed ''created_at'' ''INTEGER'', plain ''last_login_at'' ''INTEGER''],
      CreateTable ''devices''
        [constrained ''PRIMARY KEY'' (plain ''id'' ''TEXT''), needed ''kind'' ''TEXT'', needed ''name'' ''TEXT'',
         constrained ''REFERENCES users(id)'' (plain ''owner_user_id'' ''TEXT''), needed ''secret_hash'' ''TEXT'',
         plain ''note'' ''TEXT'', needed ''created_at'' ''INTEGER'', plain ''revoked_at'' ''INTEGER'',
         plain ''last_seen_at'' ''INTEGER'', plain ''last_ip'' ''TEXT'', plain ''last_version'' ''TEXT'', access_column],
      CreateIndex ''idx_devices_owner'' ''devices'' [''owner_user_id''],
      CreateTable ''enrollment_codes''
        [constrained ''PRIMARY KEY'' (plain ''id'' ''TEXT''), constrained ''UNIQUE'' (needed ''code_hash'' ''TEXT''),
         needed ''kind'' ''TEXT'', plain ''owner_user_id'' ''TEXT'', needed ''created_by'' ''TEXT'', plain ''note'' ''TEXT'',
         created_at_column, needed ''expires_at'' ''INTEGER'', plain ''used_at'' ''INTEGER'',
         plain ''used_by_device_id'' ''TEXT'', cancelled_at_column],
      CreateTable ''console_sessions''
        [constrained ''PRIMARY KEY'' (plain ''id'' ''TEXT''), needed ''user_id'' ''TEXT'', needed ''created_at'' ''INTEGER'',
         needed ''expires_at'' ''INTEGER'', plain ''ip'' ''TEXT''],
      CreateIndex ''idx_console_sessions_user'' ''console_sessions'' [''user_id''],
      CreateTable ''audit_events''
        [constrained ''PRIMARY KEY AUTOINCREMENT'' (plain ''id'' ''INTEGER''), needed ''at'' ''INTEGER'',
         needed ''actor_kind'' ''TEXT'', plain ''actor_id'' ''TEXT'', needed ''action'' ''TEXT'', plain ''target_kind'' ''TEXT'',
         plain ''target_id'' ''TEXT'', plain ''ip'' ''TEXT'', plain ''detail'' ''TEXT''],
      CreateIndex ''idx_audit_events_at'' ''audit_events'' [''at''],
      CreateIndex ''idx_audit_events_target'' ''audit_events'' [''target_id'']]"

definition ensure_column :: "string \<Rightarrow> column \<Rightarrow> connection \<Rightarrow> (database_error + unit) \<times> connection" where
  "ensure_column t col =
     bindE (sql (\<lambda>c. okE (table_columns c t) c)) (\<lambda>existing.
       if cl_name col \<in> set existing then okE () else sql (alter_table t col))"

definition migrate :: "connection \<Rightarrow> (database_error + unit) \<times> connection" where
  "migrate =
     bindE (execute_batch initial_migration) (\<lambda>_.
     bindE (ensure_column ''enrollment_codes'' cancelled_at_column) (\<lambda>_.
     bindE (ensure_column ''enrollment_codes'' created_at_column) (\<lambda>_.
       ensure_column ''devices'' access_column)))"

section \<open>What a migration keeps\<close>

text \<open>The columns that releases added after the table's first: a store may come from before them.\<close>

definition added_columns :: "(string \<times> string) list" where
  "added_columns = [(''enrollment_codes'', ''cancelled_at''), (''enrollment_codes'', ''created_at''), (''devices'', ''access'')]"

definition first_columns :: "string \<Rightarrow> column list \<Rightarrow> string list" where
  "first_columns t cs = filter (\<lambda>n. (t, n) \<notin> set added_columns) (map cl_name cs)"

fun covers :: "connection \<Rightarrow> (string \<Rightarrow> column list \<Rightarrow> string list) \<Rightarrow> ddl \<Rightarrow> bool" where
  "covers c wanted (CreateTable t cs) \<longleftrightarrow> cn_tables c t \<noteq> None \<and> set (wanted t cs) \<subseteq> set (table_columns c t)"
| "covers c wanted (CreateIndex i t cs) \<longleftrightarrow> i \<in> set (cn_indexes c)"

definition up_to_date :: "connection \<Rightarrow> bool" where
  "up_to_date c \<longleftrightarrow> list_all (covers c (\<lambda>_. map cl_name)) initial_migration"

text \<open>A store of any release, at any point of a migration: a table it has, has at least its first columns.\<close>

definition upgradable :: "connection \<Rightarrow> bool" where
  "upgradable c \<longleftrightarrow> list_all (\<lambda>d. case d of
       CreateTable t cs \<Rightarrow> cn_tables c t = None \<or> set (first_columns t cs) \<subseteq> set (table_columns c t)
     | CreateIndex i t cs \<Rightarrow> True) initial_migration"

definition rows_kept :: "connection \<Rightarrow> connection \<Rightarrow> bool" where
  "rows_kept c c' \<longleftrightarrow> (\<forall>t tb. cn_tables c t = Some tb \<longrightarrow>
     (\<exists>tb'. cn_tables c' t = Some tb' \<and> prefix (tb_columns tb) (tb_columns tb') \<and>
       list_all2 prefix (tb_rows tb) (tb_rows tb')))"

definition migrating :: "connection \<Rightarrow> connection \<Rightarrow> bool" where
  "migrating c c' \<longleftrightarrow> rows_kept c c' \<and> set (cn_indexes c) \<subseteq> set (cn_indexes c') \<and> cn_fail c' = cn_fail c \<and>
     (upgradable c \<longrightarrow> upgradable c')"

lemma list_all2_prefix: "list_all2 prefix rs rs" "list_all2 prefix rs ss \<Longrightarrow> list_all2 prefix ss ts \<Longrightarrow> list_all2 prefix rs ts"
  by (simp add: list.rel_refl) (rule list_all2_trans [where ?P1.0 = prefix and ?P2.0 = prefix], rule prefix_order.trans)

lemma rows_kept_order: "rows_kept c c" "rows_kept c c1 \<Longrightarrow> rows_kept c1 c2 \<Longrightarrow> rows_kept c c2"
proof -
  show "rows_kept c c" by (simp add: rows_kept_def list_all2_prefix)
  assume "rows_kept c c1" "rows_kept c1 c2"
  then show "rows_kept c c2"
    unfolding rows_kept_def by (meson list_all2_prefix(2) prefix_order.trans)
qed

interpretation mig: step_relation migrating
  by unfold_locales (auto simp: migrating_def intro: rows_kept_order)

lemma rows_kept_columns:
  assumes "rows_kept c c'"
  shows "set (table_columns c t) \<subseteq> set (table_columns c' t)"
proof (cases "cn_tables c t")
  case (Some tb)
  with assms obtain tb' where "cn_tables c' t = Some tb'" "prefix (tb_columns tb) (tb_columns tb')"
    unfolding rows_kept_def by blast
  with Some show ?thesis by (auto simp: table_columns_def prefix_def)
qed (simp add: table_columns_def)

lemma rows_kept_table: "rows_kept c c' \<Longrightarrow> cn_tables c t \<noteq> None \<Longrightarrow> cn_tables c' t \<noteq> None"
  unfolding rows_kept_def by blast

lemma table_columns_calls [simp]: "table_columns (c\<lparr>cn_calls := n\<rparr>) t = table_columns c t"
  by (simp add: table_columns_def)

lemma rows_kept_alter:
  assumes "cn_tables c t = Some tb"
  shows "rows_kept c (c\<lparr>cn_tables := (cn_tables c)(t \<mapsto> \<lparr>tb_columns = tb_columns tb @ [col],
    tb_rows = map (\<lambda>row. row @ [d]) (tb_rows tb)\<rparr>)\<rparr>)"
  using assms by (auto simp: rows_kept_def list_all2_prefix list_all2_map2 intro: list_all2_refl)

lemma upgradable_mono:
  assumes "upgradable c" "rows_kept c c'"
    and "\<And>t cs. CreateTable t cs \<in> set initial_migration \<Longrightarrow> cn_tables c t = None \<Longrightarrow>
      cn_tables c' t = None \<or> set (first_columns t cs) \<subseteq> set (table_columns c' t)"
  shows "upgradable c'"
  using assms(1,3) rows_kept_columns [OF assms(2)]
  by (fastforce simp: upgradable_def list_all_iff split: ddl.splits)

lemma migrating_sql: "(\<And>c. cn_fail (snd (f c)) = cn_fail c) \<Longrightarrow> (\<And>c. migrating c (snd (f c))) \<Longrightarrow> mig.obeys (sql f)"
proof -
  assume f: "\<And>c. migrating c (snd (f c))"
  have "migrating c (c\<lparr>cn_calls := n\<rparr>)" for c n
    by (auto simp: migrating_def rows_kept_def list_all2_prefix upgradable_def table_columns_def cong: ddl.case_cong)
  with f show "mig.obeys (sql f)"
    by (auto simp: mig.obeys_def sql_def Let_def intro: mig.R_trans)
qed

lemma same_schema:
  "cn_tables c' = cn_tables c \<Longrightarrow> cn_fail c' = cn_fail c \<Longrightarrow> set (cn_indexes c) \<subseteq> set (cn_indexes c') \<Longrightarrow> migrating c c'"
  by (simp add: migrating_def rows_kept_def list_all2_prefix upgradable_def table_columns_def cong: ddl.case_cong)

lemma table_once: "CreateTable t cs \<in> set initial_migration \<Longrightarrow> CreateTable t cs' \<in> set initial_migration \<Longrightarrow> cs = cs'"
  by (auto simp: initial_migration_def)

lemma migrating_ddl:
  assumes "d \<in> set initial_migration"
  shows "migrating c (snd (run_ddl d c))"
proof (cases d)
  case (CreateTable t cs)
  show ?thesis
  proof (cases "cn_tables c t")
    case None
    let ?c = "c\<lparr>cn_tables := (cn_tables c)(t \<mapsto> \<lparr>tb_columns = cs, tb_rows = []\<rparr>)\<rparr>"
    have kept: "rows_kept c ?c" using None by (auto simp: rows_kept_def list_all2_prefix)
    have "upgradable ?c" if "upgradable c"
      by (rule upgradable_mono [OF that kept])
        (use assms CreateTable table_once in \<open>auto simp: table_columns_def first_columns_def\<close>)
    with kept None CreateTable show ?thesis by (simp add: okE_def migrating_def)
  qed (simp add: CreateTable okE_def mig.R_refl)
next
  case (CreateIndex i t cs)
  then show ?thesis
    by (auto simp: okE_def errE_def intro!: same_schema)
qed

lemma sql_reads: "mig.obeys (sql (\<lambda>c. okE (g c) c))"
  by (rule migrating_sql) (simp_all add: okE_def mig.R_refl)

lemma migrating_alter: "migrating c (snd (alter_table t col c))"
proof (cases "cn_tables c t")
  case (Some tb)
  let ?c = "c\<lparr>cn_tables := (cn_tables c)(t \<mapsto> \<lparr>tb_columns = tb_columns tb @ [col],
    tb_rows = map (\<lambda>row. row @ [cl_default col]) (tb_rows tb)\<rparr>)\<rparr>"
  have kept: "rows_kept c ?c" by (rule rows_kept_alter [OF Some])
  have "upgradable ?c" if "upgradable c"
    by (rule upgradable_mono [OF that kept]) (use Some in auto)
  with kept have "migrating c ?c" by (simp add: migrating_def)
  with Some show ?thesis by (simp add: alter_table_def okE_def errE_def mig.R_refl)
qed (simp add: alter_table_def errE_def mig.R_refl)

lemma migrating_fails: "migrating c c' \<Longrightarrow> cn_fail c' = cn_fail c"
  by (simp add: migrating_def)

lemma migrating_batch: "set ds \<subseteq> set initial_migration \<Longrightarrow> mig.obeys (execute_batch ds)"
proof (induction ds)
  case (Cons d ds)
  then have "mig.obeys (sql (run_ddl d))"
    by (intro migrating_sql migrating_fails migrating_ddl) simp_all
  with Cons show ?case by (simp add: mig.obeys_bind)
qed (simp add: mig.obeys_ok)

lemma migrating_ensure: "mig.obeys (ensure_column t col)"
proof -
  have "mig.obeys (if b then okE () else sql (alter_table t col))" for b
    by (simp add: mig.obeys_ok migrating_sql migrating_fails [OF migrating_alter] migrating_alter)
  then show ?thesis unfolding ensure_column_def by (intro mig.obeys_bind sql_reads)
qed

lemma migrating_migrate: "mig.obeys migrate"
  unfolding migrate_def by (intro mig.obeys_bind migrating_batch migrating_ensure) simp

section \<open>A migration that is not interrupted\<close>

lemma sql_runs: "cn_fail c = (\<lambda>_. False) \<Longrightarrow> sql f c = f (c\<lparr>cn_calls := cn_calls c + 1\<rparr>)"
  by (simp add: sql_def)

lemma covers_mono: "covers c wanted d \<Longrightarrow> migrating c c' \<Longrightarrow> covers c' wanted d"
  using rows_kept_columns [of c c'] by (cases d) (fastforce simp: migrating_def rows_kept_def)+

lemma covers_first:
  assumes "covers c first_columns d" "\<And>t n. (t, n) \<in> set added_columns \<Longrightarrow> n \<in> set (table_columns c t)"
  shows "covers c (\<lambda>_. map cl_name) d"
proof (cases d)
  case (CreateTable t cs)
  have "n \<in> set (table_columns c t)" if "n \<in> set (map cl_name cs)" for n
  proof (cases "(t, n) \<in> set added_columns")
    case False
    with that have "n \<in> set (first_columns t cs)" by (simp add: first_columns_def)
    with assms(1) CreateTable show ?thesis by auto
  qed (rule assms(2))
  with assms(1) CreateTable show ?thesis by auto
qed (use assms(1) in simp)

fun ready :: "ddl list \<Rightarrow> ddl list \<Rightarrow> bool" where
  "ready before [] \<longleftrightarrow> True"
| "ready before (CreateTable t cs # ds) \<longleftrightarrow> ready (CreateTable t cs # before) ds"
| "ready before (CreateIndex i t cs # ds) \<longleftrightarrow>
     list_ex (\<lambda>d. case d of CreateTable u cols \<Rightarrow> u = t \<and> set cs \<subseteq> set (first_columns t cols) | _ \<Rightarrow> False) before \<and>
     ready (CreateIndex i t cs # before) ds"

lemma migration_ready: "ready [] initial_migration"
  by (simp add: initial_migration_def first_columns_def added_columns_def constrained_def needed_def plain_def)

lemma ddl_runs:
  assumes "d \<in> set initial_migration" "upgradable c" "ready before (d # ds)"
    and "list_all (covers c first_columns) before"
  shows "\<exists>c'. run_ddl d c = (Inr (), c') \<and> covers c' first_columns d"
proof (cases d)
  case (CreateTable t cs)
  then show ?thesis
    using assms(1,2) by (fastforce simp: okE_def upgradable_def list_all_iff table_columns_def first_columns_def split: ddl.splits)
next
  case (CreateIndex i t cs)
  with assms(3) obtain cols where "CreateTable t cols \<in> set before" "set cs \<subseteq> set (first_columns t cols)"
    by (auto simp: list_ex_iff split: ddl.splits) (metis ddl.exhaust)
  with assms(4) have "set cs \<subseteq> set (table_columns c t)" by (fastforce simp: list_all_iff)
  with CreateIndex show ?thesis by (auto simp: okE_def list_all_iff)
qed

lemma batch_runs:
  assumes "cn_fail c = (\<lambda>_. False)" "upgradable c" "ready before ds" "set ds \<subseteq> set initial_migration"
    and "list_all (covers c first_columns) before"
  shows "\<exists>c'. execute_batch ds c = (Inr (), c') \<and> list_all (covers c' first_columns) (before @ ds)"
  using assms
proof (induction ds arbitrary: before c)
  case (Cons d ds)
  let ?c = "c\<lparr>cn_calls := cn_calls c + 1\<rparr>"
  have start: "migrating c ?c"
    by (rule same_schema) simp_all
  with Cons.prems(2,5) have "upgradable ?c" "list_all (covers ?c first_columns) before"
    using covers_mono [OF _ start] by (auto simp: migrating_def list_all_iff)
  with ddl_runs [of d ?c before ds] Cons.prems(3,4) obtain c1 where
    c1: "run_ddl d ?c = (Inr (), c1)" "covers c1 first_columns d" by auto
  have m: "migrating ?c c1" using migrating_ddl [of d ?c] Cons.prems(4) c1(1) by simp
  have "ready (d # before) ds" using Cons.prems(3) by (cases d) simp_all
  moreover have "cn_fail c1 = (\<lambda>_. False)" "upgradable c1"
    using m start Cons.prems(1,2) by (auto simp: migrating_def)
  moreover have "list_all (covers c1 first_columns) (d # before)"
    using c1(2) covers_mono [OF _ m] \<open>list_all (covers ?c first_columns) before\<close> by (auto simp: list_all_iff)
  ultimately obtain c2 where "execute_batch ds c1 = (Inr (), c2)" "list_all (covers c2 first_columns) ((d # before) @ ds)"
    using Cons.IH [of c1 "d # before"] Cons.prems(4) by auto
  then show ?case using c1(1) Cons.prems(1) by (auto simp: bindE_def sql_runs)
qed (simp add: okE_def)

lemma ensure_runs:
  assumes "cn_fail c = (\<lambda>_. False)" "cn_tables c t \<noteq> None" "cl_not_null col \<longrightarrow> cl_default col \<noteq> None"
  shows "\<exists>c'. ensure_column t col c = (Inr (), c') \<and> cl_name col \<in> set (table_columns c' t)"
  using assms
  by (auto simp: ensure_column_def bindE_def sql_runs okE_def alter_table_def table_columns_def)


lemma migrate_runs:
  assumes "cn_fail c = (\<lambda>_. False)" "upgradable c"
  shows "\<exists>c'. migrate c = (Inr (), c') \<and> up_to_date c'"
proof -
  obtain c1 where c1: "execute_batch initial_migration c = (Inr (), c1)"
      "list_all (covers c1 first_columns) initial_migration"
    using batch_runs [OF assms migration_ready] by auto
  have m1: "migrating c c1" using migrating_batch [of initial_migration] c1(1) by (auto intro: mig.obeysD)
  have tables: "cn_tables c1 ''enrollment_codes'' \<noteq> None" "cn_tables c1 ''devices'' \<noteq> None"
    using c1(2) by (simp_all add: initial_migration_def)
  have next_step: "\<exists>c2. ensure_column t col c = (Inr (), c2) \<and> migrating c c2 \<and> cl_name col \<in> set (table_columns c2 t)"
    if "cn_fail c = (\<lambda>_. False)" "cn_tables c t \<noteq> None" "cl_not_null col \<longrightarrow> cl_default col \<noteq> None" for c t col
    using ensure_runs [OF that] mig.obeysD [OF migrating_ensure] by blast
  have step: "cn_fail c' = (\<lambda>_. False)" "cn_tables c' t \<noteq> None" "n \<in> set (table_columns c u) \<Longrightarrow> n \<in> set (table_columns c' u)"
    if "migrating c c'" "cn_fail c = (\<lambda>_. False)" "cn_tables c t \<noteq> None" for c c' t n u
    using that rows_kept_columns [of c c' u] rows_kept_table [of c c' t] by (auto simp: migrating_def)
  have fail1: "cn_fail c1 = (\<lambda>_. False)" using m1 assms(1) by (simp add: migrating_def)
  obtain c2 where c2: "ensure_column ''enrollment_codes'' cancelled_at_column c1 = (Inr (), c2)" "migrating c1 c2"
      "''cancelled_at'' \<in> set (table_columns c2 ''enrollment_codes'')"
    using next_step [OF fail1 tables(1), of cancelled_at_column] by (auto simp: cancelled_at_column_def plain_def)
  note s2 = step [OF c2(2) fail1]
  obtain c3 where c3: "ensure_column ''enrollment_codes'' created_at_column c2 = (Inr (), c3)" "migrating c2 c3"
      "''created_at'' \<in> set (table_columns c3 ''enrollment_codes'')"
    using next_step [OF s2(1,2) [OF tables(1)], of created_at_column]
    by (auto simp: created_at_column_def defaulted_def needed_def plain_def)
  note s3 = step [OF c3(2) s2(1) [OF tables(1)] s2(2) [OF tables(2)]]
  obtain c4 where c4: "ensure_column ''devices'' access_column c3 = (Inr (), c4)" "migrating c3 c4"
      "''access'' \<in> set (table_columns c4 ''devices'')"
    using next_step [OF s3(1,2), of access_column] by (auto simp: access_column_def defaulted_def needed_def plain_def)
  have m4: "migrating c1 c4" using c2(2) c3(2) c4(2) by (blast intro: mig.R_trans)
  have "n \<in> set (table_columns c4 t)" if "(t, n) \<in> set added_columns" for t n
    using that c2(3) c3(3) c4(3) step(3) [OF c3(2) s2(1,2) [OF tables(1)]] step(3) [OF c4(2) s3(1,2)]
    by (auto simp: added_columns_def)
  moreover have "covers c4 first_columns d" if "d \<in> set initial_migration" for d
    using covers_mono [OF _ m4] c1(2) that by (simp add: list_all_iff)
  ultimately have "covers c4 (\<lambda>_. map cl_name) d" if "d \<in> set initial_migration" for d
    using covers_first [of c4 d] that by blast
  then have "up_to_date c4" by (simp add: up_to_date_def list_all_iff)
  with c1(1) c2(1) c3(1) c4(1) show ?thesis by (simp add: migrate_def bindE_def)
qed

section \<open>A store that is up to date\<close>

definition steady :: "connection \<Rightarrow> connection \<Rightarrow> bool" where
  "steady c c' \<longleftrightarrow> (up_to_date c \<longrightarrow> cn_tables c' = cn_tables c \<and> cn_indexes c' = cn_indexes c)"

lemma up_to_date_cong: "cn_tables c' = cn_tables c \<Longrightarrow> cn_indexes c' = cn_indexes c \<Longrightarrow> up_to_date c' = up_to_date c"
proof -
  assume "cn_tables c' = cn_tables c" "cn_indexes c' = cn_indexes c"
  then have "covers c' w d = covers c w d" for w d by (cases d) (simp_all add: table_columns_def)
  then show ?thesis by (simp add: up_to_date_def list_all_iff)
qed

interpretation std: step_relation steady
  by unfold_locales (auto simp: steady_def dest: up_to_date_cong)

lemma steady_sql:
  assumes "\<And>c. steady c (snd (f c))"
  shows "std.obeys (sql f)"
proof -
  have "steady c (c\<lparr>cn_calls := n\<rparr>)" for c n by (simp add: steady_def)
  with assms show ?thesis by (auto simp: std.obeys_def sql_def Let_def intro: std.R_trans)
qed

lemma steady_batch: "set ds \<subseteq> set initial_migration \<Longrightarrow> std.obeys (execute_batch ds)"
proof (induction ds)
  case (Cons d ds)
  have "steady c (snd (run_ddl d c))" for c
  proof (cases "up_to_date c")
    case True
    with Cons.prems have "covers c (\<lambda>_. map cl_name) d" by (simp add: up_to_date_def list_all_iff)
    then show ?thesis by (cases d) (simp_all add: okE_def std.R_refl)
  qed (simp add: steady_def)
  then have "std.obeys (sql (run_ddl d))" by (rule steady_sql)
  with Cons show ?case by (simp add: std.obeys_bind)
qed (simp add: std.obeys_ok)

lemma steady_ensure:
  assumes "CreateTable t cs \<in> set initial_migration" "cl_name col \<in> cl_name ` set cs"
  shows "std.obeys (ensure_column t col)"
proof -
  have "steady c (snd (ensure_column t col c))" for c
  proof (cases "up_to_date c")
    case True
    with assms have "set (map cl_name cs) \<subseteq> set (table_columns c t)"
      by (fastforce simp: up_to_date_def list_all_iff)
    with assms(2) have "cl_name col \<in> set (table_columns c t)" by auto
    then show ?thesis
      by (cases "cn_fail c (cn_calls c)") (simp_all add: ensure_column_def bindE_def sql_def okE_def steady_def)
  qed (simp add: steady_def)
  then show ?thesis by (simp add: std.obeys_def)
qed

lemma steady_migrate: "std.obeys migrate"
proof -
  have t: "CreateTable ''enrollment_codes'' cs \<in> set initial_migration \<Longrightarrow>
      ''cancelled_at'' \<in> cl_name ` set cs \<and> ''created_at'' \<in> cl_name ` set cs"
    "CreateTable ''devices'' cs \<in> set initial_migration \<Longrightarrow> ''access'' \<in> cl_name ` set cs" for cs
    by (auto simp: initial_migration_def cancelled_at_column_def created_at_column_def access_column_def defaulted_def
        needed_def plain_def)
  have "\<exists>cs. CreateTable ''enrollment_codes'' cs \<in> set initial_migration" "\<exists>cs. CreateTable ''devices'' cs \<in> set initial_migration"
    by (simp_all add: initial_migration_def)
  with t have "std.obeys (ensure_column ''enrollment_codes'' cancelled_at_column)"
    "std.obeys (ensure_column ''enrollment_codes'' created_at_column)" "std.obeys (ensure_column ''devices'' access_column)"
    by (auto intro!: steady_ensure simp: cancelled_at_column_def created_at_column_def access_column_def defaulted_def
        needed_def plain_def)
  then show ?thesis unfolding migrate_def by (intro std.obeys_bind steady_batch) simp_all
qed


section \<open>Properties\<close>

text \<open>C21: The migration converges. From a store of any release, or one that an earlier start left half-way, a run that
  fails anywhere loses no row and leaves a store that can be migrated again; a later run that is not interrupted
  brings every table, column and index; and on a store that is up to date a further run, interrupted or not,
  changes nothing.\<close>

theorem migration_converges:
  assumes "upgradable c" "migrate c = (r, c1)"
  shows "rows_kept c c1 \<and> upgradable c1 \<and>
    (\<exists>c2. migrate (c1\<lparr>cn_fail := \<lambda>_. False\<rparr>) = (Inr (), c2) \<and> up_to_date c2 \<and> rows_kept c c2 \<and>
       (\<forall>faults. cn_tables (snd (migrate (c2\<lparr>cn_fail := faults\<rparr>))) = cn_tables c2 \<and>
          cn_indexes (snd (migrate (c2\<lparr>cn_fail := faults\<rparr>))) = cn_indexes c2))"
proof -
  have m: "rows_kept c c1" "upgradable c1"
    using mig.obeysD [OF migrating_migrate assms(2)] assms(1) by (simp_all add: migrating_def)
  let ?c = "c1\<lparr>cn_fail := \<lambda>_. False\<rparr>"
  have same: "upgradable ?c" "up_to_date (c2\<lparr>cn_fail := f\<rparr>) = up_to_date c2" for c2 f
    using m(2) by (simp add: upgradable_def table_columns_def cong: ddl.case_cong, intro up_to_date_cong) simp_all
  have "\<exists>c2. migrate ?c = (Inr (), c2) \<and> up_to_date c2"
    by (rule migrate_runs [OF _ same(1)]) simp
  then obtain c2 where c2: "migrate ?c = (Inr (), c2)" "up_to_date c2" by blast
  have "rows_kept ?c c2" using mig.obeysD [OF migrating_migrate c2(1)] by (simp add: migrating_def)
  then have "rows_kept c1 c2" by (simp add: rows_kept_def)
  with m(1) have "rows_kept c c2" by (rule rows_kept_order(2))
  moreover {
    fix faults
  have "steady (c2\<lparr>cn_fail := faults\<rparr>) (snd (migrate (c2\<lparr>cn_fail := faults\<rparr>)))"
    using steady_migrate by (simp add: std.obeys_def)
  then have "cn_tables (snd (migrate (c2\<lparr>cn_fail := faults\<rparr>))) = cn_tables c2 \<and>
      cn_indexes (snd (migrate (c2\<lparr>cn_fail := faults\<rparr>))) = cn_indexes c2"
    using c2(2) same(2) by (simp add: steady_def)
  }
  ultimately show ?thesis using m c2 by blast
qed

text \<open>A store from before devices had an access policy, whose first migration fails half-way: the device it holds
  ends up public, as it was.\<close>

definition old_store :: connection where
  "old_store = \<lparr>cn_tables = [''devices'' \<mapsto> \<lparr>tb_columns =
       [plain ''id'' ''TEXT'', needed ''kind'' ''TEXT'', needed ''name'' ''TEXT'', plain ''owner_user_id'' ''TEXT'',
        needed ''secret_hash'' ''TEXT'', plain ''note'' ''TEXT'', needed ''created_at'' ''INTEGER'', plain ''revoked_at'' ''INTEGER'',
        plain ''last_seen_at'' ''INTEGER'', plain ''last_ip'' ''TEXT'', plain ''last_version'' ''TEXT''],
       tb_rows = [[Some ''desk'', Some ''desktop'', Some ''Study'', None, Some ''h'', None, Some ''0'', None, None, None, None]]\<rparr>],
     cn_indexes = [], cn_fail = (\<lambda>n. n = 4), cn_calls = 0\<rparr>"

lemma old_store_upgradable: "upgradable old_store"
  by (auto simp: upgradable_def initial_migration_def old_store_def first_columns_def added_columns_def table_columns_def
      constrained_def needed_def plain_def defaulted_def access_column_def)

theorem migration_converges_witness:
  "rows_kept old_store (snd (migrate old_store)) \<and> upgradable (snd (migrate old_store)) \<and>
    (\<exists>c2. migrate ((snd (migrate old_store))\<lparr>cn_fail := \<lambda>_. False\<rparr>) = (Inr (), c2) \<and> up_to_date c2 \<and> rows_kept old_store c2)"
  using migration_converges [OF old_store_upgradable prod.collapse [symmetric]] by blast

end
