(* ===== verification/Startup.thy ===== *)
theory Startup
  imports Schema Relay_Node
begin

text \<open>
  Starting the program: the data directory and its permissions (\<^verbatim>\<open>src/paths.rs\<close>), the certificate that is kept
  beside the store (\<^verbatim>\<open>src/tls.rs\<close>), opening the store (\<^verbatim>\<open>src/db/mod.rs\<close>), preparing the shared state
  (\<^verbatim>\<open>prepare\<close>, \<^verbatim>\<open>serve\<close> in \<^verbatim>\<open>src/server.rs\<close>), stopping, and the subcommands (\<^verbatim>\<open>src/main.rs\<close>). The file
  system is a map from paths to modes and contents in which any call may be refused and a write may stop half-way.
\<close>

section \<open>The file system\<close>

datatype fault = Refused | CutShort nat

record world =
  wd_entries :: "string \<Rightarrow> (u32 \<times> string) option"
  wd_dir_mode :: u32
  wd_file_mode :: u32
  wd_fault :: "nat \<Rightarrow> fault option"
  wd_calls :: nat
  wd_absolute :: "string \<Rightarrow> string option"

text \<open>\<open>wd_dir_mode\<close> and \<open>wd_file_mode\<close> are the modes that the umask leaves to what is created; \<open>wd_absolute\<close>
  resolves a path against the working directory.\<close>

definition system_call :: "world \<Rightarrow> fault option \<times> world" where
  "system_call w = (wd_fault w (wd_calls w), w\<lparr>wd_calls := wd_calls w + 1\<rparr>)"

definition put_entry :: "string \<Rightarrow> u32 \<times> string \<Rightarrow> world \<Rightarrow> world" where
  "put_entry path entry w = w\<lparr>wd_entries := (wd_entries w)(path \<mapsto> entry)\<rparr>"

definition create_dir_all :: "string \<Rightarrow> world \<Rightarrow> bool \<times> world" where
  "create_dir_all path w =
     (case system_call w of
        (Some _, w1) \<Rightarrow> (False, w1)
      | (None, w1) \<Rightarrow>
          (True, if wd_entries w1 path = None then put_entry path (wd_dir_mode w1, []) w1 else w1))"

definition read_path :: "string \<Rightarrow> world \<Rightarrow> string option \<times> world" where
  "read_path path w =
     (case system_call w of
        (Some _, w1) \<Rightarrow> (None, w1)
      | (None, w1) \<Rightarrow> (map_option snd (wd_entries w1 path), w1))"

text \<open>\<^verbatim>\<open>fs::write\<close> truncates the file before it writes, so a write that fails may leave a part.\<close>

definition mode_at :: "string \<Rightarrow> world \<Rightarrow> u32" where
  "mode_at path w = (case wd_entries w path of Some (m, _) \<Rightarrow> m | None \<Rightarrow> wd_file_mode w)"

definition write_path :: "string \<Rightarrow> string \<Rightarrow> world \<Rightarrow> bool \<times> world" where
  "write_path path contents w =
     (case system_call w of
        (Some Refused, w1) \<Rightarrow> (False, w1)
      | (Some (CutShort n), w1) \<Rightarrow> (False, put_entry path (mode_at path w1, take n contents) w1)
      | (None, w1) \<Rightarrow> (True, put_entry path (mode_at path w1, contents) w1))"

text \<open>\<^verbatim>\<open>restrict_to_owner\<close> on a path: its decision is \<open>restrict_to_owner\<close> of \<open>Address\<close>.\<close>

definition restrict_path :: "string \<Rightarrow> world \<Rightarrow> world" where
  "restrict_path path w =
     (let (f1, w1) = system_call w;
          metadata = (case (f1, wd_entries w1 path) of (None, Some (m, _)) \<Rightarrow> Inr m | _ \<Rightarrow> Inl ())
      in if fst (snd (restrict_to_owner metadata True))
         then
           (let (f2, w2) = system_call w1
            in case (fst (restrict_to_owner metadata (f2 = None)), wd_entries w2 path) of
                 (Some m, Some (_, contents)) \<Rightarrow> put_entry path (m, contents) w2
               | _ \<Rightarrow> w2)
         else w1)"

definition join_path :: "string \<Rightarrow> string \<Rightarrow> string" where
  "join_path dir name =
     (if dir = [] then name else if last dir = CHR ''/'' then dir @ name else dir @ ''/'' @ name)"

definition absolute :: "world \<Rightarrow> string \<Rightarrow> string" where
  "absolute w path = (case wd_absolute w path of Some a \<Rightarrow> a | None \<Rightarrow> path)"

datatype startup_error =
    CannotCreateDataDirectory
  | CannotOpenDatabase database_error
  | CannotSettleIdentity database_error
  | CannotCreateAdmin
  | CannotReadCertificate string
  | CannotCreateTlsDirectory
  | CannotSaveCertificate
  | CannotGenerateCertificate
  | CannotLoadCertificate
  | CannotListen
  | InvalidFingerprint
  | CannotLink string
  | CannotResetPassword

definition prepare_data_directory :: "string \<Rightarrow> world \<Rightarrow> (startup_error + string) \<times> world" where
  "prepare_data_directory path w =
     (case create_dir_all path w of
        (False, w1) \<Rightarrow> (Inl CannotCreateDataDirectory, w1)
      | (True, w1) \<Rightarrow> (Inr (absolute w1 path), restrict_path path w1))"

section \<open>The certificate\<close>

text \<open>Generating a certificate, loading a pair, base64 and SHA-256 belong to other crates.\<close>

record 'c tls_ops =
  tl_generate :: "nat \<Rightarrow> string list \<Rightarrow> (string \<times> string) option"
  tl_load :: "string \<Rightarrow> string \<Rightarrow> 'c option"
  tl_utf8 :: "string \<Rightarrow> bool"
  tl_base64 :: "string \<Rightarrow> string option"
  tl_sha256 :: "string \<Rightarrow> string"
  tl_hexupper :: "string \<Rightarrow> string"

record pem_material =
  pm_certificate :: string
  pm_private_key :: string

record material_paths =
  mp_certificate :: string
  mp_private_key :: string

definition material_paths_new :: "string \<Rightarrow> material_paths" where
  "material_paths_new directory =
     \<lparr>mp_certificate = join_path directory ''cert.pem'', mp_private_key = join_path directory ''key.pem''\<rparr>"

definition read_material :: "material_paths \<Rightarrow> world \<Rightarrow> pem_material option \<times> world" where
  "read_material files w =
     (case read_path (mp_certificate files) w of
        (None, w1) \<Rightarrow> (None, w1)
      | (Some certificate, w1) \<Rightarrow>
          (case read_path (mp_private_key files) w1 of
             (None, w2) \<Rightarrow> (None, w2)
           | (Some key, w2) \<Rightarrow> (Some \<lparr>pm_certificate = certificate, pm_private_key = key\<rparr>, w2)))"

definition write_material :: "material_paths \<Rightarrow> pem_material \<Rightarrow> world \<Rightarrow> (startup_error + unit) \<times> world" where
  "write_material files m w =
     (case write_path (mp_certificate files) (pm_certificate m) w of
        (False, w1) \<Rightarrow> (Inl CannotSaveCertificate, w1)
      | (True, w1) \<Rightarrow>
          (case write_path (mp_private_key files) (pm_private_key m) w1 of
             (False, w2) \<Rightarrow> (Inl CannotSaveCertificate, w2)
           | (True, w2) \<Rightarrow> (Inr (), w2)))"

definition generate_material :: "'c tls_ops \<Rightarrow> subject_names \<Rightarrow> world \<Rightarrow> (startup_error + pem_material) \<times> world" where
  "generate_material ct names w =
     (case tl_generate ct (wd_calls w) (subject_alt_names names) of
        None \<Rightarrow> (Inl CannotGenerateCertificate, w)
      | Some (certificate, key) \<Rightarrow> (Inr \<lparr>pm_certificate = certificate, pm_private_key = key\<rparr>, w))"

definition load_or_generate ::
  "'c tls_ops \<Rightarrow> string \<Rightarrow> subject_names \<Rightarrow> world \<Rightarrow> (startup_error + pem_material) \<times> world" where
  "load_or_generate ct data_directory names w =
     (let directory = join_path data_directory ''tls''
      in case create_dir_all directory w of
           (False, w1) \<Rightarrow> (Inl CannotCreateTlsDirectory, w1)
         | (True, w1) \<Rightarrow>
             (let files = material_paths_new directory;
                  settle = (\<lambda>m w. (Inr m, restrict_path (mp_private_key files) w))
              in case read_material files (restrict_path directory w1) of
                   (Some m, w2) \<Rightarrow> settle m w2
                 | (None, w2) \<Rightarrow>
                     bindE (generate_material ct names) (\<lambda>m.
                     bindE (write_material files m) (\<lambda>_. settle m)) w2))"

definition load_certificate :: "'c tls_ops \<Rightarrow> pem_material \<Rightarrow> startup_error + 'c" where
  "load_certificate ct m =
     (case tl_load ct (pm_certificate m) (pm_private_key m) of
        None \<Rightarrow> Inl CannotLoadCertificate
      | Some c \<Rightarrow> Inr c)"

fun find_text :: "string \<Rightarrow> string \<Rightarrow> nat option" where
  "find_text sought [] = (if sought = [] then Some 0 else None)"
| "find_text sought (c # s) =
     (if prefix sought (c # s) then Some 0 else map_option Suc (find_text sought s))"

text \<open>\<^verbatim>\<open>split_whitespace().collect()\<close>\<close>

fun without_whitespace :: "string \<Rightarrow> string" where
  "without_whitespace [] = []"
| "without_whitespace (c # s) =
     (case find (\<lambda>w. prefix w (c # s)) whitespace of
        Some w \<Rightarrow> without_whitespace (drop (length w - 1) s)
      | None \<Rightarrow> c # without_whitespace s)"

definition pem_header :: string where
  "pem_header = ''-----BEGIN CERTIFICATE-----''"

definition pem_footer :: string where
  "pem_footer = ''-----END CERTIFICATE-----''"

text \<open>The bytes of the first certificate, and how a browser and the log show their digest.\<close>

definition certificate_der :: "'c tls_ops \<Rightarrow> string \<Rightarrow> string option" where
  "certificate_der ct pem =
     (if \<not> tl_utf8 ct pem then None
      else Option.bind (find_text pem_header pem) (\<lambda>found.
        let start = found + length pem_header
        in Option.bind (find_text pem_footer pem) (\<lambda>end_at.
             if end_at < start then None
             else tl_base64 ct (without_whitespace (drop start (take end_at pem))))))"

definition certificate_fingerprint :: "'c tls_ops \<Rightarrow> string \<Rightarrow> string option" where
  "certificate_fingerprint ct pem =
     map_option (\<lambda>der. join '':'' (chunks 2 (tl_hexupper ct (tl_sha256 ct der)))) (certificate_der ct pem)"

text \<open>The fingerprint is logged; the result is the configuration of the listener.\<close>

definition configure ::
  "'c tls_ops \<Rightarrow> tls_mode \<Rightarrow> string \<Rightarrow> subject_names \<Rightarrow> world \<Rightarrow> (startup_error + 'c option) \<times> world" where
  "configure ct mode data_directory names w =
     (case mode of
        Disabled \<Rightarrow> (Inr None, w)
      | Certificate chain key \<Rightarrow>
          (case read_path chain w of
             (None, w1) \<Rightarrow> (Inl (CannotReadCertificate chain), w1)
           | (Some certificate, w1) \<Rightarrow>
               (case read_path key w1 of
                  (None, w2) \<Rightarrow> (Inl (CannotReadCertificate key), w2)
                | (Some private, w2) \<Rightarrow>
                    (map_sum id Some (load_certificate ct \<lparr>pm_certificate = certificate, pm_private_key = private\<rparr>), w2)))
      | SelfSigned \<Rightarrow>
          (case load_or_generate ct data_directory names w of
             (Inl e, w1) \<Rightarrow> (Inl e, w1)
           | (Inr m, w1) \<Rightarrow> (map_sum id Some (load_certificate ct m), w1)))"


section \<open>Opening the store\<close>

text \<open>What a start finds and leaves behind: the file system, the schema of the store and its rows.\<close>

record boot =
  bt_world :: world
  bt_schema :: connection
  bt_db :: database

definition database_file :: string where
  "database_file = ''relay.db''"

definition open_database :: "string \<Rightarrow> boot \<Rightarrow> (database_error + unit) \<times> boot" where
  "open_database data_directory b =
     (let file = join_path data_directory database_file
      in case system_call (bt_world b) of
           (Some _, w1) \<Rightarrow> (Inl (Sqlite OtherFailure), b\<lparr>bt_world := w1\<rparr>)
         | (None, w1) \<Rightarrow>
             (let w2 = (if wd_entries w1 file = None then put_entry file (wd_file_mode w1, []) w1 else w1);
                  (r, c) = bindE (sql (okE ())) (\<lambda>_. migrate) (bt_schema b)
              in (r, b\<lparr>bt_world := restrict_path file w2, bt_schema := c\<rparr>)))"

section \<open>Preparing the relay\<close>

record 'a serve_args =
  sa_data_dir :: string
  sa_listen :: 'a
  sa_public_url :: "public_url option"
  sa_tls :: tls_mode
  sa_subdomain_base :: "string option"

text \<open>The environment of a start: what a socket address offers, the random sources, argon2, a fresh throttle.\<close>

record ('a, 'l) host_ops =
  hs_unspecified :: "'a \<Rightarrow> bool"
  hs_port :: "'a \<Rightarrow> nat"
  hs_text :: "'a \<Rightarrow> string"
  hs_device_id :: "nat \<Rightarrow> string + string"
  hs_fill :: "nat \<Rightarrow> string + 8 word list"
  hs_hash_password :: "string \<Rightarrow> string + string"
  hs_lockout :: 'l

definition generate_relay_id :: "(nat \<Rightarrow> string + string) \<Rightarrow> database \<Rightarrow> (database_error + string) \<times> database" where
  "generate_relay_id device_id db =
     (case device_id (d_draws db) of Inl e \<Rightarrow> Inl (RandomError e) | Inr i \<Rightarrow> Inr i, db\<lparr>d_draws := d_draws db + 1\<rparr>)"

text \<open>A failure that is only logged.\<close>

definition tried :: "('s \<Rightarrow> ('e + 'a) \<times> 's) \<Rightarrow> 's \<Rightarrow> ('f + unit) \<times> 's" where
  "tried m s = (Inr (), snd (m s))"

definition settle_store ::
  "'l externals \<Rightarrow> ('a, 'l) host_ops \<Rightarrow> public_url \<Rightarrow> database \<Rightarrow> (startup_error + string) \<times> database" where
  "settle_store x hs url =
     bindE (tried (with_now delete_expired_sessions)) (\<lambda>_.
     bindE (map_err CannotSettleIdentity
       (read_or_initialize_setting setting_relay_id (generate_relay_id (hs_device_id hs)))) (\<lambda>relay_id.
     bindE (tried (write_setting setting_public_url (pu_origin url))) (\<lambda>_.
     bindE (map_err (\<lambda>_. CannotCreateAdmin) (ensure_admin_exists x (hs_fill hs) (hs_hash_password hs))) (\<lambda>_.
       okE relay_id))))"

definition new_relay :: "('a, 'l) host_ops \<Rightarrow> 'a serve_args \<Rightarrow> public_url \<Rightarrow> string \<Rightarrow> database \<Rightarrow> 'l relay" where
  "new_relay hs args url relay_id db =
     \<lparr>rl_db = db, rl_registry = new_registry relay_id, rl_reach = no_reach, rl_lockout = hs_lockout hs,
      rl_relay_id = relay_id, rl_addressing = \<lparr>da_public_url = url, da_subdomain_base = sa_subdomain_base args\<rparr>,
      rl_tls_enabled = tls_is_secure (sa_tls args), rl_outbox = []\<rparr>"

definition args_url :: "('a, 'l) host_ops \<Rightarrow> 'a serve_args \<Rightarrow> public_url" where
  "args_url hs args =
     resolved_public_url (hs_unspecified hs) (hs_port hs) (hs_text hs) (sa_public_url args) (sa_listen args) (sa_tls args)"

text \<open>\<^verbatim>\<open>prepare\<close>; the store of the node it returns is the one left on disk.\<close>

definition prepare ::
  "'l externals \<Rightarrow> ('h, 'v) link_ops \<Rightarrow> ('a, 'l) host_ops \<Rightarrow> 'a serve_args \<Rightarrow> boot \<Rightarrow> (startup_error + 'l node) \<times> boot" where
  "prepare x lo hs args b =
     (case prepare_data_directory (sa_data_dir args) (bt_world b) of
        (Inl e, w) \<Rightarrow> (Inl e, b\<lparr>bt_world := w\<rparr>)
      | (Inr data_dir, w) \<Rightarrow>
          (case open_database data_dir (b\<lparr>bt_world := w\<rparr>) of
             (Inl e, b1) \<Rightarrow> (Inl (CannotOpenDatabase e), b1)
           | (Inr _, b1) \<Rightarrow>
               (case settle_store x hs (args_url hs args) (bt_db b1) of
                  (Inl e, db) \<Rightarrow> (Inl e, b1\<lparr>bt_db := db\<rparr>)
                | (Inr relay_id, db) \<Rightarrow>
                    (let n = resume lo \<lparr>nd_relay = new_relay hs args (args_url hs args) relay_id db, nd_status = None\<rparr>
                     in (Inr n, b1\<lparr>bt_db := rl_db (nd_relay n)\<rparr>)))))"

section \<open>The commands\<close>

text \<open>\<open>bind_socket\<close> is the operating system's answer to binding the address. A successful \<open>serve\<close> is a relay that
  listens, with its TLS configuration.\<close>

definition serve_command ::
  "'l externals \<Rightarrow> ('h, 'v) link_ops \<Rightarrow> ('a, 'l) host_ops \<Rightarrow> 'c tls_ops \<Rightarrow> ('a \<Rightarrow> 'k option) \<Rightarrow> 'a serve_args \<Rightarrow> boot
     \<Rightarrow> (startup_error + 'l node \<times> 'c option \<times> 'k) \<times> boot" where
  "serve_command x lo hs ct bind_socket args b =
     (case prepare x lo hs args b of
        (Inl e, b1) \<Rightarrow> (Inl e, b1)
      | (Inr n, b1) \<Rightarrow>
          (case configure ct (sa_tls args) (absolute (bt_world b1) (sa_data_dir args))
                  \<lparr>sn_public_host = host_name (da_public_url (rl_addressing (nd_relay n))),
                   sn_wildcard = addressing_wildcard_name (rl_addressing (nd_relay n))\<rparr> (bt_world b1) of
             (Inl e, w) \<Rightarrow> (Inl e, b1\<lparr>bt_world := w\<rparr>)
           | (Inr config, w) \<Rightarrow>
               (case bind_socket (sa_listen args) of
                  None \<Rightarrow> (Inl CannotListen, b1\<lparr>bt_world := w\<rparr>)
                | Some listener \<Rightarrow> (Inr (n, config, listener), b1\<lparr>bt_world := w\<rparr>))))"

record link_args =
  la_data_dir :: string
  la_upstream :: string
  la_code :: string
  la_name :: "string option"
  la_fingerprint :: "string option"

definition link_subcommand ::
  "'l externals \<Rightarrow> ('h, 'v) link_ops \<Rightarrow> link_args \<Rightarrow> boot \<Rightarrow> (startup_error + upstream_settings) \<times> boot" where
  "link_subcommand x lo args b =
     (case prepare_data_directory (la_data_dir args) (bt_world b) of
        (Inl e, w) \<Rightarrow> (Inl e, b\<lparr>bt_world := w\<rparr>)
      | (Inr data_dir, w) \<Rightarrow>
          (case open_database data_dir (b\<lparr>bt_world := w\<rparr>) of
             (Inl e, b1) \<Rightarrow> (Inl (CannotOpenDatabase e), b1)
           | (Inr _, b1) \<Rightarrow>
               (case link_command x lo (la_upstream args) (la_code args) (la_name args) (la_fingerprint args) (bt_db b1) of
                  (Inl e, db) \<Rightarrow> (Inl (CannotLink e), b1\<lparr>bt_db := db\<rparr>)
                | (Inr settings, db) \<Rightarrow> (Inr settings, b1\<lparr>bt_db := db\<rparr>))))"

record reset_password_args =
  ra_data_dir :: string
  ra_username :: string

definition reset_subcommand ::
  "'l externals \<Rightarrow> ('a, 'l) host_ops \<Rightarrow> reset_password_args \<Rightarrow> boot \<Rightarrow> (startup_error + string \<times> string) \<times> boot" where
  "reset_subcommand x hs args b =
     (case open_database (ra_data_dir args) b of
        (Inl e, b1) \<Rightarrow> (Inl (CannotOpenDatabase e), b1)
      | (Inr _, b1) \<Rightarrow>
          (case reset_password x (hs_fill hs) (hs_hash_password hs) (ra_username args) (bt_db b1) of
             (Inl _, db) \<Rightarrow> (Inl CannotResetPassword, b1\<lparr>bt_db := db\<rparr>)
           | (Inr shown, db) \<Rightarrow> (Inr shown, b1\<lparr>bt_db := db\<rparr>)))"

datatype 'a command = ServeCommand "'a serve_args" | LinkCommand link_args | ResetPassword reset_password_args

text \<open>\<^verbatim>\<open>main\<close> up to the end of the start: the exit status of a command that has ended, none for a relay that serves.\<close>

definition outcome_status :: "'e + 'a \<Rightarrow> nat" where
  "outcome_status r = (case r of Inl _ \<Rightarrow> 1 | Inr _ \<Rightarrow> 0)"

definition run_command ::
  "'l externals \<Rightarrow> ('h, 'v) link_ops \<Rightarrow> ('a, 'l) host_ops \<Rightarrow> 'c tls_ops \<Rightarrow> ('a \<Rightarrow> 'k option) \<Rightarrow> 'a command \<Rightarrow> boot
     \<Rightarrow> (nat + 'l node \<times> 'c option \<times> 'k) \<times> boot" where
  "run_command x lo hs ct bind_socket command b =
     (case command of
        ServeCommand args \<Rightarrow>
          (case serve_command x lo hs ct bind_socket args b of
             (Inl e, b1) \<Rightarrow> (Inl 1, b1)
           | (Inr serving, b1) \<Rightarrow> (Inr serving, b1))
      | LinkCommand args \<Rightarrow> apfst (Inl \<circ> outcome_status) (link_subcommand x lo args b)
      | ResetPassword args \<Rightarrow> apfst (Inl \<circ> outcome_status) (reset_subcommand x hs args b))"

section \<open>Stopping\<close>

datatype signal = Terminate | Interrupt

text \<open>Whether the two handlers could be registered, and the signal that came first.\<close>

definition wait_for_stop_request :: "bool \<Rightarrow> bool \<Rightarrow> signal \<Rightarrow> string option" where
  "wait_for_stop_request terminate_ok interrupt_ok first =
     (if \<not> terminate_ok then None
      else if \<not> interrupt_ok then None
      else Some (case first of Terminate \<Rightarrow> ''SIGTERM'' | Interrupt \<Rightarrow> ''SIGINT''))"

definition shutdown_grace_seconds :: nat where
  "shutdown_grace_seconds = 5"

text \<open>The grace period the listener is given, if it is told to stop, and the node afterwards.\<close>

definition shut_down_on :: "string option \<Rightarrow> 'l node \<Rightarrow> nat option \<times> 'l node" where
  "shut_down_on stop n =
     (case stop of None \<Rightarrow> (None, n) | Some _ \<Rightarrow> (Some shutdown_grace_seconds, link_stop n))"

end
