(* ===== verification/Startup_Laws.thy ===== *)
theory Startup_Laws
  imports Startup Relay_Node_Laws
begin

text \<open>
  What a start promises: the state it prepares is one that the step relation of \<open>Relay_Node\<close> starts from, the
  relay keeps its identity over every run and restart, and the certificate that desktops have pinned is the one a
  later start serves. Two lemmas on the certificate show what a write or a read that fails does to that promise.
\<close>

section \<open>The identity\<close>

interpretation inv_store: store_relation keeps_inv
  by unfold_locales (rule exec_db_inv)

interpretation ident_store: store_relation identity_kept
  by unfold_locales (rule exec_db_ident)

lemma initialized:
  assumes "read_or_initialize_setting k f db = (Inr v, db')"
  shows "map_option fst (map_of (d_settings db') k) = Some v"
    "map_option fst (map_of (d_settings db) k) = Some stored \<Longrightarrow> v = stored"
  using assms
  by (auto simp: read_or_initialize_setting_def bindE_def read_setting_def query_def statement_def write_setting_def with_now_def
      now_millis_def Let_def okE_def update_conv split: sum.splits prod.splits if_splits option.splits)

lemma inv_initialize: "inv.obeys (read_or_initialize_setting k (generate_relay_id g))"
proof -
  have "inv.obeys (generate_relay_id g)"
    using inv.R_env(3) by (simp add: inv.obeys_def generate_relay_id_def)
  then show ?thesis unfolding read_or_initialize_setting_def
    by (intro inv.obeys_control inv.obeys_db_intros inv_settings)
qed

context store_relation
begin

lemma obeys_tried: "obeys m \<Longrightarrow> obeys (tried m)"
  by (simp add: obeys_def tried_def)

lemma obeys_expired: "obeys (with_now delete_expired_sessions)"
  by (intro obeys_with_now) (use R_exec [of "OpDeleteExpired now" for now] in \<open>simp add: obeys_def\<close>)

lemma obeys_admin: "obeys (ensure_admin_exists x fill hash)"
proof -
  have "obeys (\<lambda>db. (Inr (Some password), audit_write x e db))" for password and e
    by (simp add: obeys_def R_audit)
  then show ?thesis
    unfolding ensure_admin_exists_def by (intro obeys_control obeys_db_intros obeys_methods)
qed

end

lemma settled:
  assumes "settle_store x hs url db = (Inr relay_id, db')"
  shows "db_inv db \<Longrightarrow> db_inv db'" "stored_id db' = Some relay_id" "stored_id db = Some r \<Longrightarrow> relay_id = r"
proof -
  have "inv.obeys (settle_store x hs url)"
    unfolding settle_store_def
    by (intro inv.obeys_db_intros inv_store.obeys_tried inv_store.obeys_expired inv_store.obeys_admin inv_initialize inv_settings)
  with assms show "db_inv db \<Longrightarrow> db_inv db'" using inv.obeysD [of "settle_store x hs url" db] by (simp add: keeps_inv_def)
  obtain db1 where 1: "tried (with_now delete_expired_sessions) db = (Inr () :: startup_error + unit, db1)"
    by (simp add: tried_def)
  obtain db2 where 2: "read_or_initialize_setting setting_relay_id (generate_relay_id (hs_device_id hs)) db1 = (Inr relay_id, db2)"
      "bindE (tried (write_setting setting_public_url (pu_origin url))) (\<lambda>_.
         bindE (map_err (\<lambda>_. CannotCreateAdmin) (ensure_admin_exists x (hs_fill hs) (hs_hash_password hs))) (\<lambda>_. okE relay_id)) db2
       = (Inr relay_id, db')"
    using assms 1
    by (auto simp: settle_store_def bindE_def map_err_def okE_def split: prod.splits sum.splits)
  have "ident.obeys (bindE (tried (write_setting setting_public_url (pu_origin url))) (\<lambda>_.
         bindE (map_err (\<lambda>_. CannotCreateAdmin) (ensure_admin_exists x (hs_fill hs) (hs_hash_password hs))) (\<lambda>_. okE relay_id)))"
    by (intro ident.obeys_db_intros ident_store.obeys_tried ident_store.obeys_admin ident_settings) simp
  then have late: "identity_kept db2 db'" using 2(2) by (rule ident.obeysD)
  have "ident.obeys (tried (with_now delete_expired_sessions) :: database \<Rightarrow> (startup_error + unit) \<times> database)"
    by (intro ident_store.obeys_tried ident_store.obeys_expired)
  then have early: "identity_kept db db1" using 1 by (rule ident.obeysD)
  show "stored_id db' = Some relay_id"
    using initialized(1) [OF 2(1)] late by (simp add: identity_kept_def stored_id_def)
  assume "stored_id db = Some r"
  with early have "map_option fst (map_of (d_settings db1) setting_relay_id) = Some r"
    by (simp only: identity_kept_def stored_id_def)
  then show "relay_id = r" by (rule initialized(2) [OF 2(1)])
qed


section \<open>A prepared relay\<close>

definition opening_site :: "'l relay \<Rightarrow> 'l site" where
  "opening_site s = \<lparr>si_system = \<lparr>sy_relay = s, sy_tasks = [], sy_next = 0\<rparr>, si_status = None, si_link = Unlinked, si_feed = [], si_unsent = []\<rparr>"

lemma opening_site_node [simp]: "node_of (opening_site s) = \<lparr>nd_relay = s, nd_status = None\<rparr>"
  by (simp add: opening_site_def node_of_def)

lemma kept_load_inv: "load_settings lo db = (r, db') \<Longrightarrow> db_inv db \<Longrightarrow> db_inv db' \<and> stored_id db' = stored_id db"
  using kept.obeysD [OF kept_load] by (fastforce simp: store_kept_def keeps_inv_def identity_kept_def)

lemma prepare_steps:
  assumes "prepare x lo hs args b = (Inr n, b')"
  obtains db relay_id where "settle_store x hs (args_url hs args) (bt_db b) = (Inr relay_id, db)"
    and "n = resume lo \<lparr>nd_relay = new_relay hs args (args_url hs args) relay_id db, nd_status = None\<rparr>"
    and "bt_db b' = rl_db (nd_relay n)"
proof -
  obtain dir w where d: "prepare_data_directory (sa_data_dir args) (bt_world b) = (Inr dir, w)"
    using assms by (auto simp: prepare_def split: prod.splits sum.splits)
  obtain b1 where "open_database dir (b\<lparr>bt_world := w\<rparr>) = (Inr (), b1)"
    using assms d by (auto simp: prepare_def split: prod.splits sum.splits)
  moreover from this have "bt_db b1 = bt_db b"
    by (auto simp: open_database_def Let_def split: prod.splits option.splits)
  ultimately show thesis
    using assms d that by (auto simp: prepare_def Let_def split: prod.splits sum.splits)
qed

lemma prepared_identity:
  assumes "prepare x lo hs args b = (Inr n, b')" "db_inv (bt_db b)"
  shows "stored_id (rl_db (nd_relay n)) = Some (rl_relay_id (nd_relay n))"
proof -
  from assms(1) obtain db relay_id where s: "settle_store x hs (args_url hs args) (bt_db b) = (Inr relay_id, db)"
      "n = resume lo \<lparr>nd_relay = new_relay hs args (args_url hs args) relay_id db, nd_status = None\<rparr>"
    by (rule prepare_steps)
  have db: "db_inv db" "stored_id db = Some relay_id" using settled(1,2) [OF s(1)] assms(2) by simp_all
  obtain r db1 where l: "load_settings lo db = (r, db1)" by fastforce
  with kept_load_inv [OF l db(1)] db(2) show ?thesis
    unfolding s(2) by (auto simp: resume_def on_relay_def lift_db_def link_start_def set_connecting_def new_relay_def
      split: sum.split option.split)
qed

text \<open>C3: A start that succeeds, on a store whose invariant holds, is a run of the step relation: it begins where the relay
  may begin, resumes the stored upstream if there is one, and ends in the node the program goes on to serve; the store
  it leaves keeps its invariant and holds the identity the relay answers with.\<close>

theorem prepared_relay_runs:
  assumes "prepare x lo hs args b = (Inr n, b')" "db_inv (bt_db b)"
  shows "\<exists>z0 z. site_started z0 \<and> site_run x p lo assets z0 z \<and> node_of z = n \<and>
    (case si_link z of Unlinked \<Rightarrow> nd_status n = None | Dialling settings \<Rightarrow> nd_status n \<noteq> None | _ \<Rightarrow> False) \<and>
    db_inv (bt_db b') \<and> stored_id (bt_db b') = Some (rl_relay_id (nd_relay n))"
proof -
  from assms(1) obtain db relay_id where s: "settle_store x hs (args_url hs args) (bt_db b) = (Inr relay_id, db)"
      "n = resume lo \<lparr>nd_relay = new_relay hs args (args_url hs args) relay_id db, nd_status = None\<rparr>"
      "bt_db b' = rl_db (nd_relay n)"
    by (rule prepare_steps)
  have db: "db_inv db" "stored_id db = Some relay_id" using settled(1,2) [OF s(1)] assms(2) by simp_all
  obtain r db1 where l: "load_settings lo db = (r, db1)" by fastforce
  have db1: "db_inv db1" "stored_id db1 = Some relay_id" using kept_load_inv [OF l db(1)] db(2) by simp_all
  let ?s = "\<lambda>db. new_relay hs args (args_url hs args) relay_id db"
  have start: "site_started (opening_site (?s db))" if "db_inv db" for db
    using that by (simp add: site_started_def opening_site_def started_def new_relay_def)
  show ?thesis
  proof (cases "\<exists>settings. r = Inr (Some settings)")
    case True
    then obtain settings where r: "r = Inr (Some settings)" by blast
    let ?z = "put_node n (Dialling settings) (opening_site (?s db))"
    have "site_step x p lo assets (opening_site (?s db)) ?z"
      using site_step.Resumed [of "opening_site (?s db)" lo settings x p assets] l r s(2)
      by (simp add: opening_site_def node_of_def new_relay_def)
    moreover have "nd_status n \<noteq> None" "rl_db (nd_relay n) = db1" "rl_relay_id (nd_relay n) = relay_id"
      using l r s(2) by (simp_all add: resume_def on_relay_def lift_db_def link_start_def set_connecting_def new_relay_def)
    ultimately show ?thesis
      using start [OF db(1)] db1 s(3)
      by (intro exI [of _ "opening_site (?s db)"] exI [of _ ?z])
        (auto simp: put_node_def node_of_def intro: site_more [OF site_start])
  next
    case False
    then have "n = \<lparr>nd_relay = ?s db1, nd_status = None\<rparr>"
      using l s(2) by (auto simp: resume_def on_relay_def lift_db_def new_relay_def split: sum.splits option.splits)
    then show ?thesis
      using start [OF db1(1)] db1 s(3)
      by (intro exI [of _ "opening_site (?s db1)"]) (auto simp: opening_site_def node_of_def new_relay_def intro: site_start)
  qed
qed

lemma site_step_identity:
  assumes "site_step x p lo assets z z'"
  shows "identity_kept (rl_db (nd_relay (node_of z))) (rl_db (nd_relay (node_of z'))) \<and>
    rl_relay_id (nd_relay (node_of z')) = rl_relay_id (nd_relay (node_of z))"
  using site_step_shape [OF assms]
proof (elim disjE exE conjE)
  assume s: "system_step x p assets (si_system z) (si_system z')"
  from system_step_store [OF s] system_step_reach [OF s] show ?thesis by (simp add: node_of_def store_kept_def)
qed (simp add: node_of_def link_effect_def store_kept_def)

lemma site_run_identity:
  "site_run x p lo assets z z' \<Longrightarrow> stored_id (rl_db (nd_relay (node_of z'))) = stored_id (rl_db (nd_relay (node_of z)))"
proof (induction rule: site_run.induct)
  case (site_more z z1 z2)
  with site_step_identity [OF site_more(2)] show ?case by (simp add: identity_kept_def)
qed simp

text \<open>C28: The identity survives: whatever the relay does after a start, and with whatever options it is started again on the
  store it left, it answers with the same relay id.\<close>

theorem identity_survives_restart:
  assumes "prepare x lo hs args b = (Inr n, b1)" "db_inv (bt_db b)"
    and "node_of z = n" "site_run x p lo assets z z2"
    and "stored_id (bt_db b2) = stored_id (rl_db (nd_relay (node_of z2)))"
    and "prepare x' lo' hs' args' b2 = (Inr n2, b3)"
  shows "rl_relay_id (nd_relay n2) = rl_relay_id (nd_relay n)"
proof -
  have "stored_id (rl_db (nd_relay n)) = Some (rl_relay_id (nd_relay n))"
    by (rule prepared_identity [OF assms(1,2)])
  then have "stored_id (bt_db b2) = Some (rl_relay_id (nd_relay n))"
    using site_run_identity [OF assms(4)] assms(3,5) by simp
  moreover obtain db relay_id where s: "settle_store x' hs' (args_url hs' args') (bt_db b2) = (Inr relay_id, db)"
      "n2 = resume lo' \<lparr>nd_relay = new_relay hs' args' (args_url hs' args') relay_id db, nd_status = None\<rparr>"
    using assms(6) by (rule prepare_steps)
  moreover have "rl_relay_id (nd_relay n2) = relay_id"
    unfolding s(2) by (auto simp: resume_def on_relay_def lift_db_def link_start_def set_connecting_def new_relay_def
      split: prod.split sum.split option.split)
  ultimately show ?thesis using settled(3) [OF s(1)] by simp
qed


section \<open>The certificate\<close>

definition contents :: "world \<Rightarrow> string \<Rightarrow> string option" where
  "contents w path = map_option snd (wd_entries w path)"

definition owner_only :: "world \<Rightarrow> string \<Rightarrow> bool" where
  "owner_only w path \<longleftrightarrow> (\<exists>mode c. wd_entries w path = Some (mode, c) \<and> mode AND permission_bits AND NOT owner_bits = 0)"

lemma contents_call [simp]: "contents (w\<lparr>wd_calls := n\<rparr>) path = contents w path"
  by (simp add: contents_def)


lemma contents_restrict [simp]: "contents (restrict_path path w) q = contents w q"
  by (auto simp: restrict_path_def system_call_def Let_def contents_def put_entry_def split: option.splits prod.splits)

lemma fault_restrict [simp]: "wd_fault (restrict_path path w) = wd_fault w"
  by (auto simp: restrict_path_def system_call_def Let_def put_entry_def split: option.splits prod.splits)

lemma read_path_quiet: "wd_fault w = (\<lambda>_. None) \<Longrightarrow> read_path path w = (contents w path, w\<lparr>wd_calls := wd_calls w + 1\<rparr>)"
  by (simp add: read_path_def system_call_def contents_def)


lemma create_dir_contents: "create_dir_all path w = (ok, w1) \<Longrightarrow> contents w q = Some c \<Longrightarrow> contents w1 q = Some c"
  by (auto simp: create_dir_all_def system_call_def contents_def put_entry_def split: option.splits if_splits)

lemma create_dir_quiet:
  "wd_fault w = (\<lambda>_. None) \<Longrightarrow> \<exists>w1. create_dir_all path w = (True, w1) \<and> wd_fault w1 = (\<lambda>_. None)"
  by (simp add: create_dir_all_def system_call_def put_entry_def)


lemma material_paths_differ: "mp_certificate (material_paths_new d) \<noteq> mp_private_key (material_paths_new d)"
  by (simp add: material_paths_new_def join_path_def)

lemma restrict_quiet:
  assumes "wd_fault w = (\<lambda>_. None)" "contents w path = Some c"
  shows "owner_only (restrict_path path w) path"
proof -
  from assms(2) obtain m where e: "wd_entries w path = Some (m, c)" by (auto simp: contents_def)
  let ?r = "restrict_to_owner (Inr m :: unit + u32) True"
  have sub: "owner_bits AND NOT owner_bits = 0" by (simp add: bit_eq_iff bit_simps)
  obtain mode changed warned where r: "?r = (Some mode, changed, warned)"
    by (cases "tightened m") (auto simp: restrict_to_owner_def)
  from restrict_to_owner_narrows [OF r] have "(mode AND permission_bits) AND NOT owner_bits = (m AND owner_bits) AND NOT owner_bits"
    by simp
  also have "\<dots> = 0" by (simp add: and.assoc sub)
  finally have "mode AND permission_bits AND NOT owner_bits = 0" by (simp add: and.assoc)
  moreover have "changed \<or> mode = m"
    using r by (auto simp: restrict_to_owner_def split: option.splits)
  ultimately show ?thesis
    using e r assms(1)
    by (auto simp: restrict_path_def system_call_def Let_def owner_only_def put_entry_def)
qed




lemma material_reused:
  assumes "wd_fault w = (\<lambda>_. None)"
    and "contents w (mp_certificate (material_paths_new (join_path dir ''tls''))) = Some c"
    and "contents w (mp_private_key (material_paths_new (join_path dir ''tls''))) = Some k"
  shows "\<exists>w1. load_or_generate ct dir names w = (Inr \<lparr>pm_certificate = c, pm_private_key = k\<rparr>, w1) \<and>
    owner_only w1 (mp_private_key (material_paths_new (join_path dir ''tls'')))"
proof -
  let ?d = "join_path dir ''tls''"
  let ?f = "material_paths_new ?d"
  obtain w1 where w1: "create_dir_all ?d w = (True, w1)" "wd_fault w1 = (\<lambda>_. None)"
    using create_dir_quiet [OF assms(1)] by blast
  have c1: "contents w1 (mp_certificate ?f) = Some c" "contents w1 (mp_private_key ?f) = Some k"
    using create_dir_contents [OF w1(1)] assms(2,3) by simp_all
  let ?w2 = "restrict_path ?d w1"
  let ?w3 = "?w2\<lparr>wd_calls := wd_calls ?w2 + 2\<rparr>"
  have "read_material ?f ?w2 = (Some \<lparr>pm_certificate = c, pm_private_key = k\<rparr>, ?w3)"
    using c1 w1(2) by (simp add: read_material_def read_path_quiet)
  moreover have "owner_only (restrict_path (mp_private_key ?f) ?w3) (mp_private_key ?f)"
    by (rule restrict_quiet) (use c1 w1(2) in simp_all)
  ultimately show ?thesis using w1(1) by (simp add: load_or_generate_def Let_def)
qed


text \<open>A first start whose write of the private key stops half-way fails, but what it wrote is kept: the next start finds
  both files, takes them for the certificate and loads a pair whose key is cut short.\<close>

lemma torn_key_is_kept:
  assumes "write_material (material_paths_new (join_path dir ''tls'')) m w = (r, w1)"
    and "wd_fault w (wd_calls w) = None" "wd_fault w (wd_calls w + 1) = Some (CutShort n)"
    and "contents w2 = contents w1" "wd_fault w2 = (\<lambda>_. None)"
  shows "r = Inl CannotSaveCertificate \<and>
    fst (load_or_generate ct dir names w2) = Inr (m\<lparr>pm_private_key := take n (pm_private_key m)\<rparr>)"
proof -
  let ?f = "material_paths_new (join_path dir ''tls'')"
  have w: "r = Inl CannotSaveCertificate" "contents w2 (mp_certificate ?f) = Some (pm_certificate m)"
    "contents w2 (mp_private_key ?f) = Some (take n (pm_private_key m))"
    using assms(1-3) material_paths_differ [of "join_path dir ''tls''"] unfolding assms(4)
    by (auto simp: write_material_def write_path_def system_call_def contents_def put_entry_def)
  from material_reused [OF assms(5) w(2,3), of ct names] w(1) show ?thesis by (cases m) auto
qed

text \<open>A certificate that is there but cannot be read at this moment counts as missing, and is replaced.\<close>

lemma unreadable_certificate_is_replaced:
  assumes "wd_entries w (join_path dir ''tls'') = Some (owner_bits, [])"
    and "wd_fault w = (\<lambda>n. if n = wd_calls w + 2 then Some Refused else None)"
    and "tl_generate ct (wd_calls w + 3) (subject_alt_names names) = Some (c, k)"
  shows "\<exists>w1. load_or_generate ct dir names w = (Inr \<lparr>pm_certificate = c, pm_private_key = k\<rparr>, w1)"
proof -
  have "tightened owner_bits = None" by (simp add: tightened_def owner_bits_def permission_bits_def)
  with assms show ?thesis
    by (simp add: load_or_generate_def Let_def create_dir_all_def system_call_def restrict_path_def restrict_to_owner_def
        read_material_def read_path_def bindE_def generate_material_def write_material_def write_path_def put_entry_def
        numeral_2_eq_2 numeral_3_eq_3)
qed

section \<open>Sample starts\<close>

definition sample_world :: world where
  "sample_world = \<lparr>wd_entries = Map.empty, wd_dir_mode = 0x41ED, wd_file_mode = 0x81A4, wd_fault = (\<lambda>_. None),
     wd_calls = 0, wd_absolute = (\<lambda>path. Some (''/srv/'' @ path))\<rparr>"

definition sample_boot :: "(string \<times> string \<times> int) list \<Rightarrow> boot" where
  "sample_boot settings = \<lparr>bt_world = sample_world,
     bt_schema = \<lparr>cn_tables = Map.empty, cn_indexes = [], cn_fail = (\<lambda>_. False), cn_calls = 0\<rparr>,
     bt_db = (rl_db sample_relay)\<lparr>d_settings := settings\<rparr>\<rparr>"

definition sample_host :: "(nat, string list) host_ops" where
  "sample_host = \<lparr>hs_unspecified = (\<lambda>_. True), hs_port = id, hs_text = decimal, hs_device_id = (\<lambda>n. Inr (''relay'' @ decimal n)),
     hs_fill = (\<lambda>n. Inr (replicate n 0)), hs_hash_password = Inr, hs_lockout = []\<rparr>"

definition sample_args :: "nat serve_args" where
  "sample_args = \<lparr>sa_data_dir = ''relay-data'', sa_listen = 8443, sa_public_url = Some sample_url, sa_tls = SelfSigned,
     sa_subdomain_base = None\<rparr>"

definition sample_tls :: "string tls_ops" where
  "sample_tls = \<lparr>tl_generate = (\<lambda>n names. Some (''cert'' @ decimal n, ''key'' @ decimal n)), tl_load = (\<lambda>c k. Some (c @ k)),
     tl_utf8 = (\<lambda>_. True), tl_base64 = Some, tl_sha256 = id, tl_hexupper = id\<rparr>"

lemma sample_store_settings: "distinct (map fst settings) \<Longrightarrow> db_inv ((rl_db sample_relay)\<lparr>d_settings := settings\<rparr>)"
  using fresh_started by (simp add: started_def fresh_system_def db_inv_def)

lemma sample_settles: "\<exists>i db. settle_store sample_x sample_host url ((rl_db sample_relay)\<lparr>d_settings := settings\<rparr>) = (Inr i, db)"
proof -
  have "d_fail (rl_db sample_relay) = (\<lambda>_. False)" "d_users (rl_db sample_relay) \<noteq> []"
    by (simp_all add: sample_relay_def sample_users_db_def sample_db_def)
  then show ?thesis
    by (auto simp: settle_store_def bindE_def tried_def with_now_def now_millis_def delete_expired_sessions_def statement_cases
        map_err_def read_or_initialize_setting_def read_setting_def query_def generate_relay_id_def sample_host_def okE_def
        write_setting_def ensure_admin_exists_def count_users_def split: option.split)
qed

lemma sample_prepared:
  "\<exists>n b. prepare sample_x sample_link_ops sample_host sample_args (sample_boot settings) = (Inr n, b)"
proof -
  have quiet: "wd_fault (bt_world (sample_boot settings)) = (\<lambda>_. None)" by (simp add: sample_boot_def sample_world_def)
  obtain dir w where d: "prepare_data_directory (sa_data_dir sample_args) (bt_world (sample_boot settings)) = (Inr dir, w)"
      "wd_fault w = (\<lambda>_. None)"
  proof -
    obtain w where w: "create_dir_all (sa_data_dir sample_args) (bt_world (sample_boot settings)) = (True, w)"
        "wd_fault w = (\<lambda>_. None)"
      using create_dir_quiet [OF quiet] by blast
    show thesis by (rule that [of "absolute w (sa_data_dir sample_args)" "restrict_path (sa_data_dir sample_args) w"])
      (simp_all add: prepare_data_directory_def w)
  qed
  let ?c = "bt_schema (sample_boot settings)"
  have "upgradable (?c\<lparr>cn_calls := 1\<rparr>)"
    by (auto simp: upgradable_def sample_boot_def list_all_iff split: ddl.split)
  with migrate_runs [of "?c\<lparr>cn_calls := 1\<rparr>"] obtain c where "migrate (?c\<lparr>cn_calls := 1\<rparr>) = (Inr (), c)"
    by (auto simp: sample_boot_def)
  then have "\<exists>b. open_database dir ((sample_boot settings)\<lparr>bt_world := w\<rparr>) = (Inr (), b) \<and>
      bt_db b = (rl_db sample_relay)\<lparr>d_settings := settings\<rparr>"
    using d(2) by (simp add: open_database_def Let_def system_call_def bindE_def sql_def okE_def sample_boot_def)
  then obtain b where b: "open_database dir ((sample_boot settings)\<lparr>bt_world := w\<rparr>) = (Inr (), b)"
      "bt_db b = (rl_db sample_relay)\<lparr>d_settings := settings\<rparr>" by blast
  obtain i db where "settle_store sample_x sample_host (args_url sample_host sample_args)
      ((rl_db sample_relay)\<lparr>d_settings := settings\<rparr>) = (Inr i, db)"
    using sample_settles by blast
  with d(1) b show ?thesis by (simp add: prepare_def Let_def)
qed

theorem prepared_relay_runs_witness:
  "\<exists>n b' z0 z. prepare sample_x sample_link_ops sample_host sample_args (sample_boot []) = (Inr n, b') \<and>
     site_started z0 \<and> site_run sample_x sample_ops sample_link_ops (\<lambda>_. None) z0 z \<and> node_of z = n \<and>
     stored_id (bt_db b') = Some (rl_relay_id (nd_relay n))"
proof -
  obtain n b' where p: "prepare sample_x sample_link_ops sample_host sample_args (sample_boot []) = (Inr n, b')"
    using sample_prepared by blast
  have "db_inv (bt_db (sample_boot []))" by (simp add: sample_boot_def sample_store_settings)
  from prepared_relay_runs [OF p this, of sample_ops "\<lambda>_. None"] p show ?thesis by blast
qed

theorem identity_survives_restart_witness:
  "\<exists>n b1 n2 b3. prepare sample_x sample_link_ops sample_host sample_args (sample_boot []) = (Inr n, b1) \<and>
     prepare sample_x sample_link_ops sample_host sample_args (sample_boot (d_settings (bt_db b1))) = (Inr n2, b3) \<and>
     rl_relay_id (nd_relay n2) = rl_relay_id (nd_relay n)"
proof -
  obtain n b1 where p: "prepare sample_x sample_link_ops sample_host sample_args (sample_boot []) = (Inr n, b1)"
    using sample_prepared by blast
  obtain n2 b3 where p2: "prepare sample_x sample_link_ops sample_host sample_args (sample_boot (d_settings (bt_db b1))) = (Inr n2, b3)"
    using sample_prepared by blast
  have inv: "db_inv (bt_db (sample_boot []))" by (simp add: sample_boot_def sample_store_settings)
  let ?z = "put_node n Unlinked (opening_site (nd_relay n))"
  have z: "node_of ?z = n" by (simp add: put_node_def node_of_def)
  have "stored_id (bt_db (sample_boot (d_settings (bt_db b1)))) = stored_id (rl_db (nd_relay (node_of ?z)))"
    using prepare_steps [OF p] by (metis (no_types, lifting) z boot.select_convs(3) sample_boot_def stored_id_def
      database.select_convs(1) database.update_convs(1) database.surjective)
  from identity_survives_restart [OF p inv z site_start this p2] p p2 show ?thesis by blast
qed




theorem torn_key_is_kept_witness:
  "let w = sample_world\<lparr>wd_fault := \<lambda>n. if n = 1 then Some (CutShort 2) else None\<rparr>;
       (r, w1) = write_material (material_paths_new (join_path ''/srv'' ''tls'')) \<lparr>pm_certificate = ''cert'', pm_private_key = ''secret''\<rparr> w
   in r = Inl CannotSaveCertificate \<and>
     fst (load_or_generate sample_tls ''/srv'' \<lparr>sn_public_host = ''r.io'', sn_wildcard = None\<rparr> (w1\<lparr>wd_fault := \<lambda>_. None\<rparr>)) =
       Inr \<lparr>pm_certificate = ''cert'', pm_private_key = ''se''\<rparr>"
proof -
  let ?w = "sample_world\<lparr>wd_fault := \<lambda>n. if n = 1 then Some (CutShort 2) else None\<rparr>"
  obtain r w1 where w: "write_material (material_paths_new (join_path ''/srv'' ''tls''))
      \<lparr>pm_certificate = ''cert'', pm_private_key = ''secret''\<rparr> ?w = (r, w1)" by fastforce
  have "contents (w1\<lparr>wd_fault := \<lambda>_. None\<rparr>) = contents w1" by (simp add: contents_def fun_eq_iff)
  from torn_key_is_kept [OF w _ _ this, of 2 sample_tls] w show ?thesis
    by (simp add: sample_world_def)
qed

end
