(* ===== verification/Pinning.thy ===== *)
theory Pinning
  imports Startup_Laws
begin

text \<open>
  Whom the upstream link trusts: the verifier of \<^verbatim>\<open>src/upstream/pinning.rs\<close>, which the client of the enrollment
  (\<open>Upstream_Settings\<close>) and the connector of the tunnel (\<open>Upstream\<close>) are built with, and that the fingerprint one relay logs
  for its certificate is what another one has to be given. How the platform's root store decides, how signatures are verified and that
  a TLS client answers nothing before its handshake belong to rustls and the two clients: they are parameters and named laws.
\<close>

section \<open>Trust\<close>

record 'a signature_ops =
  sg_tls12 :: "8 word list \<Rightarrow> 8 word list \<Rightarrow> 8 word list \<Rightarrow> 'a \<Rightarrow> bool"
  sg_tls13 :: "8 word list \<Rightarrow> 8 word list \<Rightarrow> 8 word list \<Rightarrow> 'a \<Rightarrow> bool"
  sg_algorithms :: "crypto_provider \<Rightarrow> 'a"
  sg_schemes :: "'a \<Rightarrow> nat list"

text \<open>The signatures of a handshake are left to the provider: only the choice of the certificate is this program's.\<close>

definition verify_tls12_signature ::
  "'a signature_ops \<Rightarrow> pinned_verifier \<Rightarrow> 8 word list \<Rightarrow> 8 word list \<Rightarrow> 8 word list \<Rightarrow> bool" where
  "verify_tls12_signature sg v msg certificate signature =
     sg_tls12 sg msg certificate signature (sg_algorithms sg (pv_provider v))"

definition verify_tls13_signature ::
  "'a signature_ops \<Rightarrow> pinned_verifier \<Rightarrow> 8 word list \<Rightarrow> 8 word list \<Rightarrow> 8 word list \<Rightarrow> bool" where
  "verify_tls13_signature sg v msg certificate signature =
     sg_tls13 sg msg certificate signature (sg_algorithms sg (pv_provider v))"

definition supported_verify_schemes :: "'a signature_ops \<Rightarrow> pinned_verifier \<Rightarrow> nat list" where
  "supported_verify_schemes sg v = sg_schemes sg (sg_algorithms sg (pv_provider v))"

text \<open>Whether the certificate of the other end is taken; \<open>platform\<close> is what the root store says of it.\<close>

fun accepts_certificate ::
  "('h, 'v) link_ops \<Rightarrow> (8 word list \<Rightarrow> bool) \<Rightarrow> tls_backend \<Rightarrow> 8 word list \<Rightarrow> bool" where
  "accepts_certificate lo platform PlatformRoots certificate = platform certificate"
| "accepts_certificate lo platform (Preconfigured v) certificate = verify_server_cert lo (pv_fingerprint v) certificate"

text \<open>
  What the program relies on of its TLS clients: over an https or wss address nothing is answered before a handshake in which
  the backend took the certificate presented there; \<open>server\<close> is the certificate a host presents. The first law is for the HTTP client
  of the enrollment, the second for the WebSocket client of the tunnel.
\<close>

definition posts_verified :: "('h, 'v) link_ops \<Rightarrow> (8 word list \<Rightarrow> bool) \<Rightarrow> (string \<Rightarrow> 8 word list) \<Rightarrow> bool" where
  "posts_verified lo platform server \<longleftrightarrow> (\<forall>backend host code name answer.
     lo_post lo backend (EnrollCall (''https://'' @ host @ lo_enroll_path lo) code name) = Inr answer \<longrightarrow>
     accepts_certificate lo platform backend (server host))"

definition dials_verified ::
  "('h, 'v) link_ops \<Rightarrow> (8 word list \<Rightarrow> bool) \<Rightarrow> (string \<Rightarrow> 8 word list) \<Rightarrow> (string \<Rightarrow> tls_backend \<Rightarrow> dial_error + unit) \<Rightarrow> bool" where
  "dials_verified lo platform server dial \<longleftrightarrow> (\<forall>backend host answer.
     dial (''wss://'' @ host @ lo_tunnel_path lo) backend = Inr answer \<longrightarrow> accepts_certificate lo platform backend (server host))"

section \<open>Spellings of a digest\<close>

definition octets :: "string \<Rightarrow> 8 word list" where
  "octets s = map (\<lambda>c. word_of_nat (of_char c)) s"

text \<open>What the two programs rely on: both encodings of a SHA-256 digest have 64 hexadecimal digits and differ in case only.\<close>

definition digest_laws :: "'c tls_ops \<Rightarrow> ('h, 'v) link_ops \<Rightarrow> bool" where
  "digest_laws ct lo \<longleftrightarrow> (\<forall>der. let h = tl_hexupper ct (tl_sha256 ct der) in
     length h = 64 \<and> list_all is_hex_digit h \<and> lo_sha256_hex lo (octets der) = map ascii_lower h)"

lemma chunks_Cons: "0 < n \<Longrightarrow> xs \<noteq> [] \<Longrightarrow> chunks n xs = take n xs # chunks n (drop n xs)"
  by (cases xs) simp_all

lemma hd_join: "xs \<noteq> [] \<Longrightarrow> xs ! 0 \<noteq> [] \<Longrightarrow> hd (join sep xs) = hd (xs ! 0)"
  by (induction sep xs rule: join.induct) auto

lemma join_not_Nil: "xs \<noteq> [] \<Longrightarrow> last xs \<noteq> [] \<Longrightarrow> join sep xs \<noteq> []"
  by (induction sep xs rule: join.induct) (auto split: if_splits)

lemma last_join: "xs \<noteq> [] \<Longrightarrow> last xs \<noteq> [] \<Longrightarrow> last (join sep xs) = last (last xs)"
  by (induction sep xs rule: join.induct) (auto simp: join_not_Nil split: if_splits)

lemma chunks_not_Nil: "0 < n \<Longrightarrow> y \<in> set (chunks n xs) \<Longrightarrow> y \<noteq> [] \<and> set y \<subseteq> set xs"
proof (induction n xs rule: chunks.induct)
  case (2 n x xs)
  then show ?case using set_take_subset [of n "x # xs"] set_drop_subset [of n "x # xs"] by fastforce
qed simp

text \<open>A digest shown in pairs is folded to the stored spelling.\<close>

lemma normalize_pairs:
  assumes h: "length h = 64" "list_all is_hex_digit h"
  shows "normalize_fingerprint (join '':'' (chunks 2 h)) = Inr (map ascii_lower h)"
proof -
  let ?c = "chunks 2 h"
  have digits: "\<forall>c \<in> set h. graphic c \<and> c \<noteq> CHR '':'' \<and> is_hex_digit (ascii_lower c)"
    using h(2) hex_digit_facts by (auto simp: list_all_iff)
  have "h \<noteq> []" using h(1) by auto
  then have ne: "?c \<noteq> []" by (simp add: chunks_Cons)
  have parts: "\<forall>y \<in> set ?c. y \<noteq> [] \<and> set y \<subseteq> set h" proof
    fix y
    assume "y \<in> set ?c"
    moreover have "0 < (2::nat)" by simp
    ultimately show "y \<noteq> [] \<and> set y \<subseteq> set h" by (rule chunks_not_Nil [rotated])
  qed
  have ends: "hd ?c \<noteq> []" "set (hd ?c) \<subseteq> set h" "last ?c \<noteq> []" "set (last ?c) \<subseteq> set h"
    using parts ne by (simp_all add: hd_in_set last_in_set)
  have "graphic (hd (join '':'' ?c))" "graphic (last (join '':'' ?c))"
    using ends ne digits by (auto simp: hd_join last_join hd_conv_nth [symmetric] hd_in_set last_in_set subset_iff)
  then have t: "trim (join '':'' ?c) = join '':'' ?c" using ne ends join_not_Nil by (intro trim_graphic) auto
  have "filter (\<lambda>c. c \<noteq> CHR '':'') (join '':'' ?c) = concat (map (filter (\<lambda>c. c \<noteq> CHR '':'')) ?c)"
    by (rule filter_join) simp
  also have "\<dots> = filter (\<lambda>c. c \<noteq> CHR '':'') h" by (simp add: filter_concat [symmetric] concat_chunks)
  also have "\<dots> = h" using digits by (simp add: filter_id_conv)
  finally have f: "filter (\<lambda>c. c \<noteq> CHR '':'') (join '':'' ?c) = h" .
  have "to_lowercase h = map ascii_lower h" using digits by (simp add: to_lowercase_graphic list_all_iff)
  then show ?thesis using h(1) digits by (simp add: normalize_fingerprint_iff t f list_all_iff)
qed

text \<open>What a successful link command has done with the fingerprint: it is stored, and the enrollment was answered to a
  client that pins it.\<close>

lemma link_command_pins:
  assumes "link_command x lo url code name (Some shown) db = (Inr settings, db')" "normalize_fingerprint shown = Inr n"
  shows "us_fingerprint settings = Some n" "\<exists>u m answer. public_url_from_str url = Inr u \<and>
    lo_post lo (client_backend (Some n)) (EnrollCall (pu_origin u @ lo_enroll_path lo) (trim code) m) = Inr answer"
proof -
  have "\<exists>m db1. establish x lo url code m (Some n) None db1 = (Inr settings, db')"
    using assms by (auto simp: link_command_def check_some_def bindE_Inr check_eq okE_Inr split: prod.splits)
  then obtain m db1 where "establish x lo url code m (Some n) None db1 = (Inr settings, db')" by blast
  then obtain db2 where join: "join_upstream x lo url code m (Some n) db1 = (Inr settings, db2)"
    by (auto simp: establish_def bindE_Inr okE_def Let_def)
  then obtain u c where "join_answered x lo url code m (Some n) u c" and f: "us_fingerprint settings = Some n"
    by (rule join_upstream_Inr)
  then show "\<exists>u m answer. public_url_from_str url = Inr u \<and>
      lo_post lo (client_backend (Some n)) (EnrollCall (pu_origin u @ lo_enroll_path lo) (trim code) m) = Inr answer"
    unfolding join_answered_def by blast
  from f show "us_fingerprint settings = Some n" .
qed

lemma pinned_connector: "us_fingerprint settings = Some n \<Longrightarrow> tunnel_connector settings = client_backend (Some n)"
  by (simp add: tunnel_connector_def client_backend_def client_config_def)

lemma pinned_accepts:
  "accepts_certificate lo platform (client_backend (Some n)) certificate \<longleftrightarrow> n = lo_sha256_hex lo certificate"
  by (simp add: client_backend_def client_config_def verify_server_cert_def)

lemma dialled:
  assumes "link_connect lo settings dial = Inr ()" "settings_is_secure settings"
  shows "dial (''wss://'' @ settings_authority settings @ lo_tunnel_path lo) (tunnel_connector settings) = Inr ()"
  using assms by (auto simp: link_connect_def tunnel_url_def split: sum.splits)

section \<open>Properties\<close>

text \<open>C39: The fingerprint that a relay shows for its certificate pins exactly that certificate. Given to the link command
  of another relay as it is, it is accepted, and a client that pins it takes a certificate exactly when its digest is that of the
  shown one, whatever the platform's roots say. If the command succeeds with it, the fingerprint is stored in its one spelling, the
  enrollment of an https address was answered by a host with the shown certificate, and so is every
  tunnel of this link that is dialled over TLS.\<close>

theorem shown_fingerprint_pins:
  assumes "digest_laws ct lo" "certificate_der ct pem = Some der" "certificate_fingerprint ct pem = Some shown"
    and "posts_verified lo platform server" "dials_verified lo platform server dial"
  shows "\<exists>n. normalize_fingerprint shown = Inr n \<and>
    (\<forall>certificate. accepts_certificate lo platform (client_backend (Some n)) certificate =
       (lo_sha256_hex lo certificate = lo_sha256_hex lo (octets der))) \<and>
    (\<forall>x url code name db. case link_command x lo url code name (Some shown) db of
       (Inl _, _) \<Rightarrow> True
     | (Inr settings, _) \<Rightarrow> us_fingerprint settings = Some n \<and>
         (\<forall>u. public_url_from_str url = Inr u \<longrightarrow> pu_secure u \<longrightarrow>
            lo_sha256_hex lo (server (pu_host u)) = lo_sha256_hex lo (octets der)) \<and>
         (settings_is_secure settings \<longrightarrow> link_connect lo settings dial = Inr () \<longrightarrow>
            lo_sha256_hex lo (server (settings_authority settings)) = lo_sha256_hex lo (octets der)))"
proof -
  let ?n = "map ascii_lower (tl_hexupper ct (tl_sha256 ct der))"
  have shown: "shown = join '':'' (chunks 2 (tl_hexupper ct (tl_sha256 ct der)))"
    using assms(2,3) by (simp add: certificate_fingerprint_def)
  from assms(1) have laws: "length (tl_hexupper ct (tl_sha256 ct der)) = 64"
      "list_all is_hex_digit (tl_hexupper ct (tl_sha256 ct der))" "lo_sha256_hex lo (octets der) = ?n"
    by (auto simp: digest_laws_def Let_def)
  have n: "normalize_fingerprint shown = Inr ?n" unfolding shown by (rule normalize_pairs [OF laws(1,2)])
  have pinned: "us_fingerprint settings = Some ?n \<and>
      (\<forall>u. public_url_from_str url = Inr u \<longrightarrow> pu_secure u \<longrightarrow> lo_sha256_hex lo (server (pu_host u)) = lo_sha256_hex lo (octets der)) \<and>
      (settings_is_secure settings \<longrightarrow> link_connect lo settings dial = Inr () \<longrightarrow>
         lo_sha256_hex lo (server (settings_authority settings)) = lo_sha256_hex lo (octets der))"
    if run: "link_command x lo url code name (Some shown) db = (Inr settings, db')" for x url code name db settings db'
  proof (intro conjI allI impI)
    show f: "us_fingerprint settings = Some ?n" by (rule link_command_pins(1) [OF run n])
    fix u
    assume u: "public_url_from_str url = Inr u" "pu_secure u"
    with link_command_pins(2) [OF run n] public_url_from_str_shape(1) [OF u(1)] obtain m answer where
      "lo_post lo (client_backend (Some ?n)) (EnrollCall (''https://'' @ pu_host u @ lo_enroll_path lo) (trim code) m) = Inr answer" by auto
    with assms(4) show "lo_sha256_hex lo (server (pu_host u)) = lo_sha256_hex lo (octets der)"
      unfolding posts_verified_def laws(3) by (metis pinned_accepts)
  next
    assume "settings_is_secure settings" "link_connect lo settings dial = Inr ()"
    with dialled assms(5) pinned_connector [OF link_command_pins(1) [OF run n]]
    show "lo_sha256_hex lo (server (settings_authority settings)) = lo_sha256_hex lo (octets der)"
      unfolding dials_verified_def laws(3) by (metis pinned_accepts)
  qed
  have "case link_command x lo url code name (Some shown) db of
       (Inl _, _) \<Rightarrow> True
     | (Inr settings, _) \<Rightarrow> us_fingerprint settings = Some ?n \<and>
         (\<forall>u. public_url_from_str url = Inr u \<longrightarrow> pu_secure u \<longrightarrow>
            lo_sha256_hex lo (server (pu_host u)) = lo_sha256_hex lo (octets der)) \<and>
         (settings_is_secure settings \<longrightarrow> link_connect lo settings dial = Inr () \<longrightarrow>
            lo_sha256_hex lo (server (settings_authority settings)) = lo_sha256_hex lo (octets der))" for x url code name db
    by (cases "link_command x lo url code name (Some shown) db"; cases "fst (link_command x lo url code name (Some shown) db)")
       (use pinned in \<open>simp, simp\<close>)
  moreover have "accepts_certificate lo platform (client_backend (Some ?n)) certificate =
      (lo_sha256_hex lo certificate = lo_sha256_hex lo (octets der))" for certificate
    unfolding pinned_accepts laws(3) by (rule eq_commute)
  ultimately show ?thesis using n by (intro exI [of _ ?n] conjI allI)
qed

section \<open>Witness\<close>

text \<open>A digest of 32 octets that keeps the first three.\<close>

definition sample_digest :: "string \<Rightarrow> string" where
  "sample_digest der = take 32 (der @ replicate 32 (CHR ''0''))"

definition sample_hex :: "(nat \<Rightarrow> char) \<Rightarrow> string \<Rightarrow> string" where
  "sample_hex digit s = concat (map (\<lambda>c. [digit (of_char c div 16), digit (of_char c mod 16)]) s)"

definition sample_pin_tls :: "string tls_ops" where
  "sample_pin_tls = sample_tls\<lparr>tl_sha256 := sample_digest, tl_hexupper := sample_hex hex_digit\<rparr>"

text \<open>Two clients that check the certificate of the upstream, which no root store knows.\<close>

definition sample_hash_link :: "((string \<times> string) list, string) link_ops" where
  "sample_hash_link = sample_link_ops\<lparr>lo_sha256_hex :=
     (\<lambda>b. sample_hex (\<lambda>d. ascii_lower (hex_digit d)) (sample_digest (map (\<lambda>w. char_of (unat w)) b)))\<rparr>"

definition sample_pin_link :: "((string \<times> string) list, string) link_ops" where
  "sample_pin_link = sample_hash_link\<lparr>lo_post := (\<lambda>backend call.
     if accepts_certificate sample_hash_link (\<lambda>_. False) backend (octets ''abc'') then Inr (200, Inr ''id:s'') else Inl ''certificate'')\<rparr>"

definition sample_dial :: "string \<Rightarrow> tls_backend \<Rightarrow> dial_error + unit" where
  "sample_dial url backend =
     (if accepts_certificate sample_hash_link (\<lambda>_. False) backend (octets ''abc'') then Inr () else Inl (DialFailed ''certificate''))"

lemma sample_pin_accepts: "accepts_certificate sample_pin_link platform backend = accepts_certificate sample_hash_link platform backend"
  by (cases backend) (simp_all add: fun_eq_iff verify_server_cert_def sample_pin_link_def)

lemma sample_verified:
  "posts_verified sample_pin_link (\<lambda>_. False) (\<lambda>_. octets ''abc'')" "dials_verified sample_pin_link (\<lambda>_. False) (\<lambda>_. octets ''abc'') sample_dial"
  by (auto simp: posts_verified_def dials_verified_def sample_pin_accepts sample_dial_def)
     (auto simp: sample_pin_link_def split: if_splits)

lemma unoctets [simp]: "map (\<lambda>w. char_of (unat w)) (octets s) = s"
  by (induction s) (simp_all add: octets_def unat_of_nat)

lemma sample_digest_laws: "digest_laws sample_pin_tls sample_pin_link"
proof -
  have "length (sample_digest der) = 32" for der by (simp add: sample_digest_def)
  moreover have "length (sample_hex d s) = 2 * length s" for d s by (induction s) (simp_all add: sample_hex_def)
  moreover have "is_hex_digit (hex_digit d)" if "d < 16" for d
    proof -
    have "\<forall>d \<in> {..<16}. is_hex_digit (hex_digit d)"
      by (simp add: hex_digit_def is_hex_digit_def is_digit_def lessThan_nat_numeral lessThan_Suc)
    with that show ?thesis by simp
  qed
  moreover have "(of_char c :: nat) div 16 < 16" for c :: char
    by (rule less_mult_imp_div_less) (use nat_of_char_less_256 [of c] in simp)
  ultimately have "list_all is_hex_digit (sample_hex hex_digit s)" "length (sample_digest der) = 32"
      "length (sample_hex d s) = 2 * length s" for s der d
    by (induction s) (simp_all add: sample_hex_def)
  moreover have "sample_hex (\<lambda>d. ascii_lower (hex_digit d)) s = map ascii_lower (sample_hex hex_digit s)" for s
    by (induction s) (simp_all add: sample_hex_def)
  ultimately show ?thesis by (simp add: digest_laws_def sample_pin_tls_def sample_pin_link_def sample_hash_link_def)
qed

lemma sample_der: "certificate_der sample_pin_tls (pem_header @ ''abc'' @ pem_footer) = Some ''abc''"
proof -
  have "find_text pem_header (pem_header @ ''abc'' @ pem_footer) = Some 0"
    "find_text pem_footer (pem_header @ ''abc'' @ pem_footer) = Some 30"
    by (simp_all add: pem_header_def pem_footer_def)
  moreover have "without_whitespace ''abc'' = ''abc''" by code_simp
  ultimately show ?thesis
    by (simp add: certificate_der_def sample_pin_tls_def sample_tls_def pem_header_def pem_footer_def)
qed

lemma sample_link_runs:
  assumes "normalize_fingerprint shown = Inr n" "accepts_certificate sample_pin_link (\<lambda>_. False) (client_backend (Some n)) (octets ''abc'')"
  shows "\<exists>settings db. link_command sample_x sample_pin_link ''https://up.example/'' ''ABCD'' None (Some shown) sample_db = (Inr settings, db)"
proof -
  obtain name db1 where ln: "link_name None sample_db = (name, db1)" by fastforce
  have "d_fail db1 = (\<lambda>_. False)"
    using ln by (auto simp: link_name_def non_blank_def stored_host_def read_setting_def query_def statement_def sample_db_def Let_def
        split: prod.splits if_splits)
  then obtain settings db2 where "join_upstream sample_x sample_pin_link ''https://up.example/'' ''ABCD'' name (Some n) db1 = (Inr settings, db2)"
    using assms(2) answered_join [of db1 sample_pin_link "Some n" name]
    by (auto simp: sample_pin_accepts) (auto simp: sample_pin_link_def sample_hash_link_def sample_link_ops_def)
  then show ?thesis
    using assms(1) by (simp add: link_command_def ln check_some_def check_eq bindE_def okE_def establish_def Let_def)
qed

theorem shown_fingerprint_pins_witness:
  "\<exists>shown n settings db. certificate_fingerprint sample_pin_tls (pem_header @ ''abc'' @ pem_footer) = Some shown \<and>
     normalize_fingerprint shown = Inr n \<and>
     link_command sample_x sample_pin_link ''https://up.example/'' ''ABCD'' None (Some shown) sample_db = (Inr settings, db) \<and>
     us_fingerprint settings = Some n"
proof -
  obtain shown where shown: "certificate_fingerprint sample_pin_tls (pem_header @ ''abc'' @ pem_footer) = Some shown"
    unfolding certificate_fingerprint_def sample_der option.map by blast
  from shown_fingerprint_pins [OF sample_digest_laws sample_der shown sample_verified] obtain n where
    n: "normalize_fingerprint shown = Inr n"
      "accepts_certificate sample_pin_link (\<lambda>_. False) (client_backend (Some n)) (octets ''abc'')"
    and pinned: "\<forall>settings db. link_command sample_x sample_pin_link ''https://up.example/'' ''ABCD'' None (Some shown) sample_db =
      (Inr settings, db) \<longrightarrow> us_fingerprint settings = Some n"
    by (fastforce split: prod.splits sum.splits)
  from sample_link_runs [OF n] pinned shown n show ?thesis by blast
qed

end
