(* ===== verification/Multiplexer.thy ===== *)
theory Multiplexer
  imports Tunnel Stream_Chain "HOL-Library.Sublist"
begin

text \<open>
  The multiplexed connection behind a tunnel: the task that owns it and answers requests for streams
  (\<^verbatim>\<open>drive_multiplexer\<close> in \<^verbatim>\<open>src/tunnel/session.rs\<close>), the caller's side of one request
  (\<^verbatim>\<open>TunnelHandle::open_stream\<close> in \<^verbatim>\<open>src/tunnel/handle.rs\<close>), and the task of a downstream relay that
  serves what its upstream opens (\<^verbatim>\<open>serve_streams\<close> in \<^verbatim>\<open>src/upstream/session.rs\<close>). The yamux
  connection is a parameter: its two polls, and what arriving bytes make of it.
\<close>

section \<open>The connection and its driver\<close>

text \<open>
  A poll that is not ready is \<open>None\<close>; a connection that has ended has no next inbound stream. The
  errors are only logged.
\<close>

record ('c, 's, 'b) yamux_ops =
  ym_poll_new_outbound :: "'c \<Rightarrow> (unit + 's) option \<times> 'c"
  ym_poll_next_inbound :: "'c \<Rightarrow> (unit + 's) option option \<times> 'c"
  ym_receive :: "'b \<Rightarrow> 'c \<Rightarrow> 'c"

definition max_concurrent_streams :: nat where
  "max_concurrent_streams = 64"

definition per_stream_receive_window :: nat where
  "per_stream_receive_window = 256 * 1024"

definition frame_queue_capacity :: nat where
  "frame_queue_capacity = 128"

text \<open>\<^verbatim>\<open>multiplexer_config\<close>: the stream limit and the window of the whole connection.\<close>

definition multiplexer_config :: "nat \<times> nat" where
  "multiplexer_config = (max_concurrent_streams, max_concurrent_streams * per_stream_receive_window)"

text \<open>
  What the one-shot channel of a request delivers: a stream, the error the driver sends, or nothing
  because the request was dropped.
\<close>

datatype 's open_answer = AnswerStream 's | AnswerFailed | AnswerDropped

text \<open>
  The driver: the connection, the channel of requests with whether a handle still holds its sending
  end, the requests that wait for a stream, and the answers that have been sent. A request is named
  by its one-shot channel.
\<close>

record ('c, 's) driver =
  dr_connection :: 'c
  dr_queue :: "nat list"
  dr_open :: bool
  dr_pending :: "nat list"
  dr_replies :: "(nat \<times> 's open_answer) list"
  dr_running :: bool

definition start_driver :: "'c \<Rightarrow> ('c, 's) driver" where
  "start_driver connection =
     \<lparr>dr_connection = connection, dr_queue = [], dr_open = True, dr_pending = [], dr_replies = [],
      dr_running = True\<rparr>"

text \<open>A channel of tokio that holds a value is ready. Its cooperative budget, which lets a task that has received very much in one poll
  appear to wait once and be polled again at once, is not modelled.\<close>

definition poll_recv :: "('c, 's) driver \<Rightarrow> nat option option \<times> ('c, 's) driver" where
  "poll_recv d =
     (case dr_queue d of
        request # rest \<Rightarrow> (Some (Some request), d\<lparr>dr_queue := rest\<rparr>)
      | [] \<Rightarrow> (if dr_open d then None else Some None, d))"

text \<open>The first inner loop; the flag tells that every handle is gone.\<close>

function take_requests :: "('c, 's) driver \<Rightarrow> bool \<times> ('c, 's) driver" where
  "take_requests d =
     (case poll_recv d of
        (Some (Some request), d1) \<Rightarrow> take_requests (d1\<lparr>dr_pending := dr_pending d1 @ [request]\<rparr>)
      | (Some None, d1) \<Rightarrow> (True, d1)
      | (None, d1) \<Rightarrow> (False, d1))"
  by pat_completeness auto

termination
  by (relation "measure (length \<circ> dr_queue)") (auto simp: poll_recv_def split: list.splits if_splits)

text \<open>The second inner loop: whether there was progress, or \<open>None\<close> once the connection has failed.\<close>

function answer_pending ::
  "('c, 's, 'b) yamux_ops \<Rightarrow> bool \<Rightarrow> ('c, 's) driver \<Rightarrow> bool option \<times> ('c, 's) driver" where
  "answer_pending ym progressed d =
     (case dr_pending d of
        [] \<Rightarrow> (Some progressed, d)
      | request # rest \<Rightarrow>
          (case ym_poll_new_outbound ym (dr_connection d) of
             (Some (Inr s), c) \<Rightarrow>
               answer_pending ym True
                 (d\<lparr>dr_connection := c, dr_pending := rest, dr_replies := dr_replies d @ [(request, AnswerStream s)]\<rparr>)
           | (Some (Inl _), c) \<Rightarrow>
               (None, d\<lparr>dr_connection := c, dr_pending := [],
                        dr_replies := dr_replies d @ map (\<lambda>r. (r, AnswerFailed)) (dr_pending d)\<rparr>)
           | (None, c) \<Rightarrow> (Some progressed, d\<lparr>dr_connection := c\<rparr>)))"
  by pat_completeness auto

termination
  by (relation "measure (\<lambda>(ym, progressed, d). length (dr_pending d))") auto

declare take_requests.simps [simp del] answer_pending.simps [simp del]

text \<open>One poll of the driver's future: \<open>True\<close> when it is ready, \<open>False\<close> when it is pending.\<close>

partial_function (option) poll_driver ::
  "('c, 's, 'b) yamux_ops \<Rightarrow> ('c, 's) driver \<Rightarrow> (bool \<times> ('c, 's) driver) option" where
  "poll_driver ym d =
     (let (gone, d1) = take_requests d
      in if gone then Some (True, d1)
         else (case answer_pending ym False d1 of
             (None, d2) \<Rightarrow> Some (True, d2)
           | (Some progressed, d2) \<Rightarrow>
               (case ym_poll_next_inbound ym (dr_connection d2) of
                  (Some (Some (Inr _)), c) \<Rightarrow> poll_driver ym (d2\<lparr>dr_connection := c\<rparr>)
                | (Some (Some (Inl _)), c) \<Rightarrow> Some (True, d2\<lparr>dr_connection := c\<rparr>)
                | (Some None, c) \<Rightarrow> Some (True, d2\<lparr>dr_connection := c\<rparr>)
                | (None, c) \<Rightarrow>
                    if progressed then poll_driver ym (d2\<lparr>dr_connection := c\<rparr>)
                    else Some (False, d2\<lparr>dr_connection := c\<rparr>))))"

text \<open>
  The end of the task drops the requests it still holds and closes the channel, which drops those in
  it.
\<close>

definition finish :: "('c, 's) driver \<Rightarrow> ('c, 's) driver" where
  "finish d =
     d\<lparr>dr_queue := [], dr_pending := [],
       dr_replies := dr_replies d @ map (\<lambda>r. (r, AnswerDropped)) (dr_pending d @ dr_queue d), dr_running := False\<rparr>"

text \<open>
  What happens to a driver: a caller sends a request (which waits while the channel is full), the last
  handle is dropped, bytes arrive, the executor polls the task, or the session aborts it.
\<close>

datatype 'b driver_event = Submit nat | HandlesGone | Received 'b | Polled | Aborted

definition drive_step ::
  "('c, 's, 'b) yamux_ops \<Rightarrow> 'b driver_event \<Rightarrow> ('c, 's) driver \<Rightarrow> ('c, 's) driver option" where
  "drive_step ym event d =
     (if \<not> dr_running d then Some d
      else case event of
          Submit request \<Rightarrow>
            Some (if dr_open d \<and> length (dr_queue d) < command_capacity
                  then d\<lparr>dr_queue := dr_queue d @ [request]\<rparr> else d)
        | HandlesGone \<Rightarrow> Some (d\<lparr>dr_open := False\<rparr>)
        | Received b \<Rightarrow> Some (d\<lparr>dr_connection := ym_receive ym b (dr_connection d)\<rparr>)
        | Polled \<Rightarrow>
            (case poll_driver ym d of
               None \<Rightarrow> None
             | Some (ready, d1) \<Rightarrow> Some (if ready then finish d1 else d1))
        | Aborted \<Rightarrow> Some (finish d))"

fun drive_multiplexer ::
  "('c, 's, 'b) yamux_ops \<Rightarrow> 'b driver_event list \<Rightarrow> ('c, 's) driver \<Rightarrow> ('c, 's) driver option" where
  "drive_multiplexer ym [] d = Some d"
| "drive_multiplexer ym (event # events) d = Option.bind (drive_step ym event d) (drive_multiplexer ym events)"

section \<open>The two sides of a stream\<close>

text \<open>
  \<^verbatim>\<open>open_stream\<close>: whether the request could be sent, what came back before the timeout, and the
  preface written ahead of everything else.
\<close>

definition open_stream ::
  "('v stream_preface \<Rightarrow> 'b) \<Rightarrow> ('s \<Rightarrow> 'b \<Rightarrow> 's option) \<Rightarrow> ('s \<Rightarrow> 's option) \<Rightarrow> bool \<Rightarrow> 's open_answer option
     \<Rightarrow> 'v stream_preface \<Rightarrow> tunnel_error + 's" where
  "open_stream encode write_all flush sent answer preface =
     (if \<not> sent then Inl TunnelClosed
      else case answer of
          None \<Rightarrow> Inl OpenTimeout
        | Some AnswerDropped \<Rightarrow> Inl TunnelClosed
        | Some AnswerFailed \<Rightarrow> Inl TunnelClosed
        | Some (AnswerStream s) \<Rightarrow>
            (case write_all s (encode preface) of
               None \<Rightarrow> Inl PrefaceIo
             | Some s1 \<Rightarrow> (case flush s1 of None \<Rightarrow> Inl PrefaceIo | Some s2 \<Rightarrow> Inr s2)))"

text \<open>
  The downstream relay's task, over what awaiting the next inbound stream yields, each with the
  routing table at that time; a stream is served by a task of its own, which ends in \<^verbatim>\<open>forward::carry\<close>.
  The flag tells that the task has ended.
\<close>

fun serve_streams ::
  "(registry \<Rightarrow> 's \<Rightarrow> 'o) \<Rightarrow> (registry \<times> (unit + 's) option) list \<Rightarrow> 'o list \<times> bool" where
  "serve_streams serve [] = ([], False)"
| "serve_streams serve ((r, inbound) # rest) =
     (case inbound of
        Some (Inr s) \<Rightarrow> (let (outcomes, ended) = serve_streams serve rest in (serve r s # outcomes, ended))
      | Some (Inl _) \<Rightarrow> ([], True)
      | None \<Rightarrow> ([], True))"

definition serve_stream ::
  "nat \<Rightarrow> ('s \<Rightarrow> 'p + 'v stream_preface) \<Rightarrow> (tunnel_handle \<Rightarrow> 'v stream_preface \<Rightarrow> tunnel_error + 's)
     \<Rightarrow> ('s \<Rightarrow> 's \<Rightarrow> bool) \<Rightarrow> registry \<Rightarrow> 's \<Rightarrow> 'p stream_rejection + unit" where
  "serve_stream max_hops read_preface open_next copy r upstream =
     carry max_hops open_next (copy upstream) r (read_preface upstream)"

text \<open>A caller gets a stream only with its whole preface ahead of everything it will write.\<close>

lemma open_stream_Inr:
  "open_stream encode write_all flush sent answer preface = Inr s \<longleftrightarrow>
     sent \<and> (\<exists>fresh written. answer = Some (AnswerStream fresh) \<and>
       write_all fresh (encode preface) = Some written \<and> flush written = Some s)"
  by (auto simp: open_stream_def split: option.splits open_answer.splits)

text \<open>The downstream task serves every stream up to the first error or the end, and nothing after it.\<close>

lemma serve_streams_prefix:
  "serve_streams serve (map (\<lambda>(r, s). (r, Some (Inr s))) live @ rest) =
     (map (\<lambda>(r, s). serve r s) live @ fst (serve_streams serve rest), snd (serve_streams serve rest))"
  by (induction live) (auto split: prod.splits)

lemma serve_streams_stops:
  assumes "\<forall>s. inbound \<noteq> Some (Inr s)"
  shows "serve_streams serve (map (\<lambda>(r, s). (r, Some (Inr s))) live @ (r, inbound) # rest) =
    (map (\<lambda>(r, s). serve r s) live, True)"
  using assms by (auto simp: serve_streams_prefix split: option.splits sum.splits)

section \<open>What a poll does\<close>

lemma take_requests_eq:
  "take_requests d = (\<not> dr_open d, d\<lparr>dr_queue := [], dr_pending := dr_pending d @ dr_queue d\<rparr>)"
proof (induction d rule: take_requests.induct)
  case (1 d)
  then show ?case
    by (subst take_requests.simps) (cases "dr_queue d"; simp add: poll_recv_def)
qed

text \<open>
  Every request the driver ever accepted, in the order of the answers, then of the waiting line, then
  of the channel.
\<close>

definition ledger :: "('c, 's) driver \<Rightarrow> nat list" where
  "ledger d = map fst (dr_replies d) @ dr_pending d @ dr_queue d"

text \<open>What a stage of the driver keeps: the ledger, the answers given so far, the handles and the task.\<close>

definition keeps_order :: "('c, 's) driver \<Rightarrow> ('c, 's) driver \<Rightarrow> bool" where
  "keeps_order d d' \<longleftrightarrow>
     ledger d' = ledger d \<and> prefix (dr_replies d) (dr_replies d') \<and>
     dr_open d' = dr_open d \<and> dr_running d' = dr_running d"

lemma keeps_order_refl [simp]: "keeps_order d d"
  by (simp add: keeps_order_def)

lemma keeps_order_trans [trans]: "keeps_order a b \<Longrightarrow> keeps_order b c \<Longrightarrow> keeps_order a c"
  by (auto simp: keeps_order_def intro: prefix_order.trans)

lemma keeps_order_connection [simp]: "keeps_order d (d'\<lparr>dr_connection := c\<rparr>) \<longleftrightarrow> keeps_order d d'"
  by (simp add: keeps_order_def ledger_def)

lemma keeps_order_take: "keeps_order d (snd (take_requests d))"
  by (simp add: take_requests_eq keeps_order_def ledger_def)

lemma answer_pending_keeps: "keeps_order d (snd (answer_pending ym progressed d))"
proof (induction ym progressed d rule: answer_pending.induct)
  case (1 ym progressed d)
  show ?case
  proof (cases "dr_pending d")
    case (Cons request rest)
    obtain polled c where c: "ym_poll_new_outbound ym (dr_connection d) = (polled, c)" by fastforce
    let ?d1 = "\<lambda>s. d\<lparr>dr_connection := c, dr_pending := rest, dr_replies := dr_replies d @ [(request, AnswerStream s)]\<rparr>"
    have step: "keeps_order d (?d1 s)" for s using Cons by (simp add: keeps_order_def ledger_def)
    show ?thesis
    proof (cases polled)
      case None
      then show ?thesis using Cons c by (subst answer_pending.simps) simp
    next
      case (Some result)
      show ?thesis
      proof (cases result)
        case (Inl u)
        then show ?thesis using Cons c Some
          by (subst answer_pending.simps) (simp add: keeps_order_def ledger_def comp_def)
      next
        case (Inr s)
        then show ?thesis using Cons c Some keeps_order_trans [OF step 1 [OF Cons c [symmetric] Some Inr]]
          by (subst answer_pending.simps) simp
      qed
    qed
  qed (simp add: answer_pending.simps)
qed

text \<open>
  A poll may leave the task pending only when every source it waits for was polled last and was not
  ready: the channel is drained, the connection offers no inbound stream, and it cannot open one if a
  request still waits. It completes only when no handle is left or the connection is over.
\<close>

definition parked :: "('c, 's, 'b) yamux_ops \<Rightarrow> ('c, 's) driver \<Rightarrow> bool" where
  "parked ym d \<longleftrightarrow>
     dr_open d \<and> dr_queue d = [] \<and>
     (\<exists>before asked.
        (if dr_pending d = [] then asked = before else ym_poll_new_outbound ym before = (None, asked)) \<and>
        ym_poll_next_inbound ym asked = (None, dr_connection d))"

definition connection_over :: "('c, 's, 'b) yamux_ops \<Rightarrow> 'c \<Rightarrow> bool" where
  "connection_over ym c \<longleftrightarrow>
     (\<exists>before. ym_poll_new_outbound ym before = (Some (Inl ()), c) \<or>
        ym_poll_next_inbound ym before \<in> {(Some None, c), (Some (Some (Inl ())), c)})"

lemma answer_pending_outcome:
  assumes "answer_pending ym progressed d = (outcome, d')"
  shows "case outcome of
      None \<Rightarrow> connection_over ym (dr_connection d')
    | Some made \<Rightarrow> dr_queue d' = dr_queue d \<and> (progressed \<longrightarrow> made)"
  using assms
proof (induction ym progressed d arbitrary: outcome d' rule: answer_pending.induct)
  case (1 ym progressed d)
  show ?case
  proof (cases "dr_pending d")
    case (Cons request rest)
    obtain polled c where c: "ym_poll_new_outbound ym (dr_connection d) = (polled, c)" by fastforce
    show ?thesis
    proof (cases polled)
      case None
      with 1(2) Cons c show ?thesis by (auto simp: answer_pending.simps [of _ _ d])
    next
      case (Some result)
      show ?thesis
      proof (cases result)
        case (Inl u)
        with 1(2) Cons c Some show ?thesis
          by (auto simp: answer_pending.simps [of _ _ d] connection_over_def)
      next
        case (Inr s)
        with 1(2) Cons c Some show ?thesis
          using 1(1) [OF Cons c [symmetric] Some Inr]
          by (subst (asm) answer_pending.simps) (auto split: option.splits)
      qed
    qed
  qed (use 1(2) in \<open>auto simp: answer_pending.simps [of _ _ d]\<close>)
qed

text \<open>A stage that starts without progress and reports none has asked the connection at most once.\<close>

lemma answer_pending_idle:
  assumes "answer_pending ym False d = (Some False, d')"
  shows "dr_pending d' = dr_pending d"
    and "if dr_pending d = [] then dr_connection d' = dr_connection d
         else ym_poll_new_outbound ym (dr_connection d) = (None, dr_connection d')"
proof -
  have no: "answer_pending ym True d1 \<noteq> (Some False, d')" for d1
    using answer_pending_outcome [of ym True d1 "Some False" d'] by auto
  show "dr_pending d' = dr_pending d"
    and "if dr_pending d = [] then dr_connection d' = dr_connection d
         else ym_poll_new_outbound ym (dr_connection d) = (None, dr_connection d')"
    using assms no
    by (auto simp: answer_pending.simps [of _ False] split: list.splits prod.splits option.splits sum.splits)
qed

lemma poll_driver_outcome:
  assumes "poll_driver ym d = Some (ready, d')"
  shows "keeps_order d d' \<and> (if ready then \<not> dr_open d' \<or> connection_over ym (dr_connection d') else parked ym d')"
proof -
  let ?P = "\<lambda>ym d (ready, d'). keeps_order d d' \<and>
    (if ready then \<not> dr_open d' \<or> connection_over ym (dr_connection d') else parked ym d')"
  have "?P ym d (ready, d')"
  proof (rule poll_driver.raw_induct [where P = ?P, OF _ assms])
    fix poll :: "('a, 'b, 'c) yamux_ops \<Rightarrow> ('a, 'b) driver \<Rightarrow> (bool \<times> ('a, 'b) driver) option"
      and ym :: "('a, 'b, 'c) yamux_ops" and d :: "('a, 'b) driver" and r
    assume IH: "\<And>ym d r. poll ym d = Some r \<Longrightarrow> ?P ym d r"
    assume step: "(let (gone, d1) = take_requests d in
        if gone then Some (True, d1)
        else case answer_pending ym False d1 of
             (None, d2) \<Rightarrow> Some (True, d2)
           | (Some progressed, d2) \<Rightarrow>
               (case ym_poll_next_inbound ym (dr_connection d2) of
                  (Some (Some (Inr _)), c) \<Rightarrow> poll ym (d2\<lparr>dr_connection := c\<rparr>)
                | (Some (Some (Inl _)), c) \<Rightarrow> Some (True, d2\<lparr>dr_connection := c\<rparr>)
                | (Some None, c) \<Rightarrow> Some (True, d2\<lparr>dr_connection := c\<rparr>)
                | (None, c) \<Rightarrow>
                    if progressed then poll ym (d2\<lparr>dr_connection := c\<rparr>)
                    else Some (False, d2\<lparr>dr_connection := c\<rparr>))) = Some r"
    define d1 where "d1 = d\<lparr>dr_queue := [], dr_pending := dr_pending d @ dr_queue d\<rparr>"
    have d1: "keeps_order d d1" by (simp add: d1_def keeps_order_def ledger_def)
    show "?P ym d r"
    proof (cases "dr_open d")
      case False
      with step show ?thesis by (auto simp: take_requests_eq d1 d1_def [symmetric]) (simp add: d1_def)
    next
      case alive: True
      obtain outcome d2 where d2: "answer_pending ym False d1 = (outcome, d2)" by fastforce
      have kept: "keeps_order d d2"
        using keeps_order_trans [OF d1] answer_pending_keeps [of d1 ym False] d2 by simp
      show ?thesis
      proof (cases outcome)
        case None
        with step alive d2 kept answer_pending_outcome [OF d2] show ?thesis
          by (auto simp: take_requests_eq d1_def [symmetric])
      next
        case (Some progressed)
        obtain polled c where c: "ym_poll_next_inbound ym (dr_connection d2) = (polled, c)" by fastforce
        have again: "?P ym d r" if "poll ym (d2\<lparr>dr_connection := c\<rparr>) = Some r"
          using IH [OF that] keeps_order_trans [of d "d2\<lparr>dr_connection := c\<rparr>"] kept by auto
        have over: "connection_over ym c" if "polled = Some None \<or> polled = Some (Some (Inl ()))"
          using that c unfolding connection_over_def by auto
        have idle: "parked ym (d2\<lparr>dr_connection := c\<rparr>)" if "polled = None" "\<not> progressed"
        proof -
          have stays: "answer_pending ym False d1 = (Some False, d2)" using d2 Some that by simp
          have "dr_open d2" "dr_queue d2 = []"
            using alive kept answer_pending_outcome [OF stays] by (simp_all add: keeps_order_def d1_def)
          moreover have "(if dr_pending d2 = [] then dr_connection d2 = dr_connection d1
              else ym_poll_new_outbound ym (dr_connection d1) = (None, dr_connection d2)) \<and>
            ym_poll_next_inbound ym (dr_connection d2) = (None, c)"
            using answer_pending_idle [OF stays] c that by simp
          ultimately show ?thesis unfolding parked_def by (cases "dr_pending d2 = []") auto
        qed
        from step alive d2 c Some show ?thesis
          using again over idle kept
          by (cases r) (auto simp: take_requests_eq d1_def [symmetric] split: option.splits sum.splits if_splits)
      qed
    qed
  qed
  then show ?thesis by (cases ready) simp_all
qed

section \<open>A poll returns\<close>

text \<open>
  What the loop relies on: some measure of the work that the connection has ready falls with every
  inbound stream it yields, and no poll raises it.
\<close>

definition finite_work :: "('c, 's, 'b) yamux_ops \<Rightarrow> ('c \<Rightarrow> nat) \<Rightarrow> bool" where
  "finite_work ym work \<longleftrightarrow>
     (\<forall>c. work (snd (ym_poll_new_outbound ym c)) \<le> work c \<and>
        (case ym_poll_next_inbound ym c of
           (Some (Some (Inr _)), c') \<Rightarrow> work c' < work c
         | (_, c') \<Rightarrow> work c' \<le> work c))"

lemma answer_pending_work:
  assumes "finite_work ym work" "answer_pending ym progressed d = (Some made, d')"
  shows "work (dr_connection d') \<le> work (dr_connection d) \<and>
    length (dr_pending d') + (if made \<and> \<not> progressed then 1 else 0) \<le> length (dr_pending d)"
  using assms
proof (induction ym progressed d arbitrary: made d' rule: answer_pending.induct)
  case (1 ym progressed d)
  show ?case
  proof (cases "dr_pending d")
    case (Cons request rest)
    obtain polled c where c: "ym_poll_new_outbound ym (dr_connection d) = (polled, c)" by fastforce
    have less: "work c \<le> work (dr_connection d)"
      using 1(2) [unfolded finite_work_def, THEN spec, THEN conjunct1, of "dr_connection d"] c by simp
    show ?thesis
    proof (cases polled)
      case None
      with 1(3) Cons c less show ?thesis by (auto simp: answer_pending.simps [of _ _ d])
    next
      case (Some result)
      show ?thesis
      proof (cases result)
        case (Inl u)
        with 1(3) Cons c Some show ?thesis by (auto simp: answer_pending.simps [of _ _ d])
      next
        case (Inr s)
        with 1(3) Cons c Some have "answer_pending ym True
            (d\<lparr>dr_connection := c, dr_pending := rest, dr_replies := dr_replies d @ [(request, AnswerStream s)]\<rparr>) =
          (Some made, d')" by (simp add: answer_pending.simps [of _ _ d])
        from 1(1) [OF Cons c [symmetric] Some Inr 1(2) this] less Cons show ?thesis by auto
      qed
    qed
  qed (use 1(3) in \<open>auto simp: answer_pending.simps [of _ _ d]\<close>)
qed

lemma poll_driver_returns:
  assumes "finite_work ym work"
  shows "\<exists>r. poll_driver ym d = Some r"
proof (induction "work (dr_connection d) + length (dr_pending d) + length (dr_queue d)" arbitrary: d
    rule: less_induct)
  case less
  let ?d1 = "d\<lparr>dr_queue := [], dr_pending := dr_pending d @ dr_queue d\<rparr>"
  show ?case
  proof (cases "dr_open d")
    case False
    then show ?thesis by (subst poll_driver.simps) (auto simp: take_requests_eq)
  next
    case alive: True
    obtain outcome d2 where d2: "answer_pending ym False ?d1 = (outcome, d2)" by fastforce
    show ?thesis
    proof (cases outcome)
      case None
      with alive d2 show ?thesis by (subst poll_driver.simps) (auto simp: take_requests_eq)
    next
      case (Some progressed)
      obtain polled c where c: "ym_poll_next_inbound ym (dr_connection d2) = (polled, c)" by fastforce
      have left: "work (dr_connection d2) + length (dr_pending d2) + (if progressed then 1 else 0)
          \<le> work (dr_connection d) + length (dr_pending d) + length (dr_queue d)"
        using answer_pending_work [OF assms d2 [unfolded Some]] by simp
      have inbound: "case polled of Some (Some (Inr _)) \<Rightarrow> work c < work (dr_connection d2)
          | _ \<Rightarrow> work c \<le> work (dr_connection d2)"
        using assms [unfolded finite_work_def, THEN spec, THEN conjunct2, of "dr_connection d2"] c
        by (simp split: option.splits sum.splits)
      have queue: "dr_queue d2 = []" using answer_pending_outcome [OF d2] Some by simp
      have again: "\<exists>r. poll_driver ym (d2\<lparr>dr_connection := c\<rparr>) = Some r"
        if "progressed \<and> polled = None \<or> (\<exists>s. polled = Some (Some (Inr s)))"
        using less [of "d2\<lparr>dr_connection := c\<rparr>"] that left inbound queue by (auto split: if_splits)
      from alive d2 c Some again show ?thesis
        by (subst poll_driver.simps) (auto simp: take_requests_eq split: option.splits sum.splits)
    qed
  qed
qed

section \<open>Runs of the driver\<close>

fun submitted :: "'b driver_event list \<Rightarrow> nat list" where
  "submitted [] = []"
| "submitted (Submit r # events) = r # submitted events"
| "submitted (_ # events) = submitted events"

lemma submitted_append: "submitted (xs @ ys) = submitted xs @ submitted ys"
  by (induction xs rule: submitted.induct) simp_all

definition settled :: "('c, 's) driver \<Rightarrow> bool" where
  "settled d \<longleftrightarrow> (dr_running d \<or> dr_pending d = [] \<and> dr_queue d = [])"

lemma finish_facts [simp]:
  "ledger (finish d) = ledger d" "prefix (dr_replies d) (dr_replies (finish d))"
  "settled (finish d)" "dr_running (finish d) = False" "dr_connection (finish d) = dr_connection d"
  by (simp_all add: finish_def ledger_def settled_def comp_def)

lemma drive_step_order:
  assumes "drive_step ym event d = Some d'" "settled d"
  shows "settled d' \<and> prefix (dr_replies d) (dr_replies d') \<and>
    (ledger d' = ledger d \<or> ledger d' = ledger d @ submitted [event])"
proof (cases "dr_running d")
  case True
  show ?thesis
  proof (cases event)
    case Polled
    with assms True obtain ready d1 where d1: "poll_driver ym d = Some (ready, d1)"
      "d' = (if ready then finish d1 else d1)"
      by (auto simp: drive_step_def split: option.splits)
    have "keeps_order d d1" using poll_driver_outcome [OF d1(1)] by simp
    then have kept: "ledger d1 = ledger d" "prefix (dr_replies d) (dr_replies d1)" "dr_running d1"
      using True by (simp_all add: keeps_order_def)
    then show ?thesis
      using d1(2) prefix_order.trans [OF kept(2) finish_facts(2)] by (cases ready) (simp, simp add: settled_def)
  qed (use assms True in \<open>auto simp: drive_step_def finish_def ledger_def settled_def comp_def split: if_splits\<close>)
qed (use assms in \<open>simp add: drive_step_def\<close>)

lemma drive_order:
  assumes "drive_multiplexer ym events d = Some d'" "settled d"
  shows "settled d' \<and> prefix (dr_replies d) (dr_replies d') \<and>
    (\<exists>taken. ledger d' = ledger d @ taken \<and> subseq taken (submitted events))"
  using assms
proof (induction events arbitrary: d)
  case (Cons event events)
  from Cons.prems(1) obtain d1 where d1: "drive_step ym event d = Some d1"
    "drive_multiplexer ym events d1 = Some d'" by (auto simp: bind_eq_Some_conv)
  note one = drive_step_order [OF d1(1) Cons.prems(2)]
  with Cons.IH [OF d1(2)] obtain taken where taken: "settled d'" "prefix (dr_replies d1) (dr_replies d')"
    "ledger d' = ledger d1 @ taken" "subseq taken (submitted events)" by auto
  have "submitted (event # events) = submitted [event] @ submitted events"
    using submitted_append [of "[event]" events] by simp
  with taken one show ?case
    by (auto intro: prefix_order.trans list_emb_append_mono)
qed auto

text \<open>The streams that requests have been given.\<close>

definition given :: "('c, 's) driver \<Rightarrow> 's list" where
  "given d = concat (map (\<lambda>(r, a). case a of AnswerStream s \<Rightarrow> [s] | _ \<Rightarrow> []) (dr_replies d))"

text \<open>
  What yamux promises of a stream it opens: it is none of those issued before; nothing forgets one.
\<close>

definition issues_fresh :: "('c, 's, 'b) yamux_ops \<Rightarrow> ('c \<Rightarrow> 's set) \<Rightarrow> bool" where
  "issues_fresh ym issued \<longleftrightarrow>
     (\<forall>c. (case ym_poll_new_outbound ym c of
             (Some (Inr s), c') \<Rightarrow> s \<notin> issued c \<and> insert s (issued c) \<subseteq> issued c'
           | (_, c') \<Rightarrow> issued c \<subseteq> issued c') \<and>
        issued c \<subseteq> issued (snd (ym_poll_next_inbound ym c)) \<and>
        (\<forall>b. issued c \<subseteq> issued (ym_receive ym b c)))"

definition unshared :: "('c \<Rightarrow> 's set) \<Rightarrow> ('c, 's) driver \<Rightarrow> bool" where
  "unshared issued d \<longleftrightarrow> distinct (given d) \<and> set (given d) \<subseteq> issued (dr_connection d)"

lemma no_streams [simp]: "concat (map (\<lambda>r. []) xs) = []"
  by (induction xs) simp_all

lemma given_simps [simp]:
  "given (d\<lparr>dr_connection := c\<rparr>) = given d" "given (d\<lparr>dr_queue := q\<rparr>) = given d"
  "given (d\<lparr>dr_pending := q\<rparr>) = given d" "given (d\<lparr>dr_open := b\<rparr>) = given d"
  "given (d\<lparr>dr_running := b\<rparr>) = given d"
  by (simp_all add: given_def)

lemma given_finish [simp]: "given (finish d) = given d"
  by (simp add: given_def finish_def comp_def)

lemma answer_pending_unshared:
  assumes "issues_fresh ym issued" "unshared issued d"
  shows "unshared issued (snd (answer_pending ym progressed d))"
  using assms
proof (induction ym progressed d rule: answer_pending.induct)
  case (1 ym progressed d)
  show ?case
  proof (cases "dr_pending d")
    case (Cons request rest)
    obtain polled c where c: "ym_poll_new_outbound ym (dr_connection d) = (polled, c)" by fastforce
    note law = 1(2) [unfolded issues_fresh_def, THEN spec, THEN conjunct1, of "dr_connection d", unfolded c]
    show ?thesis
    proof (cases polled)
      case None
      with law 1(3) Cons c show ?thesis by (subst answer_pending.simps) (auto simp: unshared_def)
    next
      case (Some result)
      show ?thesis
      proof (cases result)
        case (Inl u)
        with law 1(3) Cons c Some show ?thesis
          by (subst answer_pending.simps) (auto simp: unshared_def given_def comp_def)
      next
        case (Inr s)
        have "unshared issued (d\<lparr>dr_connection := c, dr_pending := rest,
            dr_replies := dr_replies d @ [(request, AnswerStream s)]\<rparr>)"
          using law 1(3) Some Inr by (auto simp: unshared_def given_def)
        with 1(1) [OF Cons c [symmetric] Some Inr 1(2)] Cons c Some Inr show ?thesis
          by (subst answer_pending.simps) simp
      qed
    qed
  qed (use 1(3) in \<open>simp add: answer_pending.simps\<close>)
qed

lemma poll_driver_preserves:
  assumes "poll_driver ym d = Some (ready, d')" "I d"
    and take: "\<And>d. I d \<Longrightarrow> I (snd (take_requests d))"
    and pending: "\<And>d. I d \<Longrightarrow> I (snd (answer_pending ym False d))"
    and inbound: "\<And>d. I d \<Longrightarrow> I (d\<lparr>dr_connection := snd (ym_poll_next_inbound ym (dr_connection d))\<rparr>)"
  shows "I d'"
proof -
  let ?P = "\<lambda>ym' d (ready, d'). ym' = ym \<longrightarrow> I d \<longrightarrow> I d'"
  have "?P ym d (ready, d')"
  proof (rule poll_driver.raw_induct [where P = ?P, OF _ assms(1)], goal_cases)
    case (1 poll ym' d r)
    obtain gone d1 where d1: "take_requests d = (gone, d1)" by fastforce
    obtain outcome d2 where d2: "answer_pending ym' False d1 = (outcome, d2)" by fastforce
    obtain polled c where c: "ym_poll_next_inbound ym' (dr_connection d2) = (polled, c)" by fastforce
    have kept: "I d1 \<and> I d2 \<and> I (d2\<lparr>dr_connection := c\<rparr>)" if "ym' = ym" "I d"
      using that take [of d] pending [of d1] inbound [of d2] d1 d2 c by simp
    have again: "?P ym' (d2\<lparr>dr_connection := c\<rparr>) r" if "poll ym' (d2\<lparr>dr_connection := c\<rparr>) = Some r"
      by (rule 1(1) [OF that])
    from 1(2) d1 d2 c kept again show ?case
      by (cases r; cases outcome; cases polled; simp split: option.splits sum.splits if_splits; blast)
  qed
  with assms(2) show ?thesis by simp
qed

lemma issues_freshD:
  assumes "issues_fresh ym issued"
  shows "issued c \<subseteq> issued (snd (ym_poll_next_inbound ym c))" "issued c \<subseteq> issued (ym_receive ym b c)"
  using assms by (simp_all add: issues_fresh_def)

lemma drive_step_unshared:
  assumes "issues_fresh ym issued" "drive_step ym event d = Some d'" "unshared issued d"
  shows "unshared issued d'"
proof (cases "event = Polled \<and> dr_running d")
  case True
  with assms(2) obtain ready d1 where d1: "poll_driver ym d = Some (ready, d1)"
    "d' = (if ready then finish d1 else d1)"
    by (auto simp: drive_step_def split: option.splits)
  have "unshared issued d1"
  proof (rule poll_driver_preserves [where I = "unshared issued", OF d1(1) assms(3)])
    show "unshared issued (snd (take_requests e))" if "unshared issued e" for e :: "('a, 'b) driver"
      using that by (simp add: take_requests_eq unshared_def)
    show "unshared issued (snd (answer_pending ym False e))" if "unshared issued e" for e
      by (rule answer_pending_unshared [OF assms(1) that])
    show "unshared issued (e\<lparr>dr_connection := snd (ym_poll_next_inbound ym (dr_connection e))\<rparr>)"
      if "unshared issued e" for e :: "('a, 'b) driver"
      using that issues_freshD(1) [OF assms(1)] by (simp add: unshared_def) blast
  qed
  with d1(2) show ?thesis by (simp add: unshared_def)
next
  case False
  show ?thesis
  proof (cases "\<exists>b. event = Received b \<and> dr_running d")
    case True
    then obtain b where "event = Received b" "dr_running d" by blast
    then have d': "d' = d\<lparr>dr_connection := ym_receive ym b (dr_connection d)\<rparr>"
      using assms(2) by (simp add: drive_step_def)
    have "set (given d) \<subseteq> issued (ym_receive ym b (dr_connection d))"
      using assms(3) issues_freshD(2) [OF assms(1)] unfolding unshared_def by (meson subset_trans)
    with assms(3) show ?thesis by (simp add: d' unshared_def)
  next
    case nothing_received: False
    with False assms(2,3) show ?thesis
      by (cases event) (auto simp: drive_step_def unshared_def split: if_splits)
  qed
qed

lemma drive_unshared:
  assumes "issues_fresh ym issued" "drive_multiplexer ym events d = Some d'" "unshared issued d"
  shows "unshared issued d'"
  using assms(2,3)
proof (induction events arbitrary: d)
  case (Cons event events)
  then obtain d1 where "drive_step ym event d = Some d1" "drive_multiplexer ym events d1 = Some d'"
    by (auto simp: bind_eq_Some_conv)
  with Cons drive_step_unshared [OF assms(1)] show ?case by blast
qed simp

section \<open>Properties\<close>

text \<open>
  A connection for the witnesses: the id of the next stream, how many more may be opened, and how many
  inbound streams are ready. A byte received grants that many openings.
\<close>

definition sample_yamux :: "(nat \<times> nat \<times> nat, nat, nat) yamux_ops" where
  "sample_yamux =
     \<lparr>ym_poll_new_outbound = (\<lambda>(n, budget, inbound).
        if budget = 0 then (None, (n, budget, inbound)) else (Some (Inr n), (Suc n, budget - 1, inbound))),
      ym_poll_next_inbound = (\<lambda>(n, budget, inbound).
        if inbound = 0 then (None, (n, budget, inbound)) else (Some (Some (Inr n)), (Suc n, budget, inbound - 1))),
      ym_receive = (\<lambda>b (n, budget, inbound). (n, budget + b, inbound))\<rparr>"

lemma sample_yamux_laws:
  "finite_work sample_yamux (\<lambda>(n, budget, inbound). inbound)"
  "issues_fresh sample_yamux (\<lambda>(n, budget, inbound). {..<n})"
  by (auto simp: finite_work_def issues_fresh_def sample_yamux_def)

definition sample_driver_run :: "nat driver_event list" where
  "sample_driver_run = [Submit 5, Submit 6, Submit 7, Polled, Received 1, Polled]"

lemma sample_driver_run_eq:
  "drive_multiplexer sample_yamux sample_driver_run (start_driver (0, 1, 1)) =
     Some \<lparr>dr_connection = (3, 0, 0), dr_queue = [], dr_open = True, dr_pending = [7],
       dr_replies = [(5, AnswerStream 0), (6, AnswerStream 2)], dr_running = True\<rparr>"
  by (simp add: sample_driver_run_def sample_yamux_def drive_step_def start_driver_def command_capacity_def
      poll_driver.simps take_requests_eq answer_pending.simps)

text \<open>C13: One poll of the driver of a tunnel always returns, provided the connection has only finitely much
  work ready. When it leaves the task pending, nothing can be done that the task would not be woken
  for: the request channel has been emptied and the connection was asked last, both for a stream (if a
  request still waits) and for an inbound stream, and had neither. It completes only when no handle is
  left or the connection is over. No request is lost or reordered and no answer is changed.\<close>

theorem poll_parks_or_ends:
  assumes "finite_work ym work"
  shows "\<exists>ready d'. poll_driver ym d = Some (ready, d') \<and>
    (if ready then \<not> dr_open d' \<or> connection_over ym (dr_connection d') else parked ym d') \<and>
    ledger d' = ledger d \<and> prefix (dr_replies d) (dr_replies d')"
proof -
  obtain ready d' where poll: "poll_driver ym d = Some (ready, d')"
    using poll_driver_returns [OF assms, of d] by auto
  from poll_driver_outcome [OF poll] poll show ?thesis
    by (intro exI [of _ ready] exI [of _ d']) (cases ready; simp add: keeps_order_def)
qed

lemma poll_parks_or_ends_witness:
  "\<exists>ready d'. poll_driver sample_yamux (start_driver (0, 1, 1)) = Some (ready, d') \<and>
    (if ready then \<not> dr_open d' \<or> connection_over sample_yamux (dr_connection d') else parked sample_yamux d') \<and>
    ledger d' = ledger (start_driver (0, 1, 1) :: (nat \<times> nat \<times> nat, nat) driver) \<and>
    prefix (dr_replies (start_driver (0, 1, 1) :: (nat \<times> nat \<times> nat, nat) driver)) (dr_replies d')"
  by (rule poll_parks_or_ends [OF sample_yamux_laws(1)])

text \<open>C14: Stream requests are answered first come, first served: the requests that the driver accepted are a
  subsequence of those submitted, in order, and the answers go to an initial part of them. Later events
  only append: no answer is taken back or changed. Once the task has ended, every accepted request has
  its answer (if only that the request was dropped), so no caller is left waiting for one.\<close>

theorem requests_answered_in_order:
  fixes ym :: "('c, 's, 'b) yamux_ops"
  assumes "drive_multiplexer ym before (start_driver c) = Some d" "drive_multiplexer ym after d = Some d'"
  shows "subseq (ledger d') (submitted (before @ after)) \<and> prefix (map fst (dr_replies d')) (ledger d') \<and>
    prefix (ledger d) (ledger d') \<and> prefix (dr_replies d) (dr_replies d') \<and>
    (dr_running d' \<or> map fst (dr_replies d') = ledger d')"
proof -
  have "settled (start_driver c :: ('c, 's) driver)" and start: "ledger (start_driver c :: ('c, 's) driver) = []"
    by (simp_all add: start_driver_def settled_def ledger_def)
  from drive_order [OF assms(1) this(1)] start have d: "settled d" "subseq (ledger d) (submitted before)" by auto
  from drive_order [OF assms(2) d(1)] obtain taken where d': "settled d'"
    "prefix (dr_replies d) (dr_replies d')" "ledger d' = ledger d @ taken" "subseq taken (submitted after)"
    by auto
  moreover have "subseq (ledger d') (submitted (before @ after))"
    using d(2) d'(3,4) by (simp add: submitted_append list_emb_append_mono)
  moreover have "prefix (map fst (dr_replies d')) (ledger d')" by (simp add: ledger_def)
  moreover have "dr_running d' \<or> map fst (dr_replies d') = ledger d'"
    using d'(1) by (auto simp: settled_def ledger_def)
  ultimately show ?thesis by simp
qed

lemma requests_answered_in_order_witness:
  "\<exists>(d :: (nat \<times> nat \<times> nat, nat) driver) d'.
     drive_multiplexer sample_yamux sample_driver_run (start_driver (0, 1, 1)) = Some d \<and>
     drive_multiplexer sample_yamux [Aborted] d = Some d' \<and>
     map fst (dr_replies d') = [5, 6, 7] \<and> prefix (dr_replies d) (dr_replies d')"
proof -
  obtain d d' :: "(nat \<times> nat \<times> nat, nat) driver" where run: "drive_multiplexer sample_yamux sample_driver_run (start_driver (0, 1, 1)) = Some d"
    "drive_multiplexer sample_yamux [Aborted] d = Some d'" "map fst (dr_replies d') = [5, 6, 7]"
    using sample_driver_run_eq by (simp add: drive_step_def finish_def)
  from requests_answered_in_order [OF run(1,2)] have "prefix (dr_replies d) (dr_replies d')" by blast
  with run show ?thesis by (intro exI [of _ d] exI [of _ d'] conjI)
qed

text \<open>Two callers never share a stream: if the connection issues each outbound stream once, the streams
  handed to requests are pairwise different and all come from the connection, whatever happened to
  the tunnel.\<close>

lemma streams_are_not_shared:
  assumes "issues_fresh ym issued" "drive_multiplexer ym events (start_driver c) = Some d"
  shows "distinct (given d) \<and> set (given d) \<subseteq> issued (dr_connection d)"
  using drive_unshared [OF assms] by (simp add: unshared_def start_driver_def given_def)

lemma streams_are_not_shared_witness:
  "\<exists>d. drive_multiplexer sample_yamux sample_driver_run (start_driver (0, 1, 1)) = Some d \<and>
     given d = [0, 2] \<and> distinct (given d) \<and> set (given d) \<subseteq> {..<fst (dr_connection d)}"
proof -
  obtain d where run: "drive_multiplexer sample_yamux sample_driver_run (start_driver (0, 1, 1)) = Some d"
    "given d = [0, 2]" "fst (dr_connection d) = 3"
    using sample_driver_run_eq by (simp add: given_def)
  from streams_are_not_shared [OF sample_yamux_laws(2) run(1)] run show ?thesis
    by (intro exI [of _ d]) (simp add: case_prod_beta)
qed

end
