(* ===== verification/Tunnel_Tasks.thy ===== *)
theory Tunnel_Tasks
  imports Relay_Node_Laws Multiplexer
begin

text \<open>
  One running tunnel as its tasks (\<^verbatim>\<open>run\<close> in \<^verbatim>\<open>src/tunnel/session.rs\<close>): the reader, the writer and the driver of
  the multiplexed connection, with the channels between them, inside the step relation of \<open>Relay_Node\<close>. What
  \<open>read_frames\<close> and \<open>write_frames\<close> do in a round is here a step of its own, so that a task can wait: the reader
  for room in the driver's channel, the writer for the socket, the session for the writer.
\<close>

section \<open>Tasks and channels\<close>

text \<open>
  The reader waits for the socket, hands a frame to the driver, has left its loop and waits for the writer,
  or has cleaned up. The writer waits in \<^verbatim>\<open>select!\<close>, for the socket to take a message, or for it to close.
\<close>

datatype 'b reader = Reading | Handing 'b | Leaving close_cause | Departed close_cause

datatype 'b writer = Selecting | Sending "'b ws_message" | Shutting | Finished

text \<open>
  The channels hold what was sent and not yet received. The last four fields record what has passed: the
  frames read from the socket, those the connection has taken, those it has produced, and the messages
  the socket has taken.
\<close>

record ('l, 'c, 's, 'b) session =
  ss_site :: "'l site"
  ss_reader :: "'b reader"
  ss_writer :: "'b writer"
  ss_driver :: "('c, 's) driver"
  ss_inbound :: "'b list"
  ss_data :: "'b list"
  ss_aborted :: bool
  ss_shutdown :: bool
  ss_heard :: "'b list"
  ss_fed :: "'b list"
  ss_produced :: "'b list"
  ss_written :: "'b ws_message list"

fun message_of :: "outgoing \<Rightarrow> 'b ws_message" where
  "message_of (Control frame) = WsText frame"
| "message_of (Close code reason) = WsClose code reason"

definition on_shared :: "('l relay \<Rightarrow> 'l relay) \<Rightarrow> ('l, 'c, 's, 'b) session \<Rightarrow> ('l, 'c, 's, 'b) session" where
  "on_shared f z = z\<lparr>ss_site := put_system ((si_system (ss_site z))
     \<lparr>sy_relay := f (sy_relay (si_system (ss_site z)))\<rparr>) (ss_site z)\<rparr>"

definition shared :: "('l, 'c, 's, 'b) session \<Rightarrow> 'l relay" where
  "shared z = sy_relay (si_system (ss_site z))"

text \<open>The reading loop returns: the close is queued, the driver aborted.\<close>

definition leave :: "'l externals \<Rightarrow> tunnel_task \<Rightarrow> close_cause \<Rightarrow> ('l, 'c, 's, 'b) session \<Rightarrow> ('l, 'c, 's, 'b) session" where
  "leave x t cause z = (on_shared (tunnel_leave x (tt_handle t)) z)\<lparr>ss_reader := Leaving cause, ss_aborted := True\<rparr>"

text \<open>The driver after a step of its own: once its task is over, its end of the inbound channel is gone.\<close>

definition put_driver :: "('c, 's) driver \<Rightarrow> ('l, 'c, 's, 'b) session \<Rightarrow> ('l, 'c, 's, 'b) session" where
  "put_driver d z = z\<lparr>ss_driver := d, ss_inbound := if dr_running d then ss_inbound z else []\<rparr>"

text \<open>
  The steps of a session that serves the task \<open>t\<close>. In \<open>Outside\<close> the rest of the relay, its upstream link included, takes a step: it may
  queue commands for this tunnel and takes none. Its two premises only keep the steps of this session out of it, its clean-up and
  its writer taking a command, which are \<open>CleanedUp\<close> and \<open>TakesCommand\<close> (lemma \<open>outside_excludes\<close>); being among the tasks
  says nothing of the routing table, where a newer tunnel of the device takes the place of this one while the session still runs.
  Frames that cannot be decoded and WebSocket pings are
  read without effect and are no step; \<^verbatim>\<open>outgoing.recv\<close> never returns \<^verbatim>\<open>None\<close>, since the session holds a handle. What the
  connection writes is up to yamux.
\<close>

inductive tasks_step ::
  "'l externals \<Rightarrow> ('h, 'v, 'u, 'q, 'w) proxy_ops \<Rightarrow> ('h, 'v) link_ops \<Rightarrow> (string \<Rightarrow> string option) \<Rightarrow> ('c, 's, 'b) yamux_ops
     \<Rightarrow> tunnel_task \<Rightarrow> ('l, 'c, 's, 'b) session \<Rightarrow> ('l, 'c, 's, 'b) session \<Rightarrow> bool"
  for x :: "'l externals" and p :: "('h, 'v, 'u, 'q, 'w) proxy_ops" and lo :: "('h, 'v) link_ops" and assets :: "string \<Rightarrow> string option"
    and ym :: "('c, 's, 'b) yamux_ops" and t :: tunnel_task where
  Outside: "site_step x p lo assets (ss_site z) y \<Longrightarrow> t \<in> set (sy_tasks (si_system y)) \<Longrightarrow>
    prefix (pending (tt_handle t) (shared z)) (pending (tt_handle t) (sy_relay (si_system y))) \<Longrightarrow>
    tasks_step x p lo assets ym t z (z\<lparr>ss_site := y\<rparr>)"
| ReadShutdown: "ss_reader z = Reading \<Longrightarrow> ss_shutdown z \<Longrightarrow> tasks_step x p lo assets ym t z (leave x t Local z)"
| ReadIdle: "ss_reader z = Reading \<Longrightarrow> tasks_step x p lo assets ym t z (leave x t Idle z)"
| ReadEnd: "ss_reader z = Reading \<Longrightarrow> tasks_step x p lo assets ym t z (leave x t PeerClosed z)"
| ReadFailure: "ss_reader z = Reading \<Longrightarrow> tasks_step x p lo assets ym t z (leave x t Transport z)"
| ReadControl: "ss_reader z = Reading \<Longrightarrow> tt_phase t = Running serial kind \<Longrightarrow>
    tasks_step x p lo assets ym t z (on_shared (handle_control_frame x (tt_handle t) kind frame) z)"
| ReadData: "ss_reader z = Reading \<Longrightarrow>
    tasks_step x p lo assets ym t z (z\<lparr>ss_reader := Handing b, ss_heard := ss_heard z @ [b]\<rparr>)"
| Handed: "ss_reader z = Handing b \<Longrightarrow> dr_running (ss_driver z) \<Longrightarrow> length (ss_inbound z) < frame_queue_capacity \<Longrightarrow>
    tasks_step x p lo assets ym t z (z\<lparr>ss_reader := Reading, ss_inbound := ss_inbound z @ [b]\<rparr>)"
| HandingFailed: "ss_reader z = Handing b \<Longrightarrow> \<not> dr_running (ss_driver z) \<Longrightarrow>
    tasks_step x p lo assets ym t z (leave x t Transport z)"
| CleanedUp: "ss_reader z = Leaving cause \<Longrightarrow> ss_writer z = Finished \<Longrightarrow> tt_phase t = Running serial kind \<Longrightarrow>
    tasks_step x p lo assets ym t z (z\<lparr>ss_reader := Departed cause,
      ss_site := put_system ((si_system (ss_site z))
        \<lparr>sy_relay := tunnel_disconnect x (tt_device t) (tt_peer t) serial cause (shared z),
          sy_tasks := remove1 t (sy_tasks (si_system (ss_site z)))\<rparr>) (ss_site z)\<rparr>)"
| TakesData: "ss_writer z = Selecting \<Longrightarrow> ss_data z = b # rest \<Longrightarrow>
    tasks_step x p lo assets ym t z (z\<lparr>ss_writer := Sending (WsBinary b), ss_data := rest\<rparr>)"
| DataGone: "ss_writer z = Selecting \<Longrightarrow> ss_data z = [] \<Longrightarrow> \<not> dr_running (ss_driver z) \<Longrightarrow>
    tasks_step x p lo assets ym t z (z\<lparr>ss_writer := Shutting\<rparr>)"
| TakesCommand: "ss_writer z = Selecting \<Longrightarrow> rl_outbox (shared z) = before @ (h, m) # after \<Longrightarrow>
    th_channel h = th_channel (tt_handle t) \<Longrightarrow> \<forall>n \<in> set before. th_channel (fst n) \<noteq> th_channel h \<Longrightarrow>
    tasks_step x p lo assets ym t z ((on_shared (rl_outbox_update (\<lambda>_. before @ after)) z)\<lparr>ss_writer := Sending (message_of m)\<rparr>)"
| TakesPing: "ss_writer z = Selecting \<Longrightarrow> tasks_step x p lo assets ym t z (z\<lparr>ss_writer := Sending (WsText Ping)\<rparr>)"
| Sent: "ss_writer z = Sending m \<Longrightarrow>
    tasks_step x p lo assets ym t z (z\<lparr>ss_written := ss_written z @ [m],
      ss_writer := (case m of WsClose _ _ \<Rightarrow> Shutting | _ \<Rightarrow> Selecting)\<rparr>)"
| SendingFailed: "ss_writer z = Sending m \<Longrightarrow> tasks_step x p lo assets ym t z (z\<lparr>ss_writer := Shutting\<rparr>)"
| Closed: "ss_writer z = Shutting \<Longrightarrow>
    tasks_step x p lo assets ym t z (z\<lparr>ss_writer := Finished, ss_data := [], ss_shutdown := True\<rparr>)"
| DriverTakes: "dr_running (ss_driver z) \<Longrightarrow> ss_inbound z = b # rest \<Longrightarrow> drive_step ym (Received b) (ss_driver z) = Some d \<Longrightarrow>
    tasks_step x p lo assets ym t z (z\<lparr>ss_driver := d, ss_inbound := rest, ss_fed := ss_fed z @ [b]\<rparr>)"
| DriverWrites: "dr_running (ss_driver z) \<Longrightarrow> ss_writer z \<noteq> Finished \<Longrightarrow> length (ss_data z) < frame_queue_capacity \<Longrightarrow>
    tasks_step x p lo assets ym t z (z\<lparr>ss_data := ss_data z @ [b], ss_produced := ss_produced z @ [b]\<rparr>)"
| DriverPolled: "drive_step ym Polled (ss_driver z) = Some d \<Longrightarrow> tasks_step x p lo assets ym t z (put_driver d z)"
| Requested: "drive_step ym (Submit r) (ss_driver z) = Some d \<Longrightarrow> tasks_step x p lo assets ym t z (put_driver d z)"
| DriverStops: "ss_aborted z \<Longrightarrow> drive_step ym Aborted (ss_driver z) = Some d \<Longrightarrow>
    tasks_step x p lo assets ym t z (put_driver d z)"

inductive tasks_run ::
  "'l externals \<Rightarrow> ('h, 'v, 'u, 'q, 'w) proxy_ops \<Rightarrow> ('h, 'v) link_ops \<Rightarrow> (string \<Rightarrow> string option) \<Rightarrow> ('c, 's, 'b) yamux_ops
     \<Rightarrow> tunnel_task \<Rightarrow> ('l, 'c, 's, 'b) session \<Rightarrow> ('l, 'c, 's, 'b) session \<Rightarrow> bool"
  for x :: "'l externals" and p :: "('h, 'v, 'u, 'q, 'w) proxy_ops" and lo :: "('h, 'v) link_ops" and assets :: "string \<Rightarrow> string option"
    and ym :: "('c, 's, 'b) yamux_ops" and t :: tunnel_task where
  tasks_start: "tasks_run x p lo assets ym t z z"
| tasks_more: "tasks_run x p lo assets ym t z z1 \<Longrightarrow> tasks_step x p lo assets ym t z1 z2 \<Longrightarrow> tasks_run x p lo assets ym t z z2"

text \<open>The state in which the tasks have been spawned and the tunnel is registered.\<close>

definition spawned :: "'l site \<Rightarrow> 'c \<Rightarrow> ('l, 'c, 's, 'b) session" where
  "spawned y connection =
     \<lparr>ss_site = y, ss_reader = Reading, ss_writer = Selecting, ss_driver = start_driver connection,
      ss_inbound = [], ss_data = [], ss_aborted = False, ss_shutdown = False,
      ss_heard = [], ss_fed = [], ss_produced = [], ss_written = []\<rparr>"

definition serving :: "tunnel_task \<Rightarrow> 'l site \<Rightarrow> bool" where
  "serving t y \<longleftrightarrow> t \<in> set (sy_tasks (si_system y)) \<and> (\<exists>serial kind. tt_phase t = Running serial kind)"

lemma shared_simps [simp]:
  "shared (on_shared f z) = f (shared z)" "sy_tasks (si_system (ss_site (on_shared f z))) = sy_tasks (si_system (ss_site z))"
  "ss_reader (on_shared f z) = ss_reader z" "ss_writer (on_shared f z) = ss_writer z"
  "ss_driver (on_shared f z) = ss_driver z" "ss_inbound (on_shared f z) = ss_inbound z"
  "ss_data (on_shared f z) = ss_data z" "ss_shutdown (on_shared f z) = ss_shutdown z"
  "ss_heard (on_shared f z) = ss_heard z" "ss_fed (on_shared f z) = ss_fed z"
  "ss_produced (on_shared f z) = ss_produced z" "ss_written (on_shared f z) = ss_written z"
  "ss_aborted (on_shared f z) = ss_aborted z" "ss_site (on_shared f z) = put_system ((si_system (ss_site z))\<lparr>sy_relay := f (shared z)\<rparr>) (ss_site z)"
  by (simp_all add: on_shared_def shared_def)

lemma put_driver_simps [simp]:
  "ss_site (put_driver d z) = ss_site z" "ss_reader (put_driver d z) = ss_reader z"
  "ss_writer (put_driver d z) = ss_writer z" "ss_driver (put_driver d z) = d"
  "ss_inbound (put_driver d z) = (if dr_running d then ss_inbound z else [])"
  "ss_data (put_driver d z) = ss_data z" "ss_shutdown (put_driver d z) = ss_shutdown z"
  "ss_heard (put_driver d z) = ss_heard z" "ss_fed (put_driver d z) = ss_fed z"
  "ss_produced (put_driver d z) = ss_produced z" "ss_written (put_driver d z) = ss_written z"
  "ss_aborted (put_driver d z) = ss_aborted z" "shared (put_driver d z) = shared z"
  by (simp_all add: put_driver_def shared_def)

section \<open>What the tasks keep\<close>

fun in_hand :: "'b reader \<Rightarrow> 'b list" where
  "in_hand (Handing b) = [b]"
| "in_hand _ = []"

fun binaries :: "'b ws_message list \<Rightarrow> 'b list" where
  "binaries [] = []"
| "binaries (WsBinary b # ms) = b # binaries ms"
| "binaries (_ # ms) = binaries ms"

fun in_flight :: "'b writer \<Rightarrow> 'b ws_message list" where
  "in_flight (Sending m) = [m]"
| "in_flight _ = []"

definition writer_open :: "'b writer \<Rightarrow> bool" where
  "writer_open w \<longleftrightarrow> w \<noteq> Shutting \<and> w \<noteq> Finished"

lemma writer_open_simps [simp]:
  "writer_open Selecting" "writer_open (Sending m)" "\<not> writer_open Shutting" "\<not> writer_open Finished"
  by (simp_all add: writer_open_def)

lemma binaries_append [simp]: "binaries (xs @ ys) = binaries xs @ binaries ys"
  by (induction xs rule: binaries.induct) simp_all

lemma binaries_message_of [simp]: "binaries [message_of m] = []"
  by (cases m) simp_all

definition streams_ok :: "('l, 'c, 's, 'b) session \<Rightarrow> bool" where
  "streams_ok z \<longleftrightarrow>
     length (ss_inbound z) \<le> frame_queue_capacity \<and> length (ss_data z) \<le> frame_queue_capacity \<and>
     prefix (ss_fed z) (ss_heard z) \<and> prefix (binaries (ss_written z)) (ss_produced z) \<and>
     (dr_running (ss_driver z) \<longrightarrow> ss_fed z @ ss_inbound z @ in_hand (ss_reader z) = ss_heard z) \<and>
     (writer_open (ss_writer z) \<longrightarrow>
        binaries (ss_written z) @ binaries (in_flight (ss_writer z)) @ ss_data z = ss_produced z)"

definition phases_ok :: "tunnel_task \<Rightarrow> ('l, 'c, 's, 'b) session \<Rightarrow> bool" where
  "phases_ok t z \<longleftrightarrow>
     (ss_shutdown z \<longrightarrow> ss_writer z = Finished) \<and> (ss_reader z = Leaving Local \<longrightarrow> ss_writer z = Finished) \<and>
     (\<forall>c. ss_reader z = Departed c \<longrightarrow> ss_writer z = Finished) \<and>
     ((\<exists>c. ss_reader z = Leaving c \<or> ss_reader z = Departed c) \<longrightarrow> ss_aborted z) \<and>
     ((\<forall>c. ss_reader z \<noteq> Departed c) \<longrightarrow> t \<in> set (sy_tasks (si_system (ss_site z))))"

lemma drive_step_running: "drive_step ym e d = Some d' \<Longrightarrow> dr_running d' \<Longrightarrow> dr_running d"
  by (auto simp: drive_step_def split: if_splits)

lemma drive_step_received: "drive_step ym (Received b) d = Some d' \<Longrightarrow> dr_running d \<Longrightarrow> dr_running d'"
  by (auto simp: drive_step_def)

lemma leave_simps [simp]:
  "ss_reader (leave x t c z) = Leaving c" "ss_writer (leave x t c z) = ss_writer z" "ss_driver (leave x t c z) = ss_driver z"
  "ss_inbound (leave x t c z) = ss_inbound z" "ss_data (leave x t c z) = ss_data z" "ss_aborted (leave x t c z)"
  "ss_shutdown (leave x t c z) = ss_shutdown z" "ss_heard (leave x t c z) = ss_heard z" "ss_fed (leave x t c z) = ss_fed z"
  "ss_produced (leave x t c z) = ss_produced z" "ss_written (leave x t c z) = ss_written z"
  "shared (leave x t c z) = tunnel_leave x (tt_handle t) (shared z)"
  "ss_site (leave x t c z) = put_system ((si_system (ss_site z))\<lparr>sy_relay := tunnel_leave x (tt_handle t) (shared z)\<rparr>) (ss_site z)"
  by (simp_all add: leave_def shared_def on_shared_def)

lemma streams_step: "tasks_step x p lo assets ym t z z' \<Longrightarrow> streams_ok z \<Longrightarrow> streams_ok z'"
proof (induction rule: tasks_step.induct)
  case (Handed z b)
  then show ?case by (auto simp: streams_ok_def)
next
  case (ReadData z b)
  then show ?case by (auto simp: streams_ok_def prefix_def)
next
  case (Sent z m)
  then show ?case by (cases m) (auto simp: streams_ok_def prefix_def)
next
  case (TakesCommand z before h m after)
  then show ?case by (cases m) (auto simp: streams_ok_def)
next
  case (DriverTakes z b rest d)
  then show ?case by (auto simp: streams_ok_def prefix_def dest: drive_step_received)
next
  case (DriverWrites z b)
  then show ?case by (auto simp: streams_ok_def prefix_def)
qed (auto simp: streams_ok_def dest: drive_step_running)

lemma phases_step: "tasks_step x p lo assets ym t z z' \<Longrightarrow> phases_ok t z \<Longrightarrow> phases_ok t z'"
  by (induction rule: tasks_step.induct) (auto simp: phases_ok_def)

lemma tasks_run_ok:
  "tasks_run x p lo assets ym t z z' \<Longrightarrow> streams_ok z \<and> phases_ok t z \<Longrightarrow> streams_ok z' \<and> phases_ok t z'"
  by (induction rule: tasks_run.induct) (auto intro: streams_step phases_step)

lemma spawned_ok: "streams_ok (spawned y c)" "serving t y \<Longrightarrow> phases_ok t (spawned y c)"
  by (simp_all add: spawned_def streams_ok_def phases_ok_def serving_def start_driver_def)

lemma spawned_run_ok:
  assumes "serving t y" "tasks_run x p lo assets ym t (spawned y c) z"
  shows "streams_ok z \<and> phases_ok t z"
  by (rule tasks_run_ok [OF assms(2)]) (simp add: spawned_ok assms(1))

section \<open>The session inside the relay\<close>

lemma inside_site:
  "system_step x p assets (si_system y) y' \<Longrightarrow> y'' = put_system y' y \<Longrightarrow> site_step x p lo assets y y''"
  using site_step.Inside by simp

lemma session_step_site:
  assumes "tasks_step x p lo assets ym t z z'" "\<exists>serial kind. tt_phase t = Running serial kind" "phases_ok t z"
  shows "site_step x p lo assets (ss_site z) (ss_site z') \<or> ss_site z' = ss_site z"
  using assms(1,3)
proof (induction rule: tasks_step.induct)
  case (TakesCommand z before h m after)
  have "system_step x p assets (si_system (ss_site z))
      ((si_system (ss_site z))\<lparr>sy_relay := (shared z)\<lparr>rl_outbox := before @ after\<rparr>\<rparr>)"
    unfolding shared_def
    by (rule system_step.Written [where m = "(h, m)"]) (use TakesCommand in \<open>auto simp: shared_def\<close>)
  then have "site_step x p lo assets (ss_site z)
      (put_system ((si_system (ss_site z))\<lparr>sy_relay := (shared z)\<lparr>rl_outbox := before @ after\<rparr>\<rparr>) (ss_site z))"
    by (rule site_step.Inside)
  then show ?case by simp
next
  case (ReadControl z serial kind frame)
  then show ?case by (auto simp: phases_ok_def shared_def intro!: disjI1 inside_site system_step.Frame)
next
  case (CleanedUp z cause serial kind)
  then show ?case by (auto simp: phases_ok_def shared_def intro!: disjI1 inside_site system_step.Ended)
qed (use assms(2) in \<open>auto simp: phases_ok_def shared_def intro!: disjI1 inside_site system_step.Leaves\<close>)

lemma tasks_run_site:
  assumes "tasks_run x p lo assets ym t z z'" "serving t y" "streams_ok z \<and> phases_ok t z"
  shows "site_run x p lo assets (ss_site z) (ss_site z')"
  using assms(1,3)
proof (induction rule: tasks_run.induct)
  case (tasks_more z z1 z2)
  have "phases_ok t z1" using tasks_run_ok [OF tasks_more(1,4)] ..
  moreover have "\<exists>serial kind. tt_phase t = Running serial kind" using assms(2) by (simp add: serving_def)
  ultimately show ?case
    using session_step_site [OF tasks_more(2)] tasks_more(3,4) by (auto intro: site_more)
qed (rule site_start)

lemma drive_multiplexer_snoc:
  "drive_multiplexer ym (events @ [e]) d = Option.bind (drive_multiplexer ym events d) (drive_step ym e)"
proof (induction events arbitrary: d)
  case Nil
  then show ?case by (cases "drive_step ym e d") auto
next
  case (Cons f fs)
  then show ?case by (cases "drive_step ym f d") auto
qed

lemma session_step_driver:
  "tasks_step x p lo assets ym t z z' \<Longrightarrow> ss_driver z' = ss_driver z \<or> (\<exists>e. drive_step ym e (ss_driver z) = Some (ss_driver z'))"
  by (induction rule: tasks_step.induct) auto

lemma tasks_run_driver:
  assumes "tasks_run x p lo assets ym t z z'"
  shows "\<exists>events. drive_multiplexer ym events (ss_driver z) = Some (ss_driver z')"
  using assms
proof (induction rule: tasks_run.induct)
  case (tasks_start z)
  show ?case by (rule exI [of _ "[]"]) simp
next
  case (tasks_more z z1 z2)
  then obtain events where e: "drive_multiplexer ym events (ss_driver z) = Some (ss_driver z1)" by blast
  from session_step_driver [OF tasks_more(2)] show ?case
  proof
    assume "ss_driver z2 = ss_driver z1"
    with e show ?thesis by auto
  next
    assume "\<exists>e. drive_step ym e (ss_driver z1) = Some (ss_driver z2)"
    then obtain f where "drive_step ym f (ss_driver z1) = Some (ss_driver z2)" ..
    with e have "drive_multiplexer ym (events @ [f]) (ss_driver z) = Some (ss_driver z2)"
      by (simp add: drive_multiplexer_snoc)
    then show ?thesis ..
  qed
qed

section \<open>The route to a served tunnel\<close>

text \<open>The channels of the tasks are their own: each was the next unused one when its task was accepted.\<close>

definition channel_of :: "tunnel_task \<Rightarrow> nat" where
  "channel_of t = th_channel (tt_handle t)"

definition channels_ok :: "'l system \<Rightarrow> bool" where
  "channels_ok y \<longleftrightarrow> distinct (map channel_of (sy_tasks y)) \<and> (\<forall>t \<in> set (sy_tasks y). channel_of t < sy_next y)"

lemma distinct_without:
  assumes "distinct (map f ts)" "t \<in> set ts"
  shows "distinct (map f (remove1 t ts)) \<and> f t \<notin> f ` set (remove1 t ts)"
  using assms
proof (induction ts)
  case (Cons a ts)
  then show ?case using set_remove1_subset [of t ts] by (cases "a = t") (auto simp: image_iff)
qed simp

lemma channels_step: "system_step x p assets y y' \<Longrightarrow> channels_ok y \<Longrightarrow> channels_ok y'"
proof (induction rule: system_step.induct)
  case (Upgraded headers ip y d s)
  then show ?case by (fastforce simp: channels_ok_def channel_of_def)
next
  case (Connected t y frame sent hello answer serial s)
  then show ?case
    using distinct_without [of channel_of "sy_tasks y" t] set_remove1_subset [of t "sy_tasks y"]
    by (auto simp: channels_ok_def channel_of_def)
qed (auto simp: channels_ok_def dest: distinct_without subsetD [OF set_remove1_subset])

text \<open>Since \<open>y\<close>: the tasks that were there, admitted meanwhile or not, and later ones.\<close>

definition since :: "'l system \<Rightarrow> 'l system \<Rightarrow> bool" where
  "since y y' \<longleftrightarrow> sy_next y \<le> sy_next y' \<and> (\<forall>u \<in> set (sy_tasks y'). channel_of u < sy_next y \<longrightarrow>
     (\<exists>v \<in> set (sy_tasks y). channel_of v = channel_of u \<and> (v = u \<or> tt_phase v = Accepted)))"

lemma since_refl: "since y y"
  by (auto simp: since_def)

lemma since_step: "system_step x p assets y1 y2 \<Longrightarrow> since y y1 \<Longrightarrow> since y y2"
proof (induction rule: system_step.induct)
  case (Connected t y1 frame sent hello answer serial s)
  then have "channel_of t < sy_next y \<longrightarrow> (\<exists>v \<in> set (sy_tasks y). channel_of v = channel_of t \<and> tt_phase v = Accepted)"
    by (auto simp: since_def)
  with Connected(5) show ?case
    by (auto simp: since_def channel_of_def dest: subsetD [OF set_remove1_subset])
qed (auto simp: since_def channel_of_def dest: subsetD [OF set_remove1_subset])

text \<open>The device has registered another tunnel since \<open>y\<close>.\<close>

definition reconnected :: "'l site \<Rightarrow> tunnel_task \<Rightarrow> 'l site \<Rightarrow> bool" where
  "reconnected y t y' \<longleftrightarrow> (\<exists>u \<in> set (sy_tasks (si_system y')). u \<notin> set (sy_tasks (si_system y)) \<and>
     d_id (tt_device u) = d_id (tt_device t) \<and> (\<exists>serial kind. tt_phase u = Running serial kind))"

lemma admitted_is_new:
  assumes "channels_ok y" "since y y'" "u \<in> set (sy_tasks y')" "tt_phase u = Accepted"
  shows "u\<lparr>tt_phase := Running serial kind\<rparr> \<notin> set (sy_tasks y)"
proof
  let ?u = "u\<lparr>tt_phase := Running serial kind\<rparr>"
  assume u: "?u \<in> set (sy_tasks y)"
  then have "channel_of u < sy_next y" using assms(1) by (auto simp: channels_ok_def channel_of_def)
  with assms(2-4) obtain v where v: "v \<in> set (sy_tasks y)" "channel_of v = channel_of ?u" "tt_phase v = Accepted"
    by (auto simp: since_def channel_of_def)
  with u assms(1) have "v = ?u" by (auto simp: channels_ok_def distinct_map inj_on_def)
  with v(3) show False by simp
qed

text \<open>What can happen to the entry of a tunnel: it stays, its device registers another, or a task with its serial number ends.\<close>

lemma disconnect_others:
  assumes "distinct (map fst (r_entries r))" "map_of (r_entries r) i = Some e" "e_origin e = FromTunnel n" "d \<noteq> i \<or> m \<noteq> n"
  shows "map_of (r_entries (snd (disconnect d m r))) i = Some e"
  using assms
  by (auto simp: disconnect_def disconnect_locked_def publish_def remove_entries_map restrict_map_def set_announced_ids
      Let_def split_beta simp del: map_of_eq_Some_iff split: option.splits)

lemma entry_step:
  assumes "system_step x p assets y y'" "distinct (map fst (r_entries (rl_registry (sy_relay y))))"
    and "map_of (r_entries (rl_registry (sy_relay y))) i = Some e" "e_origin e = FromTunnel n" "is_direct (od_route (e_device e))"
  shows "map_of (r_entries (rl_registry (sy_relay y'))) i = Some e \<or>
    (\<exists>u \<in> set (sy_tasks y). d_id (tt_device u) = i \<and> tt_phase u = Accepted \<and>
       (\<exists>serial kind. u\<lparr>tt_phase := Running serial kind\<rparr> \<in> set (sy_tasks y'))) \<or>
    (\<exists>u \<in> set (sy_tasks y). d_id (tt_device u) = i \<and> (\<exists>kind. tt_phase u = Running n kind) \<and> sy_tasks y' = remove1 u (sy_tasks y))"
  using assms
proof (induction rule: system_step.induct)
  case (Connected t y frame sent hello answer serial s)
  show ?case
  proof (cases "d_id (tt_device t) = i")
    case True
    with Connected(1,2) show ?thesis by auto
  next
    case False
    with connect_effect(3) [OF Connected(4)] Connected(6) show ?thesis by (auto simp: connect_entry presence_of_def)
  qed
next
  case (Frame t y serial kind frame)
  then show ?case
    using handle_control_frame_attached [of "sy_relay y" x "tt_handle t" kind frame] by (auto simp: keeps_attached_def)
next
  case (Ended t y serial kind cause)
  show ?case
  proof (cases "d_id (tt_device t) = i \<and> serial = n")
    case True
    with Ended(1,2) show ?thesis by auto
  next
    case False
    with disconnect_others [OF Ended(3-5), of "d_id (tt_device t)" serial] show ?thesis by (auto simp: disconnect_effect)
  qed
qed (auto dest!: effect_host effect_upgrade simp: effect_reach exec_api_effect [THEN effect_reach] leave_effect [THEN effect_reach])

lemma site_tasks:
  assumes "site_step x p lo assets z z'" "channels_ok (si_system z)" "since y (si_system z)"
  shows "channels_ok (si_system z') \<and> since y (si_system z')"
  using site_step_shape [OF assms(1)] assms(2,3)
  by (auto intro: channels_step since_step) (simp_all add: channels_ok_def since_def)

lemma site_run_channels: "site_run x p lo assets z z' \<Longrightarrow> channels_ok (si_system z) \<Longrightarrow> channels_ok (si_system z')"
  by (induction rule: site_run.induct) (auto dest: site_tasks intro: since_refl)

text \<open>The tunnel is in the table, with its own entry, and no other task of the device has its serial number.\<close>

definition attached_as :: "tunnel_task \<Rightarrow> 'l site \<Rightarrow> entry \<Rightarrow> bool" where
  "attached_as t y e \<longleftrightarrow> map_of (r_entries (rl_registry (sy_relay (si_system y)))) (d_id (tt_device t)) = Some e \<and>
     od_route (e_device e) = Direct (tt_handle t) \<and>
     (\<exists>serial kind. tt_phase t = Running serial kind \<and> e_origin e = FromTunnel serial)"

definition sole_serial :: "tunnel_task \<Rightarrow> 'l site \<Rightarrow> bool" where
  "sole_serial t y \<longleftrightarrow> (\<forall>u \<in> set (sy_tasks (si_system y)). \<forall>serial kind kind'. d_id (tt_device u) = d_id (tt_device t) \<longrightarrow>
     tt_phase t = Running serial kind \<longrightarrow> tt_phase u = Running serial kind' \<longrightarrow> u = t)"

lemma attached_route: "attached_as t y e \<Longrightarrow> route (rl_registry (sy_relay (si_system y))) (d_id (tt_device t)) = Some (Direct (tt_handle t))"
  by (simp add: attached_as_def route_def)

lemma routed_attached:
  assumes "site_inv y" "channels_ok (si_system y)" "t \<in> set (sy_tasks (si_system y))"
    and "route (rl_registry (sy_relay (si_system y))) (d_id (tt_device t)) = Some (Direct (tt_handle t))"
  shows "\<exists>e. attached_as t y e"
proof -
  from assms(4) obtain e where e: "map_of (r_entries (rl_registry (sy_relay (si_system y)))) (d_id (tt_device t)) = Some e"
    "od_route (e_device e) = Direct (tt_handle t)" by (auto simp: route_def)
  with assms(1) have "entry_ok (rl_db (sy_relay (si_system y))) (set (sy_tasks (si_system y))) (d_id (tt_device t)) e"
    by (simp add: site_inv_def system_inv_def)
  with e(2) obtain serial u kind where u: "e_origin e = FromTunnel serial" "u \<in> set (sy_tasks (si_system y))"
      "tt_phase u = Running serial kind" "tt_handle u = tt_handle t"
    by (auto simp: entry_ok.simps split: origin.splits)
  with assms(2,3) have "u = t" by (auto simp: channels_ok_def channel_of_def distinct_map inj_on_def)
  with e u show ?thesis by (auto simp: attached_as_def)
qed

lemma session_entry_step:
  assumes "tasks_step x p lo assets ym t z z'" "phases_ok t z" "phases_ok t z'" "\<forall>cause. ss_reader z' \<noteq> Departed cause"
    and "site_inv (ss_site z)" "channels_ok (si_system (ss_site z))" "channels_ok (si_system y)"
    and "since (si_system y) (si_system (ss_site z))" "sole_serial t y" "attached_as t (ss_site z) e"
  shows "attached_as t (ss_site z') e \<or> reconnected y t (ss_site z) \<or> reconnected y t (ss_site z')"
proof -
  obtain serial kind where run: "tt_phase t = Running serial kind" "e_origin e = FromTunnel serial"
    using assms(10) by (auto simp: attached_as_def)
  have tasks: "t \<in> set (sy_tasks (si_system (ss_site z')))" using assms(3,4) by (simp add: phases_ok_def)
  have "site_step x p lo assets (ss_site z) (ss_site z') \<or> ss_site z' = ss_site z"
    using run(1) by (intro session_step_site [OF assms(1) _ assms(2)]) blast
  then consider "system_step x p assets (si_system (ss_site z)) (si_system (ss_site z'))"
    | "rl_registry (sy_relay (si_system (ss_site z'))) = rl_registry (sy_relay (si_system (ss_site z)))"
    using site_step_shape by (fastforce simp: link_effect_def)
  then show ?thesis
  proof cases
    case 1
    have keys: "distinct (map fst (r_entries (rl_registry (sy_relay (si_system (ss_site z))))))"
      using assms(5) by (simp add: site_inv_def relay_ok_def replayed_def sound_def keyed_def)
    note entry = assms(10) [unfolded attached_as_def]
    from entry_step [OF 1 keys entry [THEN conjunct1] run(2)] entry
    consider "map_of (r_entries (rl_registry (sy_relay (si_system (ss_site z'))))) (d_id (tt_device t)) = Some e"
      | u serial' kind' where "u \<in> set (sy_tasks (si_system (ss_site z)))" "d_id (tt_device u) = d_id (tt_device t)" "tt_phase u = Accepted"
          "u\<lparr>tt_phase := Running serial' kind'\<rparr> \<in> set (sy_tasks (si_system (ss_site z')))"
      | u kind' where "u \<in> set (sy_tasks (si_system (ss_site z)))" "d_id (tt_device u) = d_id (tt_device t)"
          "tt_phase u = Running serial kind'" "sy_tasks (si_system (ss_site z')) = remove1 u (sy_tasks (si_system (ss_site z)))"
      by auto
    then show ?thesis
    proof cases
      case 1
      with entry show ?thesis by (simp add: attached_as_def)
    next
      case (2 u serial' kind')
      with admitted_is_new [OF assms(7,8) 2(1,3)] have "reconnected y t (ss_site z')"
        unfolding reconnected_def by (intro bexI [OF _ 2(4)]) simp
      then show ?thesis by blast
    next
      case (3 u kind')
      have "u \<noteq> t" using tasks 3(1,4) assms(6) by (auto simp: channels_ok_def distinct_map)
      with 3(2,3) run(1) assms(9) have "u \<notin> set (sy_tasks (si_system y))" by (auto simp: sole_serial_def)
      with 3(1-3) show ?thesis by (auto simp: reconnected_def)
    qed
  qed (use assms(10) in \<open>simp add: attached_as_def\<close>)
qed

lemma departed_stays: "tasks_step x p lo assets ym t z z' \<Longrightarrow> ss_reader z = Departed cause \<Longrightarrow> ss_reader z' = Departed cause"
  by (induction rule: tasks_step.induct) simp_all

lemma session_entry_run:
  assumes "tasks_run x p lo assets ym t s z" "serving t y" "streams_ok s \<and> phases_ok t s" "ss_site s = y"
    and "site_inv y" "channels_ok (si_system y)" "sole_serial t y" "attached_as t y e"
  shows "channels_ok (si_system (ss_site z)) \<and> since (si_system y) (si_system (ss_site z)) \<and>
    ((\<forall>cause. ss_reader z \<noteq> Departed cause) \<longrightarrow> attached_as t (ss_site z) e \<or>
       (\<exists>z1. tasks_run x p lo assets ym t s z1 \<and> tasks_run x p lo assets ym t z1 z \<and> reconnected y t (ss_site z1)))"
  using assms
proof (induction rule: tasks_run.induct)
  case (tasks_start z)
  then show ?case by (simp add: since_refl)
next
  case (tasks_more z z1 z2)
  note ih = tasks_more(3) [OF tasks_more(4-10)]
  have ok: "phases_ok t z1" "phases_ok t z2"
    using tasks_run_ok [OF tasks_more(1,5)] phases_step [OF tasks_more(2)] by blast+
  have inv: "site_inv (ss_site z1)"
    using site_run_inv [OF tasks_run_site [OF tasks_more(1,4,5)]] tasks_more(6,7) by simp
  have run: "\<exists>serial kind. tt_phase t = Running serial kind" using tasks_more(4) by (simp add: serving_def)
  have last: "tasks_run x p lo assets ym t z z2" by (rule tasks_run.tasks_more [OF tasks_more(1,2)])
  have onward: "tasks_run x p lo assets ym t a z2" if "tasks_run x p lo assets ym t a z1" for a
    by (rule tasks_run.tasks_more [OF that tasks_more(2)])
  have "channels_ok (si_system (ss_site z2)) \<and> since (si_system y) (si_system (ss_site z2))"
    using session_step_site [OF tasks_more(2) run ok(1)] site_tasks ih by metis
  moreover have "attached_as t (ss_site z2) e \<or>
       (\<exists>a. tasks_run x p lo assets ym t z a \<and> tasks_run x p lo assets ym t a z2 \<and> reconnected y t (ss_site a))"
    if there: "\<forall>cause. ss_reader z2 \<noteq> Departed cause"
  proof -
    have "\<forall>cause. ss_reader z1 \<noteq> Departed cause" using there departed_stays [OF tasks_more(2)] by blast
    with ih consider "attached_as t (ss_site z1) e"
      | a where "tasks_run x p lo assets ym t z a" "tasks_run x p lo assets ym t a z1" "reconnected y t (ss_site a)" by blast
    then show ?thesis
    proof cases
      case 1
      from session_entry_step [OF tasks_more(2) ok there inv _ tasks_more(8) _ tasks_more(9) 1] ih
      show ?thesis using tasks_more(1) last onward [OF tasks_run.tasks_start] tasks_run.tasks_start by blast
    next
      case (2 a)
      then show ?thesis using onward by blast
    qed
  qed
  ultimately show ?case by blast
qed

definition routed :: "tunnel_task \<Rightarrow> 'l site \<Rightarrow> bool" where
  "routed t y \<longleftrightarrow> route (rl_registry (sy_relay (si_system y))) (d_id (tt_device t)) = Some (Direct (tt_handle t))"

lemma reachable_ok:
  assumes "site_started y0" "site_run x p lo assets y0 y"
  shows "site_inv y \<and> channels_ok (si_system y)"
proof -
  have "channels_ok (si_system y0)" using assms(1) by (simp add: site_started_def started_def channels_ok_def)
  then show ?thesis using site_run_inv [OF assms(2) site_started_inv [OF assms(1)]] site_run_channels [OF assms(2)] by blast
qed

lemma routed_run:
  assumes "tasks_run x p lo assets ym t s z" "serving t y" "streams_ok s \<and> phases_ok t s" "ss_site s = y"
    and "site_inv y \<and> channels_ok (si_system y)" "routed t y" "sole_serial t y" "\<forall>cause. ss_reader z \<noteq> Departed cause"
  shows "routed t (ss_site z) \<or>
    (\<exists>z1. tasks_run x p lo assets ym t s z1 \<and> tasks_run x p lo assets ym t z1 z \<and> reconnected y t (ss_site z1))"
proof -
  have "t \<in> set (sy_tasks (si_system y))" using assms(2) by (simp add: serving_def)
  then obtain e where "attached_as t y e" using routed_attached assms(5,6) unfolding routed_def by blast
  from session_entry_run [OF assms(1-4) _ _ assms(7) this] assms(5,8) show ?thesis by (auto simp: routed_def intro: attached_route)
qed

section \<open>A session whose reader has left completes\<close>

text \<open>What the writer still has to write when nothing more is produced and no command is taken.\<close>

fun remaining :: "'b writer \<Rightarrow> 'b list \<Rightarrow> 'b ws_message list" where
  "remaining Selecting data = map WsBinary data"
| "remaining (Sending m) data = m # (case m of WsClose _ _ \<Rightarrow> [] | _ \<Rightarrow> map WsBinary data)"
| "remaining _ data = []"

lemma tasks_run_trans:
  "tasks_run x p lo assets ym t z1 z2 \<Longrightarrow> tasks_run x p lo assets ym t z z1 \<Longrightarrow> tasks_run x p lo assets ym t z z2"
  by (induction rule: tasks_run.induct) (auto intro: tasks_more)

lemma tasks_first:
  "tasks_step x p lo assets ym t z z1 \<Longrightarrow> tasks_run x p lo assets ym t z1 z2 \<Longrightarrow> tasks_run x p lo assets ym t z z2"
  by (rule tasks_run_trans) (auto intro: tasks_start tasks_more)

text \<open>The fields that draining the writer leaves alone.\<close>

definition same_but_writer :: "('l, 'c, 's, 'b) session \<Rightarrow> ('l, 'c, 's, 'b) session \<Rightarrow> bool" where
  "same_but_writer z z' \<longleftrightarrow> ss_site z' = ss_site z \<and> ss_reader z' = ss_reader z \<and> ss_driver z' = ss_driver z"

lemma writer_drains:
  assumes "\<not> dr_running (ss_driver z)" "ss_writer z = Selecting"
  shows "\<exists>z'. tasks_run x p lo assets ym t z z' \<and> same_but_writer z z' \<and> ss_writer z' = Shutting \<and>
    ss_written z' = ss_written z @ map WsBinary (ss_data z)"
  using assms
proof (induction "ss_data z" arbitrary: z)
  case Nil
  then have "tasks_step x p lo assets ym t z (z\<lparr>ss_writer := Shutting\<rparr>)" by (intro DataGone) simp_all
  then show ?case
    using Nil by (intro exI [of _ "z\<lparr>ss_writer := Shutting\<rparr>"])
      (auto simp: same_but_writer_def intro: tasks_first tasks_start)
next
  case (Cons b rest)
  let ?z1 = "z\<lparr>ss_writer := Sending (WsBinary b), ss_data := rest\<rparr>"
  let ?z2 = "?z1\<lparr>ss_written := ss_written ?z1 @ [WsBinary b],
    ss_writer := (case WsBinary b of WsClose _ _ \<Rightarrow> Shutting | _ \<Rightarrow> Selecting)\<rparr>"
  have "tasks_step x p lo assets ym t z ?z1" using Cons(2) [symmetric] Cons(4) by (rule TakesData [rotated])
  moreover have "tasks_step x p lo assets ym t ?z1 ?z2" by (rule Sent) simp
  moreover from Cons(1) [of ?z2] Cons(3) obtain z' where "tasks_run x p lo assets ym t ?z2 z'" "same_but_writer ?z2 z'"
    "ss_writer z' = Shutting" "ss_written z' = ss_written ?z2 @ map WsBinary (ss_data ?z2)" by auto
  ultimately show ?case
    using Cons(2) [symmetric] by (intro exI [of _ z']) (auto simp: same_but_writer_def intro: tasks_first)
qed

lemma writer_completes:
  assumes "\<not> dr_running (ss_driver z)" "ss_writer z \<noteq> Finished"
  shows "\<exists>z'. tasks_run x p lo assets ym t z z' \<and> same_but_writer z z' \<and> ss_writer z' = Finished \<and>
    ss_written z' = ss_written z @ remaining (ss_writer z) (ss_data z)"
proof -
  have shut: "\<exists>z'. tasks_run x p lo assets ym t z z' \<and> same_but_writer z z' \<and> ss_writer z' = Finished \<and> ss_written z' = w"
    if "tasks_run x p lo assets ym t z z1" "same_but_writer z z1" "ss_writer z1 = Shutting" "ss_written z1 = w" for z1 w
    using tasks_more [OF that(1) Closed [OF that(3)]] that
    by (intro exI [of _ "z1\<lparr>ss_writer := Finished, ss_data := [], ss_shutdown := True\<rparr>"]) (simp add: same_but_writer_def)
  show ?thesis
  proof (cases "ss_writer z")
    case Selecting
    from writer_drains [OF assms(1) this, of x p lo assets ym t] shut Selecting show ?thesis by auto
  next
    case (Sending m)
    let ?z1 = "z\<lparr>ss_written := ss_written z @ [m], ss_writer := (case m of WsClose _ _ \<Rightarrow> Shutting | _ \<Rightarrow> Selecting)\<rparr>"
    have step: "tasks_step x p lo assets ym t z ?z1" by (rule Sent [OF Sending])
    show ?thesis
    proof (cases "ss_writer ?z1 = Shutting")
      case True
      with step Sending show ?thesis
        by (intro shut [of ?z1]) (auto simp: same_but_writer_def intro: tasks_first tasks_start split: ws_message.splits)
    next
      case False
      then have sel: "ss_writer ?z1 = Selecting" "\<not> dr_running (ss_driver ?z1)" using assms(1) by (auto split: ws_message.splits)
      from writer_drains [OF sel(2,1), of x p lo assets ym t] obtain z2 where
        "tasks_run x p lo assets ym t ?z1 z2" "same_but_writer ?z1 z2" "ss_writer z2 = Shutting"
        "ss_written z2 = ss_written ?z1 @ map WsBinary (ss_data ?z1)" by blast
      with step Sending False show ?thesis
        by (intro shut [of z2]) (auto simp: same_but_writer_def intro: tasks_first split: ws_message.splits)
    qed
  next
    case Shutting
    then show ?thesis by (intro shut [of z]) (auto simp: same_but_writer_def intro: tasks_start)
  qed (use assms(2) in simp)
qed

section \<open>A socket that takes nothing\<close>

lemma pending_outbox: "pending h (s\<lparr>rl_outbox := o1\<rparr>) = filter (\<lambda>(g, _). th_channel g = th_channel h) o1"
  by (simp add: pending_def)

lemma try_send_queues: "prefix (pending h s) (pending h (try_send g m s))"
  by (simp add: try_send_def pending_def)

lemma frame_queues: "prefix (pending h s) (pending h (handle_control_frame x g kind frame s))"
  by (auto simp: handle_control_frame_def with_clock_eq send_frame_def try_send_queues split: control_frame.split)
     (simp_all add: pending_def)

lemma pending_same: "rl_outbox s' = rl_outbox s \<Longrightarrow> pending h s' = pending h s"
  by (simp add: pending_def)

text \<open>What a revocation leaves in the queues.\<close>

lemma revoke_outbox:
  assumes "revoke x i actor ip s = (Inr u, s')"
  shows "rl_outbox s' = rl_outbox (case route (rl_registry s) i of
      Some rt \<Rightarrow> revoke_tunnel x (route_link rt) revoked_reason s | None \<Rightarrow> s)"
proof -
  let ?told = "\<lambda>s. case route (rl_registry s) i of
    Some rt \<Rightarrow> revoke_tunnel x (route_link rt) revoked_reason s | None \<Rightarrow> s"
  obtain changed s1 where d: "in_db (revoke_device i) s = (Inr changed, s1)"
    and r: "(if changed then audit x (audit_from_ip ip (audit_target ''device'' i (by_user actor ''device-revoked''))) else okE ()) (?told s1) = (Inr u, s')"
    using assms unfolding revoke_def bindE_Inr modify_def by auto
  have a: "rl_outbox s' = rl_outbox (?told s1)"
    using r proof (cases changed)
    case True
    with r have "s' = (?told s1)\<lparr>rl_db := audit_write x (audit_from_ip ip (audit_target ''device'' i (by_user actor ''device-revoked''))) (rl_db (?told s1))\<rparr>"
      by (simp only: audit_eq if_True) simp
    then show ?thesis by simp
  next
    case False
    with r have "s' = ?told s1" by (simp only: if_False okE_Inr)
    then show ?thesis by simp
  qed
  obtain db' where s1: "s1 = s\<lparr>rl_db := db'\<rparr>" using in_db_Inr [THEN iffD1, OF d] by (elim exE conjE)
  have "rl_outbox (?told s1) = rl_outbox (?told s)"
    unfolding s1 by (cases "route (rl_registry s) i") (simp_all add: revoke_tunnel_def close_tunnel_def send_frame_def try_send_def pending_def)
  then show ?thesis using a by simp
qed

text \<open>What the premises of \<open>Outside\<close> exclude: a step of the relay leaves the task among the relay's and its queue at least as it was,
  unless it is the clean-up of this very task or its own writer taking a message, which are steps of the session here. The table is not
  mentioned: other steps may well take the tunnel out of it.\<close>

definition cleans_up :: "'l externals \<Rightarrow> tunnel_task \<Rightarrow> 'l system \<Rightarrow> 'l system \<Rightarrow> bool" where
  "cleans_up x t y y' \<longleftrightarrow> (\<exists>serial kind cause. tt_phase t = Running serial kind \<and> y' = y\<lparr>sy_relay :=
     tunnel_disconnect x (tt_device t) (tt_peer t) serial cause (sy_relay y), sy_tasks := remove1 t (sy_tasks y)\<rparr>)"

definition takes_command :: "tunnel_task \<Rightarrow> 'l system \<Rightarrow> 'l system \<Rightarrow> bool" where
  "takes_command t y y' \<longleftrightarrow> (\<exists>before m after. rl_outbox (sy_relay y) = before @ m # after \<and> th_channel (fst m) = channel_of t \<and>
     (\<forall>n \<in> set before. th_channel (fst n) \<noteq> channel_of t) \<and> y' = y\<lparr>sy_relay := (sy_relay y)\<lparr>rl_outbox := before @ after\<rparr>\<rparr>)"

lemma outbox_pending: "prefix (rl_outbox s) (rl_outbox s') \<Longrightarrow> prefix (pending h s) (pending h s')"
  by (auto simp: pending_def prefix_def)

lemma connect_queues:
  assumes "tunnel_connect x d peer g hello s = (serial, s')"
  shows "prefix (pending h s) (pending h s')"
proof -
  from assms obtain s1 e where reg: "register x (presence_of d peer g hello) s = (serial, s1)"
    and s': "s' = snd (audit x e (swallow (record_device_connection (d_id d) peer (he_version hello)) s1))"
    by (rule tunnel_connect_eq)
  from reg obtain now where "rl_outbox s1 = rl_outbox (case reg_displaced (fst (connect (presence_of d peer g hello) now (rl_registry s))) of
        Some g \<Rightarrow> close_tunnel g (x_close_going_away x) reason_replaced s | None \<Rightarrow> s)"
    by (rule register_eq)
  then have "rl_outbox s' = rl_outbox (case reg_displaced (fst (connect (presence_of d peer g hello) now (rl_registry s))) of
        Some g \<Rightarrow> close_tunnel g (x_close_going_away x) reason_replaced s | None \<Rightarrow> s)" by (simp add: s' revoking_connect(2))
  from pending_same [OF this, of h] show ?thesis by (simp add: close_tunnel_def try_send_queues split: option.split)
qed

lemma disconnect_queues: "prefix (pending h s) (pending h (tunnel_disconnect x d peer serial cause s))"
proof -
  have "rl_outbox (swallow m s') = rl_outbox s'" for m :: "database \<Rightarrow> (database_error + unit) \<times> database" and s' :: "'a relay"
    by (simp add: swallow_def)
  then have "rl_outbox (tunnel_disconnect x d peer serial cause s) = rl_outbox s" by (simp add: tunnel_disconnect_def Let_def audit_eq)
  from pending_same [OF this] show ?thesis by simp
qed

lemma outside_excludes:
  assumes "system_step x p assets y y'" "t \<in> set (sy_tasks y)" "tt_phase t = Running serial kind"
  shows "t \<in> set (sy_tasks y') \<and> prefix (pending (tt_handle t) (sy_relay y)) (pending (tt_handle t) (sy_relay y')) \<or>
    cleans_up x t y y' \<or> takes_command t y y'"
  using assms
proof (induction rule: system_step.induct)
  case (Ended u y serial' kind' cause)
  then show ?case by (cases "u = t") (auto simp: cleans_up_def disconnect_queues)
next
  case (Written y before m after)
  show ?case
  proof (cases "th_channel (fst m) = channel_of t")
    case True
    with Written have "takes_command t y (y\<lparr>sy_relay := (sy_relay y)\<lparr>rl_outbox := before @ after\<rparr>\<rparr>)"
      unfolding takes_command_def by (intro exI [of _ before] exI [of _ m] exI [of _ after]) simp
    then show ?thesis by blast
  next
    case False
    with Written show ?thesis by (auto simp: pending_def channel_of_def split: prod.splits)
  qed
next
  case (Browse rq y answer s)
  then show ?case using effect_host by (fastforce simp: api_effect_def intro: outbox_pending)
next
  case (Refused headers ip y e s)
  then show ?case using effect_upgrade by (fastforce simp: api_effect_def intro: outbox_pending)
next
  case (Upgraded headers ip y d s)
  then show ?case using effect_upgrade by (fastforce simp: api_effect_def intro: outbox_pending)
next
  case (Rejected u y frame sent answer)
  then have "t \<noteq> u" by auto
  with Rejected(4) show ?case by simp
next
  case (Connected u y frame sent hello answer serial' s)
  then have "t \<noteq> u" by auto
  with Connected(4,5) show ?case by (simp add: connect_queues)
qed (auto simp: frame_queues connect_queues tunnel_leave_def close_tunnel_def try_send_queues
    intro: outbox_pending exec_api_effect [unfolded api_effect_def, THEN conjunct2, THEN conjunct2, THEN conjunct2, THEN conjunct2,
      THEN conjunct2, THEN conjunct2])

lemma outside_site:
  assumes "site_step x p lo assets y y'" "t \<in> set (sy_tasks (si_system y))" "tt_phase t = Running serial kind"
  shows "t \<in> set (sy_tasks (si_system y')) \<and>
      prefix (pending (tt_handle t) (sy_relay (si_system y))) (pending (tt_handle t) (sy_relay (si_system y'))) \<or>
    cleans_up x t (si_system y) (si_system y') \<or> takes_command t (si_system y) (si_system y')"
  using site_step_shape [OF assms(1)]
proof
  assume "system_step x p assets (si_system y) (si_system y')"
  from outside_excludes [OF this assms(2,3)] show ?thesis .
qed (use assms(2) in \<open>auto simp: link_effect_def intro: outbox_pending\<close>)

text \<open>What is true of every later state while the socket has taken nothing and the writer has not given up.\<close>

definition stalled :: "tunnel_task \<Rightarrow> ('l, 'c, 's, 'b) session \<Rightarrow> ('l, 'c, 's, 'b) session \<Rightarrow> bool" where
  "stalled t z z' \<longleftrightarrow> ss_writer z' = ss_writer z \<and> ss_written z' = ss_written z \<and>
     prefix (pending (tt_handle t) (shared z)) (pending (tt_handle t) (shared z'))"

definition moved_on :: "('l, 'c, 's, 'b) session \<Rightarrow> ('l, 'c, 's, 'b) session \<Rightarrow> bool" where
  "moved_on z z' \<longleftrightarrow> length (ss_written z) < length (ss_written z') \<or> \<not> writer_open (ss_writer z')"

lemma stalled_step:
  assumes "tasks_step x p lo assets ym t z1 z2" "ss_writer z = Sending m" "stalled t z z1" "phases_ok t z1"
  shows "stalled t z z2 \<or> moved_on z z2"
  using assms
proof (induction rule: tasks_step.induct)
  case (Outside z1 y)
  then show ?case by (auto simp: stalled_def shared_def intro: prefix_order.trans)
next
  case (ReadControl z1 serial kind frame)
  then show ?case by (auto simp: stalled_def intro: prefix_order.trans [OF _ frame_queues])
next
  case (CleanedUp z1 cause serial kind)
  then show ?case by (simp add: stalled_def)
qed (auto simp: stalled_def moved_on_def tunnel_leave_def close_tunnel_def shared_def
    intro: prefix_order.trans [OF _ try_send_queues])

lemma moved_on_step:
  assumes "tasks_step x p lo assets ym t z1 z2" "moved_on z z1"
  shows "moved_on z z2"
  using assms by (induction rule: tasks_step.induct) (auto simp: moved_on_def writer_open_def)

lemma stalled_run:
  assumes "tasks_run x p lo assets ym t z z'" "ss_writer z = Sending m" "streams_ok z \<and> phases_ok t z"
  shows "stalled t z z' \<or> moved_on z z'"
  using assms
proof (induction rule: tasks_run.induct)
  case (tasks_start z)
  then show ?case by (simp add: stalled_def)
next
  case (tasks_more z z1 z2)
  have "phases_ok t z1" using tasks_run_ok [OF tasks_more(1,5)] ..
  with tasks_more stalled_step [OF tasks_more(2,4)] moved_on_step [OF tasks_more(2)] show ?case by blast
qed

section \<open>Properties\<close>

text \<open>C16: A tunnel carries one continuous byte stream in each direction, whatever its tasks and the rest of the
  relay do in between: the connection takes the binary frames of the socket in order and none twice, and the
  socket takes those of the connection likewise; while the tasks run, what has not arrived is in a channel, in
  the reader's or in the writer's hand, so nothing is lost; and neither channel holds more than its capacity.\<close>

theorem tunnel_streams_are_continuous:
  fixes z :: "('l, 'c, 's, 'b) session"
  assumes "serving t y" "tasks_run x p lo assets ym t (spawned y c) z"
  shows "prefix (ss_fed z) (ss_heard z) \<and> prefix (binaries (ss_written z)) (ss_produced z) \<and>
    (dr_running (ss_driver z) \<longrightarrow> ss_fed z @ ss_inbound z @ in_hand (ss_reader z) = ss_heard z) \<and>
    (writer_open (ss_writer z) \<longrightarrow>
       binaries (ss_written z) @ binaries (in_flight (ss_writer z)) @ ss_data z = ss_produced z) \<and>
    length (ss_inbound z) \<le> frame_queue_capacity \<and> length (ss_data z) \<le> frame_queue_capacity"
  using spawned_run_ok [OF assms] unfolding streams_ok_def by blast

text \<open>C15: The tasks of a tunnel refine the relay: whatever they do, the shared state moves by steps of the whole
  relay's step relation, its upstream link included, and the connection by events of its driver, so the relay's invariants hold while
  tasks wait for one another. Until the session has cleaned up, the device is still routed to its tunnel, if it was
  when the tasks were spawned and no other task of the device has its serial number, unless the device has registered another tunnel
  in the meantime.\<close>

theorem tunnel_tasks_refine_relay:
  fixes z :: "('l, 'c, 's, 'b) session"
  assumes "site_started y0" "site_run x p lo assets y0 y" "serving t y" "tasks_run x p lo assets ym t (spawned y c) z"
  shows "site_run x p lo assets y (ss_site z) \<and>
    (\<exists>events. drive_multiplexer ym events (start_driver c) = Some (ss_driver z)) \<and>
    (routed t y \<longrightarrow> sole_serial t y \<longrightarrow> (\<forall>cause. ss_reader z \<noteq> Departed cause) \<longrightarrow> routed t (ss_site z) \<or>
       (\<exists>z1. tasks_run x p lo assets ym t (spawned y c) z1 \<and> tasks_run x p lo assets ym t z1 z \<and> reconnected y t (ss_site z1)))"
proof -
  have start: "ss_site (spawned y c :: ('l, 'c, 's, 'b) session) = y"
    "ss_driver (spawned y c :: ('l, 'c, 's, 'b) session) = start_driver c" by (simp_all add: spawned_def)
  have ok: "streams_ok (spawned y c :: ('l, 'c, 's, 'b) session) \<and> phases_ok t (spawned y c :: ('l, 'c, 's, 'b) session)"
    by (simp add: spawned_ok assms(3))
  have "site_run x p lo assets y (ss_site z)" by (rule tasks_run_site [OF assms(4,3) ok, unfolded start])
  moreover have "\<exists>events. drive_multiplexer ym events (start_driver c) = Some (ss_driver z)"
    using tasks_run_driver [OF assms(4)] by (simp add: start)
  ultimately show ?thesis using routed_run [OF assms(4,3) ok start(1) reachable_ok [OF assms(1,2)]] by blast
qed

text \<open>C17: A session whose reading loop has ended always completes if the socket takes what is written to it,
  even when the queue was full and its close was dropped: once the aborted driver has stopped, the writer writes
  what it holds and what the connection had produced and ends, and the session takes its tunnel out of the table.\<close>

theorem left_session_completes:
  fixes z :: "('l, 'c, 's, 'b) session"
  assumes "serving t y" "tasks_run x p lo assets ym t (spawned y c) z" "ss_reader z = Leaving cause"
  shows "\<exists>z'. tasks_run x p lo assets ym t z z' \<and> ss_reader z' = Departed cause \<and> \<not> dr_running (ss_driver z') \<and>
    ss_written z' = ss_written z @ remaining (ss_writer z) (ss_data z) \<and>
    (\<exists>serial kind. tt_phase t = Running serial kind \<and>
       shared z' = tunnel_disconnect x (tt_device t) (tt_peer t) serial cause (shared z)) \<and>
    sy_tasks (si_system (ss_site z')) = remove1 t (sy_tasks (si_system (ss_site z)))"
proof -
  obtain serial kind where run: "tt_phase t = Running serial kind" using assms(1) by (auto simp: serving_def)
  have "phases_ok t z" using spawned_run_ok [OF assms(1,2)] ..
  with assms(3) have ab: "ss_aborted z" by (auto simp: phases_ok_def)
  obtain d where d: "drive_step ym Aborted (ss_driver z) = Some d" "\<not> dr_running d"
    by (cases "dr_running (ss_driver z)") (auto simp: drive_step_def)
  let ?z1 = "put_driver d z"
  have first: "tasks_step x p lo assets ym t z ?z1" by (rule DriverStops [OF ab d(1)])
  obtain z2 where z2: "tasks_run x p lo assets ym t ?z1 z2" "same_but_writer ?z1 z2" "ss_writer z2 = Finished"
    "ss_written z2 = ss_written z @ remaining (ss_writer z) (ss_data z)"
  proof (cases "ss_writer z = Finished")
    case True
    then show ?thesis by (intro that [of ?z1]) (auto simp: same_but_writer_def intro: tasks_start)
  next
    case False
    with writer_completes [of ?z1 x p lo assets ym t] d(2) that show ?thesis by auto
  qed
  then have z2': "ss_reader z2 = Leaving cause" "ss_driver z2 = d" "ss_site z2 = ss_site z"
    using assms(3) by (simp_all add: same_but_writer_def)
  from tasks_first [OF first tasks_more [OF z2(1) CleanedUp [OF z2'(1) z2(3) run]]] z2(4) z2' d(2)
  show ?thesis using run by (intro exI) (auto simp: shared_def)
qed

text \<open>C40: A socket that takes nothing cannot be closed by the relay: as long as the message at hand is neither
  taken nor refused, no command leaves the queue, so a revocation queued before or after does not reach the
  socket, even when the idle time has elapsed and the reading loop has ended: the session waits for its writer without a
  limit and does not clean up. So the device stays routed to the tunnel, if it was and no other task of the device has its serial
  number, until the device itself registers another one.\<close>

theorem blocked_socket_keeps_tunnel:
  fixes z :: "('l, 'c, 's, 'b) session"
  assumes "site_started y0" "site_run x p lo assets y0 y" "serving t y" "tasks_run x p lo assets ym t (spawned y c) z"
    and "ss_writer z = Sending m" "tasks_run x p lo assets ym t z z'" "ss_written z' = ss_written z" "writer_open (ss_writer z')"
  shows "ss_writer z' = Sending m \<and> prefix (pending (tt_handle t) (shared z)) (pending (tt_handle t) (shared z')) \<and>
    ss_reader z' \<noteq> Leaving Local \<and> (\<forall>cause. ss_reader z' \<noteq> Departed cause) \<and>
    (routed t (ss_site z) \<longrightarrow> sole_serial t (ss_site z) \<longrightarrow> routed t (ss_site z') \<or>
       (\<exists>z1. tasks_run x p lo assets ym t z z1 \<and> tasks_run x p lo assets ym t z1 z' \<and> reconnected (ss_site z) t (ss_site z1)))"
proof -
  have ok: "streams_ok z \<and> phases_ok t z" by (rule spawned_run_ok [OF assms(3,4)])
  have "phases_ok t z'" using tasks_run_ok [OF assms(6) ok] ..
  moreover have "stalled t z z'" using stalled_run [OF assms(6,5) ok] assms(7,8) by (auto simp: moved_on_def)
  ultimately have still: "ss_writer z' = Sending m \<and> prefix (pending (tt_handle t) (shared z)) (pending (tt_handle t) (shared z')) \<and>
    ss_reader z' \<noteq> Leaving Local \<and> (\<forall>cause. ss_reader z' \<noteq> Departed cause)"
    using assms(5) by (auto simp: stalled_def phases_ok_def)
  have "serving t (ss_site z)" using ok assms(3,5) by (auto simp: serving_def phases_ok_def)
  moreover have "site_run x p lo assets y (ss_site z)"
    using tasks_run_site [OF assms(4,3)] by (simp add: spawned_ok assms(3)) (simp add: spawned_def)
  then have "site_inv (ss_site z)" "channels_ok (si_system (ss_site z))"
    using reachable_ok [OF assms(1) site_run_trans [OF assms(2)]] by blast+
  ultimately show ?thesis using still routed_run [OF assms(6) _ ok refl] by blast
qed

section \<open>Witnesses\<close>

definition sample_task :: tunnel_task where
  "sample_task = \<lparr>tt_device = sample_device_record, tt_peer = ''192.0.2.7'', tt_handle = desk_handle, tt_phase = Running 0 Desktop\<rparr>"

definition sample_tunnel_site :: "string list site" where
  "sample_tunnel_site = site_of (fresh_system\<lparr>sy_tasks := [sample_task]\<rparr>)"

lemma sample_tunnel_site: "serving sample_task sample_tunnel_site"
  by (simp add: serving_def sample_tunnel_site_def sample_task_def site_of_def)

definition sample_tunnel :: "(string list, nat \<times> nat \<times> nat, nat, nat) session" where
  "sample_tunnel = spawned sample_tunnel_site (0, 1, 0)"

text \<open>Whatever the site: a frame is read and handed on, the driver takes it and writes one, and the socket takes that.\<close>

lemma quiet_tasks_run:
  "\<exists>z. tasks_run sample_x sample_ops sample_link_ops (\<lambda>_. None) sample_yamux t (spawned y (0, 1, 0) ::
       (string list, nat \<times> nat \<times> nat, nat, nat) session) z \<and>
     ss_heard z = [5] \<and> ss_fed z = [5] \<and> ss_produced z = [9] \<and> ss_written z = [WsBinary 9] \<and> ss_reader z = Reading \<and> ss_site z = y"
proof -
  let ?z = "spawned y (0, 1, 0) :: (string list, nat \<times> nat \<times> nat, nat, nat) session"
  let ?run = "tasks_run sample_x sample_ops sample_link_ops (\<lambda>_. None) sample_yamux t ?z"
  let ?z1 = "?z\<lparr>ss_reader := Handing 5, ss_heard := [5]\<rparr>"
  let ?z2 = "?z1\<lparr>ss_reader := Reading, ss_inbound := [5]\<rparr>"
  let ?d = "(start_driver (0, 1, 0) :: (nat \<times> nat \<times> nat, nat) driver)\<lparr>dr_connection := (0, 6, 0)\<rparr>"
  let ?z3 = "?z2\<lparr>ss_driver := ?d, ss_inbound := [], ss_fed := [5]\<rparr>"
  let ?z4 = "?z3\<lparr>ss_data := [9], ss_produced := [9]\<rparr>"
  let ?z5 = "?z4\<lparr>ss_writer := Sending (WsBinary 9), ss_data := []\<rparr>"
  note defs = spawned_def start_driver_def frame_queue_capacity_def drive_step_def sample_yamux_def
  have "?run ?z1" using tasks_more [OF tasks_start ReadData [of ?z _ _ _ _ _ _ 5]] by (simp add: defs)
  then have "?run ?z2" using tasks_more [OF _ Handed [of ?z1 5]] by (fastforce simp: defs)
  then have "?run ?z3" using tasks_more [OF _ DriverTakes [of ?z2 5 "[]" _ ?d]] by (fastforce simp: defs)
  then have "?run ?z4" using tasks_more [OF _ DriverWrites [of ?z3 _ _ _ _ _ _ 9]] by (fastforce simp: defs)
  then have "?run ?z5" using tasks_more [OF _ TakesData [of ?z4 9 "[]"]] by (fastforce simp: defs)
  from tasks_more [OF this Sent [of ?z5 "WsBinary 9"]] show ?thesis
    by (intro exI conjI) (auto simp: defs)
qed

lemmas sample_tasks_run = quiet_tasks_run [of sample_task sample_tunnel_site, folded sample_tunnel_def]

theorem tunnel_streams_are_continuous_witness:
  "\<exists>z :: (string list, nat \<times> nat \<times> nat, nat, nat) session.
     ss_fed z = [5] \<and> ss_written z = [WsBinary 9] \<and>
     prefix (ss_fed z) (ss_heard z) \<and> prefix (binaries (ss_written z)) (ss_produced z)"
  using sample_tasks_run tunnel_streams_are_continuous
    [OF sample_tunnel_site, of sample_x sample_ops sample_link_ops "\<lambda>_. None" sample_yamux "(0, 1, 0)", folded sample_tunnel_def]
  by metis

text \<open>A relay with an administrator's session, started with an empty table, and the desktop that dials in.\<close>

definition signed_in_system :: "string list system" where
  "signed_in_system = fresh_system\<lparr>sy_relay := signed_in_relay\<lparr>rl_registry := new_registry ''A''\<rparr>\<rparr>"

lemma signed_in_started: "site_started (site_of signed_in_system)"
  using sample_store_inv [of None]
  by (simp add: site_started_def started_def site_of_def signed_in_system_def fresh_system_def signed_in_relay_def sample_relay_def
      db_inv_def users_ok_def devices_ok_def owners_ok_def enrollments_ok_def audit_ok_def sample_device_row_def)

lemma desk_served:
  "\<exists>y t seen. site_run sample_x sample_ops sample_link_ops (\<lambda>_. None) (site_of signed_in_system) y \<and>
     serving t y \<and> routed t y \<and> sole_serial t y \<and> tt_device t = sample_device_record \<and>
     d_devices (rl_db (sy_relay (si_system y))) = [seen_row seen] \<and>
     d_sessions (rl_db (sy_relay (si_system y))) = d_sessions (rl_db signed_in_relay) \<and>
     d_users (rl_db (sy_relay (si_system y))) = d_users (rl_db signed_in_relay) \<and>
     d_fail (rl_db (sy_relay (si_system y))) = (\<lambda>_. False) \<and> d_clock (rl_db (sy_relay (si_system y))) = (\<lambda>_. 1000) \<and>
     rl_outbox (sy_relay (si_system y)) = []"
proof -
  note defs = signed_in_system_def fresh_system_def relay_samples
  have start: "d_devices (rl_db (sy_relay signed_in_system)) = [sample_device_row]" "d_fail (rl_db (sy_relay signed_in_system)) = (\<lambda>_. False)"
    "rl_lockout (sy_relay signed_in_system) = []" "sy_tasks signed_in_system = []"
    "d_sessions (rl_db (sy_relay signed_in_system)) = d_sessions (rl_db signed_in_relay)"
    "d_users (rl_db (sy_relay signed_in_system)) = d_users (rl_db signed_in_relay)" "d_clock (rl_db (sy_relay signed_in_system)) = (\<lambda>_. 1000)"
    "route (rl_registry (sy_relay signed_in_system)) ''desk'' = None" "rl_outbox (sy_relay signed_in_system) = []"
    by (simp_all add: defs route_def new_registry_def)
  from desk_joins [OF start(1-4), of "\<lambda>_. None"] obtain y t pr now serial seen where
    y: "system_run sample_x sample_ops (\<lambda>_. None) signed_in_system y" "dp_device_id pr = ''desk''"
      "rl_registry (sy_relay y) = snd (connect pr now (rl_registry (sy_relay signed_in_system)))"
      "sy_tasks y = [t]" "tt_device t = sample_device_record" "tt_handle t = dp_handle pr" "tt_phase t = Running serial Desktop"
      "d_devices (rl_db (sy_relay y)) = [seen_row seen]" "d_sessions (rl_db (sy_relay y)) = d_sessions (rl_db signed_in_relay)"
      "d_users (rl_db (sy_relay y)) = d_users (rl_db signed_in_relay)"
      "d_fail (rl_db (sy_relay y)) = (\<lambda>_. False)" "d_clock (rl_db (sy_relay y)) = (\<lambda>_. 1000)" "rl_outbox (sy_relay y) = []"
    unfolding start(5-7) using start(8,9) by auto
  have "route (rl_registry (sy_relay y)) ''desk'' = Some (Direct (tt_handle t))" using y(2,3,6) by (simp add: route_def connect_entry)
  moreover from inside_run [OF y(1), of "site_of signed_in_system" sample_link_ops] obtain z where
    "site_run sample_x sample_ops sample_link_ops (\<lambda>_. None) (site_of signed_in_system) z" "si_system z = y"
    by (auto simp: site_of_def)
  ultimately show ?thesis using y(4-13)
    by (intro exI [of _ z] exI [of _ t] exI [of _ seen]) (simp add: serving_def routed_def sole_serial_def sample_device_record_def)
qed

theorem tunnel_tasks_refine_relay_witness:
  "\<exists>y t. \<exists>z :: (string list, nat \<times> nat \<times> nat, nat, nat) session.
     site_run sample_x sample_ops sample_link_ops (\<lambda>_. None) (site_of signed_in_system) y \<and> serving t y \<and>
     tasks_run sample_x sample_ops sample_link_ops (\<lambda>_. None) sample_yamux t (spawned y (0, 1, 0)) z \<and>
     ss_written z = [WsBinary 9] \<and> site_run sample_x sample_ops sample_link_ops (\<lambda>_. None) y (ss_site z) \<and>
     (routed t (ss_site z) \<or> (\<exists>z1 :: (string list, nat \<times> nat \<times> nat, nat, nat) session. reconnected y t (ss_site z1)))"
proof -
  from desk_served obtain y t where y: "site_run sample_x sample_ops sample_link_ops (\<lambda>_. None) (site_of signed_in_system) y"
    "serving t y" "routed t y" "sole_serial t y" by blast
  from quiet_tasks_run [of t y] obtain z :: "(string list, nat \<times> nat \<times> nat, nat, nat) session" where
    z: "tasks_run sample_x sample_ops sample_link_ops (\<lambda>_. None) sample_yamux t (spawned y (0, 1, 0)) z"
      "ss_written z = [WsBinary 9]" "ss_reader z = Reading" by blast
  from tunnel_tasks_refine_relay [OF signed_in_started y(1,2) z(1)] y z show ?thesis by (metis reader.distinct(5))
qed

lemma sample_left:
  "tasks_run sample_x sample_ops sample_link_ops (\<lambda>_. None) sample_yamux sample_task sample_tunnel
     (leave sample_x sample_task Idle sample_tunnel)"
  by (rule tasks_more [OF tasks_start ReadIdle]) (simp add: sample_tunnel_def spawned_def)

theorem left_session_completes_witness:
  "\<exists>z'. tasks_run sample_x sample_ops sample_link_ops (\<lambda>_. None) sample_yamux sample_task
       (leave sample_x sample_task Idle sample_tunnel) z' \<and>
     ss_reader z' = Departed Idle \<and> sy_tasks (si_system (ss_site z')) = []"
  using left_session_completes [OF sample_tunnel_site sample_left [unfolded sample_tunnel_def], of Idle, folded sample_tunnel_def]
  by (auto simp: sample_tunnel_def spawned_def sample_tunnel_site_def site_of_def)

text \<open>The administrator revokes the desktop while its socket takes nothing.\<close>

lemma seen_row_found:
  assumes "d_devices db = [seen_row seen]" "d_fail db = (\<lambda>_. False)"
  shows "\<exists>d. d_id d = ''desk'' \<and> find_device ''desk'' db = (Inr (Some d), db\<lparr>d_stmts := d_stmts db + 1\<rparr>)"
proof -
  have "trim ''relay-login'' = ''relay-login''" by (rule trim_graphic) (simp_all add: graphic_def)
  with assms show ?thesis
    by (simp add: find_device_def flatten_query first_row_def read_device_row_def parse_device_row_def parse_device_kind_def
        seen_row_def sample_device_row_def device_access_from_str_def optional_text_def)
qed

lemma rv_device_envelope: "rv.obeys (device_envelope x i)"
  unfolding device_envelope_def require_device_def
  by (intro rv.obeys_intros rv.obeys_control rv_reads same.obeys_reads rv_build_context) (simp add: rv.obeys_def gets_def rv.R_refl)

lemma seen_revoked:
  fixes s :: "string list relay"
  assumes "d_devices (rl_db s) = [seen_row seen]" "d_sessions (rl_db s) = d_sessions (rl_db signed_in_relay)"
    and "d_users (rl_db s) = d_users (rl_db signed_in_relay)" "d_fail (rl_db s) = (\<lambda>_. False)" "d_clock (rl_db s) = (\<lambda>_. 1000)"
  shows "\<exists>db s2. revoke sample_x ''desk'' ''u1'' ip (s\<lparr>rl_db := db\<rparr>) = (Inr (), s2) \<and>
    exec_api sample_x list_headers (CallRevokeAny signed_in_headers ip ''desk'') s = snd (device_envelope sample_x ''desk'' s2)"
proof -
  have "admin_user sample_x list_headers signed_in_headers s
     = (Inr (sample_user, ''t''), s\<lparr>rl_db := (rl_db s)\<lparr>d_ticks := d_ticks (rl_db s) + 1, d_stmts := d_stmts (rl_db s) + 2\<rparr>\<rparr>)"
    using assms by (simp add: admin_user_def session_user_def signed_in_cookie bindE_def clock_def now_millis_def okE_def
        in_db_def map_err_def lift_db_def run_session relay_samples Let_def)
  moreover let ?db = "(rl_db s)\<lparr>d_ticks := d_ticks (rl_db s) + 1, d_stmts := d_stmts (rl_db s) + 2\<rparr>"
  from seen_row_found [of ?db seen] assms(1,4) obtain d where d: "d_id d = ''desk''"
    "find_device ''desk'' ?db = (Inr (Some d), ?db\<lparr>d_stmts := d_stmts ?db + 1\<rparr>)" by auto
  let ?s = "s\<lparr>rl_db := ?db\<lparr>d_stmts := d_stmts ?db + 1\<rparr>\<rparr>"
  have "require_device ''desk'' (s\<lparr>rl_db := ?db\<rparr>) = (Inr d, ?s)"
    using d(2) by (simp add: require_device_def bindE_def in_db_def map_err_def lift_db_def require_some_def okE_def)
  moreover have "succeeds (revoke sample_x ''desk'' ''u1'' ip) (\<lambda>_ _. True) ?s"
    using assms(1,4) by (intro succeeds_revoke [of "d_users (rl_db s)" "[seen_row seen]"]) (simp_all add: calm_def)
  then obtain s2 where "revoke sample_x ''desk'' ''u1'' ip ?s = (Inr (), s2)" by (auto simp: succeeds_def)
  moreover have "u_id sample_user = ''u1''" by (simp add: sample_user_def)
  ultimately show ?thesis
    using d(1) by (intro exI [of _ "?db\<lparr>d_stmts := d_stmts ?db + 1\<rparr>"] exI [of _ s2]) (simp add: revoke_any_def bindE_def)
qed

definition going_away :: outgoing where
  "going_away = Close (x_close_going_away sample_x) reason_closing"

lemma seen_revocation:
  fixes s :: "string list relay"
  assumes "d_devices (rl_db s) = [seen_row seen]" "d_sessions (rl_db s) = d_sessions (rl_db signed_in_relay)"
    and "d_users (rl_db s) = d_users (rl_db signed_in_relay)" "d_fail (rl_db s) = (\<lambda>_. False)" "d_clock (rl_db s) = (\<lambda>_. 1000)"
    and "route (rl_registry s) ''desk'' = Some (Direct h)" "rl_outbox s = [(h, going_away)]"
    and "exec_api sample_x list_headers (CallRevokeAny signed_in_headers ip ''desk'') s = s'"
  shows "\<forall>row \<in> set (d_devices (rl_db s')). dw_id row = ''desk'' \<longrightarrow> dw_revoked_at row \<noteq> None"
    "(h, Control (Revoked revoked_reason)) \<in> set (pending h s')" "rl_registry s' = rl_registry s"
proof -
  from seen_revoked [OF assms(1-5), of ip] obtain db s2 where
    r: "revoke sample_x ''desk'' ''u1'' ip (s\<lparr>rl_db := db\<rparr>) = (Inr (), s2)"
    and e: "exec_api sample_x list_headers (CallRevokeAny signed_in_headers ip ''desk'') s = snd (device_envelope sample_x ''desk'' s2)"
    by blast
  have later: "revoking s2 s'"
    using rv_device_envelope [of sample_x "''desk''", unfolded rv.obeys_def, THEN spec, of s2] e assms(8) by (simp del: exec_api.simps)
  have "revoked_told sample_x s' ''desk''" by (rule revoked_told_mono [OF later revoke_tells [OF r]])
  then show "\<forall>row \<in> set (d_devices (rl_db s')). dw_id row = ''desk'' \<longrightarrow> dw_revoked_at row \<noteq> None" by (simp add: revoked_told_def)
  have "(h, Control (Revoked revoked_reason)) \<in> set (rl_outbox s2)"
    using revoke_outbox [OF r] assms(6,7)
    by (simp add: revoke_tunnel_def close_tunnel_def send_frame_def try_send_def pending_def command_capacity_def)
  then show "(h, Control (Revoked revoked_reason)) \<in> set (pending h s')"
    using later by (auto simp: revoking_def prefix_def pending_def)
  show "rl_registry s' = rl_registry s"
    using exec_api_effect [of s sample_x list_headers "CallRevokeAny signed_in_headers ip ''desk''"] assms(8) by (simp add: api_effect_def)
qed

theorem blocked_socket_keeps_tunnel_witness:
  "\<exists>y t. \<exists>z' :: (string list, nat \<times> nat \<times> nat, nat, nat) session.
     site_run sample_x sample_ops sample_link_ops (\<lambda>_. None) (site_of signed_in_system) y \<and> serving t y \<and>
     tasks_run sample_x sample_ops sample_link_ops (\<lambda>_. None) sample_yamux t (spawned y (0, 1, 0)) z' \<and>
     (\<forall>row \<in> set (d_devices (rl_db (shared z'))). dw_id row = ''desk'' \<longrightarrow> dw_revoked_at row \<noteq> None) \<and>
     (tt_handle t, Control (Revoked revoked_reason)) \<in> set (pending (tt_handle t) (shared z')) \<and> ss_reader z' = Leaving Idle \<and>
     ss_writer z' = Sending (WsText Ping) \<and> routed t (ss_site z')"
proof -
  from desk_served obtain y t seen where y: "site_run sample_x sample_ops sample_link_ops (\<lambda>_. None) (site_of signed_in_system) y"
    "serving t y" "routed t y" "sole_serial t y" "tt_device t = sample_device_record"
    "d_devices (rl_db (sy_relay (si_system y))) = [seen_row seen]"
    "d_sessions (rl_db (sy_relay (si_system y))) = d_sessions (rl_db signed_in_relay)"
    "d_users (rl_db (sy_relay (si_system y))) = d_users (rl_db signed_in_relay)"
    "d_fail (rl_db (sy_relay (si_system y))) = (\<lambda>_. False)" "d_clock (rl_db (sy_relay (si_system y))) = (\<lambda>_. 1000)"
    "rl_outbox (sy_relay (si_system y)) = []" by blast
  let ?run = "tasks_run sample_x sample_ops sample_link_ops (\<lambda>_. None) sample_yamux t"
  let ?z = "(spawned y (0, 1, 0) :: (string list, nat \<times> nat \<times> nat, nat, nat) session)\<lparr>ss_writer := Sending (WsText Ping)\<rparr>"
  let ?z1 = "leave sample_x t Idle ?z"
  have z: "?run (spawned y (0, 1, 0)) ?z" by (rule tasks_more [OF tasks_start TakesPing]) (simp add: spawned_def)
  have left: "?run ?z ?z1" by (rule tasks_more [OF tasks_start ReadIdle]) (simp add: spawned_def)
  let ?s = "shared ?z1"
  have id: "d_id (tt_device t) = ''desk''" using y(5) by (simp add: sample_device_record_def)
  have s: "?s = (sy_relay (si_system y))\<lparr>rl_outbox := [(tt_handle t, going_away)]\<rparr>"
    using y(11) by (simp add: shared_def spawned_def tunnel_leave_def close_tunnel_def try_send_def pending_def command_capacity_def going_away_def)
  have "route (rl_registry ?s) ''desk'' = Some (Direct (tt_handle t))" unfolding s using y(3) id by (simp add: routed_def)
  define s' where "s' = exec_api sample_x list_headers (CallRevokeAny signed_in_headers ''192.0.2.8'' ''desk'') ?s"
  have "d_devices (rl_db ?s) = [seen_row seen]" "d_sessions (rl_db ?s) = d_sessions (rl_db signed_in_relay)"
    "d_users (rl_db ?s) = d_users (rl_db signed_in_relay)" "d_fail (rl_db ?s) = (\<lambda>_. False)" "d_clock (rl_db ?s) = (\<lambda>_. 1000)"
    "rl_outbox ?s = [(tt_handle t, going_away)]" unfolding s using y(6-10) by simp_all
  note revoked = seen_revocation [OF this(1-5) \<open>route (rl_registry ?s) ''desk'' = Some (Direct (tt_handle t))\<close> this(6) s'_def [symmetric]]
  let ?y2 = "put_system ((si_system (ss_site ?z1))\<lparr>sy_relay := s'\<rparr>) (ss_site ?z1)"
  define z2 where "z2 = ?z1\<lparr>ss_site := ?y2\<rparr>"
  have "system_step sample_x sample_ops (\<lambda>_. None) (si_system (ss_site ?z1)) ((si_system (ss_site ?z1))\<lparr>sy_relay := s'\<rparr>)"
    using system_step.Api [of sample_x sample_ops "\<lambda>_. None" "si_system (ss_site ?z1)" "CallRevokeAny signed_in_headers ''192.0.2.8'' ''desk''"]
    unfolding s'_def by (simp add: sample_ops_def shared_def del: leave_simps exec_api.simps)
  then have step: "site_step sample_x sample_ops sample_link_ops (\<lambda>_. None) (ss_site ?z1) ?y2" by (rule site_step.Inside)
  have "prefix (rl_outbox ?s) (rl_outbox s')"
    using exec_api_effect [of ?s sample_x list_headers "CallRevokeAny signed_in_headers ''192.0.2.8'' ''desk''"]
    unfolding s'_def by (simp add: api_effect_def del: exec_api.simps)
  then have "prefix (pending (tt_handle t) ?s) (pending (tt_handle t) s')" by (rule outbox_pending)
  with step have run: "?run ?z z2"
    unfolding z2_def using y(2) by (intro tasks_more [OF left] Outside) (simp_all add: serving_def spawned_def)
  have same: "shared z2 = s'" "ss_reader z2 = Leaving Idle" "ss_written z2 = ss_written ?z" "writer_open (ss_writer z2)"
    "si_system (ss_site z2) = (si_system y)\<lparr>sy_relay := s'\<rparr>"
    by (simp_all add: z2_def) (simp_all add: shared_def spawned_def)
  have "ss_writer z2 = Sending (WsText Ping)"
    using blocked_socket_keeps_tunnel [OF signed_in_started y(1,2) z _ run same(3,4)] by simp
  moreover have "routed t (ss_site z2)" using y(3) revoked(3) unfolding s by (simp add: routed_def same(5))
  moreover have "?run (spawned y (0, 1, 0)) z2" by (rule tasks_run_trans [OF run z])
  ultimately show ?thesis using y(1,2) revoked(1,2) same(1,2) by blast
qed

end
